(* ===== verification/J4Prelude.thy ===== *)
theory J4Prelude
  imports Main "HOL-Library.Sublist"
begin

text \<open>
  Prelude of the j4-dmenu-desktop library: the faults a C++ routine of the program can end
  with, the characters and strings of the code, the \<open>std::string\<close> searches the sources
  use, decimal printing and scanning, and the generic list lemmas that several components
  share. A \<open>char\<close> of the code is a HOL \<open>char\<close> (one byte), a \<open>std::string\<close> or a
  \<open>std::string_view\<close> is a \<open>string\<close>, and \<open>npos\<close> is \<open>None\<close>.
\<close>

named_theorems char_simps \<open>facts about single characters of the code\<close>
named_theorems scan_simps \<open>decimal printing and scanning\<close>

section \<open>Faults\<close>

text \<open>
  How a routine ends when it does not return: \<open>abort()\<close>, \<open>exit(n)\<close>, undefined behaviour,
  or one of the exceptions that leave a component (those a component catches itself have
  types of their own).
\<close>

datatype fault =
    Aborted
  | Exited nat
  | Undefined
  | Out_of_range
  | Runtime_error string
  | V0_version_error string
  | Initialization_error string
  | Exec_invalid_escape string

definition EXIT_SUCCESS :: nat where "EXIT_SUCCESS = 0"
definition EXIT_FAILURE :: nat where "EXIT_FAILURE = 1"

text \<open>Sequencing of two fallible steps: the first fault wins, as an exception would.\<close>

definition bind_sum :: "'e + 'a \<Rightarrow> ('a \<Rightarrow> 'e + 'b) \<Rightarrow> 'e + 'b" where
  "bind_sum m f = (case m of Inl e \<Rightarrow> Inl e | Inr x \<Rightarrow> f x)"

lemma bind_sum_simps [simp]:
  "bind_sum (Inl e) f = Inl e"
  "bind_sum (Inr x) f = f x"
  by (simp_all add: bind_sum_def)

lemma bind_sum_eq_Inr [simp]:
  "bind_sum m f = Inr y \<longleftrightarrow> (\<exists>x. m = Inr x \<and> f x = Inr y)"
  by (cases m) auto

lemma bind_sum_eq_Inl:
  "bind_sum m f = Inl e \<longleftrightarrow> m = Inl e \<or> (\<exists>x. m = Inr x \<and> f x = Inl e)"
  by (cases m) auto

lemma bind_sum_assoc: "bind_sum (bind_sum m f) g = bind_sum m (\<lambda>x. bind_sum (f x) g)"
  by (cases m) auto

section \<open>Characters\<close>

abbreviation NUL :: char where "NUL \<equiv> CHR 0x00"
abbreviation TAB :: char where "TAB \<equiv> CHR 0x09"
abbreviation NL :: char where "NL \<equiv> CHR 0x0A"
abbreviation CR :: char where "CR \<equiv> CHR 0x0D"
abbreviation SPACE :: char where "SPACE \<equiv> CHR 0x20"
abbreviation DQUOTE :: char where "DQUOTE \<equiv> CHR 0x22"
abbreviation SQUOTE :: char where "SQUOTE \<equiv> CHR 0x27"
abbreviation BACKTICK :: char where "BACKTICK \<equiv> CHR 0x60"
abbreviation BACKSLASH :: char where "BACKSLASH \<equiv> CHR 0x5C"

abbreviation chr_val :: "char \<Rightarrow> nat" where "chr_val c \<equiv> of_char c"

text \<open>\<open>isdigit\<close> and \<open>isspace\<close> of \<open><ctype.h>\<close> in the C locale, and the value of a digit.\<close>

definition is_digit :: "char \<Rightarrow> bool" where
  "is_digit c \<longleftrightarrow> 48 \<le> chr_val c \<and> chr_val c \<le> 57"

definition is_space :: "char \<Rightarrow> bool" where
  "is_space c \<longleftrightarrow> c = SPACE \<or> (9 \<le> chr_val c \<and> chr_val c \<le> 13)"

definition digit_val :: "char \<Rightarrow> nat" where
  "digit_val c = chr_val c - 48"

definition digit_chr :: "nat \<Rightarrow> char" where
  "digit_chr d = char_of (48 + d)"

lemma of_char_digit_chr [char_simps]: "d < 10 \<Longrightarrow> chr_val (digit_chr d) = 48 + d"
  by (simp add: digit_chr_def)

lemma is_digit_digit_chr [char_simps]: "d < 10 \<Longrightarrow> is_digit (digit_chr d)"
  by (simp add: is_digit_def of_char_digit_chr)

lemma digit_val_digit_chr [char_simps]: "d < 10 \<Longrightarrow> digit_val (digit_chr d) = d"
  by (simp add: digit_val_def of_char_digit_chr)

lemma is_space_not_digit [char_simps]: "is_digit c \<Longrightarrow> \<not> is_space c"
  by (auto simp: is_digit_def is_space_def)

lemma comma_not_digit [char_simps]: "\<not> is_digit (CHR '','')" "\<not> is_digit (CHR ''.'')"
  "\<not> is_digit NL"
  by (simp_all add: is_digit_def)

section \<open>Searches of std::string\<close>

text \<open>\<open>s.find(c)\<close> and \<open>s.find(sub)\<close>: the first position, \<open>None\<close> for \<open>npos\<close>.\<close>

fun find_char :: "char \<Rightarrow> string \<Rightarrow> nat option" where
  "find_char c [] = None"
| "find_char c (x # xs) = (if x = c then Some 0 else map_option Suc (find_char c xs))"

fun find_str :: "string \<Rightarrow> string \<Rightarrow> nat option" where
  "find_str sub [] = (if sub = [] then Some 0 else None)"
| "find_str sub (x # xs) =
     (if prefix sub (x # xs) then Some 0 else map_option Suc (find_str sub xs))"

text \<open>The last position of \<open>c\<close> in a whole string.\<close>

fun rfind_char :: "char \<Rightarrow> string \<Rightarrow> nat option" where
  "rfind_char c [] = None"
| "rfind_char c (x # xs) =
     (case rfind_char c xs of
        Some i \<Rightarrow> Some (Suc i)
      | None \<Rightarrow> if x = c then Some 0 else None)"

lemma find_char_None [simp]: "find_char c s = None \<longleftrightarrow> c \<notin> set s"
  by (induction s) auto

lemma find_char_notin [simp]: "c \<notin> set s \<Longrightarrow> find_char c s = None"
  by simp

lemma find_char_Some:
  "find_char c s = Some i \<Longrightarrow>
     i < length s \<and> s = take i s @ c # drop (Suc i) s \<and> c \<notin> set (take i s)"
proof (induction s arbitrary: i)
  case Nil
  then show ?case by simp
next
  case (Cons x xs)
  then show ?case by (cases i) (fastforce split: if_splits)+
qed

lemma find_char_less: "find_char c s = Some i \<Longrightarrow> i < length s"
  by (simp add: find_char_Some)

lemma find_char_append [simp]:
  "c \<notin> set s \<Longrightarrow> find_char c (s @ c # t) = Some (length s)"
  by (induction s) auto

lemma find_char_eq_Some_iff:
  "find_char c s = Some i \<longleftrightarrow> (\<exists>a b. s = a @ c # b \<and> c \<notin> set a \<and> i = length a)"
proof
  assume "find_char c s = Some i"
  from find_char_Some [OF this]
  have "s = take i s @ c # drop (Suc i) s \<and> c \<notin> set (take i s) \<and> i = length (take i s)" by simp
  then show "\<exists>a b. s = a @ c # b \<and> c \<notin> set a \<and> i = length a" by blast
qed auto

lemma rfind_char_None [simp]: "rfind_char c s = None \<longleftrightarrow> c \<notin> set s"
  by (induction s) (auto split: option.splits)

lemma rfind_char_notin [simp]: "c \<notin> set s \<Longrightarrow> rfind_char c s = None"
  by simp

lemma rfind_char_Some:
  "rfind_char c s = Some i \<Longrightarrow>
     i < length s \<and> s = take i s @ c # drop (Suc i) s \<and> c \<notin> set (drop (Suc i) s)"
proof (induction s arbitrary: i)
  case Nil
  then show ?case by simp
next
  case (Cons x xs)
  show ?case
  proof (cases "rfind_char c xs")
    case None
    with Cons.prems show ?thesis by (auto split: if_splits)
  next
    case (Some j)
    with Cons show ?thesis by auto
  qed
qed

lemma find_str_None_Nil [simp]: "find_str [] s = Some 0"
  by (cases s) auto

text \<open>A string between single quotes, as error messages show file names.\<close>

definition quoted :: "string \<Rightarrow> string" where
  "quoted s = SQUOTE # s @ [SQUOTE]"

section \<open>Decimal numbers\<close>

text \<open>\<open>std::to_string\<close> of an unsigned number, and \<open>fmt\<close>'s rendering of an \<open>int\<close>.\<close>

fun to_string :: "nat \<Rightarrow> string" where
  "to_string n =
     (if n < 10 then [digit_chr n] else to_string (n div 10) @ [digit_chr (n mod 10)])"

declare to_string.simps [simp del]

definition int_to_string :: "int \<Rightarrow> string" where
  "int_to_string i = (if i < 0 then CHR ''-'' # to_string (nat (- i)) else to_string (nat i))"

text \<open>The digits a scanner reads: their value (accumulated from the left) and the rest.\<close>

fun scan_digits :: "nat \<Rightarrow> string \<Rightarrow> nat \<times> string" where
  "scan_digits acc [] = (acc, [])"
| "scan_digits acc (c # cs) =
     (if is_digit c then scan_digits (10 * acc + digit_val c) cs else (acc, c # cs))"

lemma to_string_nonempty [simp]: "to_string n \<noteq> []"
  by (subst to_string.simps) simp

lemma to_string_digits: "\<forall>c \<in> set (to_string n). is_digit c"
proof (induction n rule: to_string.induct)
  case (1 n)
  then show ?case
    by (cases "n < 10")
      (subst to_string.simps, auto simp: is_digit_digit_chr to_string.simps [of n])+
qed

lemma hd_to_string: "is_digit (hd (to_string n))"
  using to_string_digits hd_in_set [OF to_string_nonempty] by blast

lemma scan_digits_append:
  "\<forall>c \<in> set ds. is_digit c \<Longrightarrow> scan_digits a (ds @ r) = scan_digits (fst (scan_digits a ds)) r"
  by (induction ds arbitrary: a) auto

lemma scan_digits_stop:
  "r = [] \<or> \<not> is_digit (hd r) \<Longrightarrow> scan_digits a r = (a, r)"
  by (cases r) auto

lemma scan_digits_to_string_acc:
  "\<exists>k. \<forall>a. fst (scan_digits a (to_string n)) = a * 10 ^ k + n"
proof (induction n rule: to_string.induct)
  case (1 n)
  show ?case
  proof (cases "n < 10")
    case True
    then have "\<forall>a. fst (scan_digits a (to_string n)) = a * 10 ^ 1 + n"
      by (simp add: to_string.simps [of n] char_simps)
    then show ?thesis by blast
  next
    case False
    then obtain k where
      k: "\<And>a. fst (scan_digits a (to_string (n div 10))) = a * 10 ^ k + n div 10"
      using "1.IH" by auto
    have "fst (scan_digits a (to_string n)) = a * 10 ^ Suc k + n" for a
    proof -
      have "fst (scan_digits a (to_string n)) = 10 * (a * 10 ^ k + n div 10) + n mod 10"
        using False
        by (simp add: to_string.simps [of n] scan_digits_append to_string_digits k char_simps)
      also have "\<dots> = a * 10 ^ Suc k + n" by (simp add: algebra_simps)
      finally show ?thesis .
    qed
    then show ?thesis by blast
  qed
qed

lemma scan_digits_to_string [scan_simps]:
  assumes "r = [] \<or> \<not> is_digit (hd r)"
  shows "scan_digits 0 (to_string n @ r) = (n, r)"
proof -
  obtain k where "\<forall>a. fst (scan_digits a (to_string n)) = a * 10 ^ k + n"
    using scan_digits_to_string_acc by blast
  then have "fst (scan_digits 0 (to_string n)) = n" by simp
  then show ?thesis
    using assms by (simp add: scan_digits_append to_string_digits scan_digits_stop)
qed

lemma to_string_inject [simp]: "to_string m = to_string n \<longleftrightarrow> m = n"
proof
  assume "to_string m = to_string n"
  then have "scan_digits 0 (to_string m) = scan_digits 0 (to_string n)" by simp
  then show "m = n" using scan_digits_to_string [of "[]", simplified] by simp
qed simp

section \<open>Lists\<close>

text \<open>\<open>C\<close> strings: the bytes of a buffer up to its first NUL.\<close>

definition cstr :: "string \<Rightarrow> string" where
  "cstr s = takeWhile (\<lambda>c. c \<noteq> NUL) s"

lemma cstr_id [simp]: "NUL \<notin> set s \<Longrightarrow> cstr s = s"
  by (auto simp: cstr_def takeWhile_eq_all_conv)

lemma cstr_no_NUL [simp]: "NUL \<notin> set (cstr s)"
  by (auto simp: cstr_def dest: set_takeWhileD)

lemma cstr_idem [simp]: "cstr (cstr s) = cstr s"
  by (rule cstr_id) simp

lemma suffix_single: "suffix [d] s \<longleftrightarrow> s \<noteq> [] \<and> last s = d"
  by (cases s rule: rev_cases) auto

lemma append_same_sep:
  assumes "a @ c # b = a' @ c # b'" "c \<notin> set a" "c \<notin> set a'"
  shows "a = a' \<and> b = b'"
  using assms
proof (induction a arbitrary: a')
  case Nil
  then show ?case by (cases a') auto
next
  case (Cons x xs)
  then show ?case by (cases a') auto
qed

end
