(* ===== verification/Utilities.thy ===== *)
theory Utilities
  imports J4Prelude
begin

text \<open>\<open>src/Utilities.cc\<close>: the string helpers and the retrying \<open>readn\<close> and \<open>writen\<close>.\<close>

section \<open>String helpers\<close>

text \<open>
  \<open>split\<close>: each round looks for the delimiter in what is left of the string; a delimiter
  at the last position of the string ends the loop without a trailing empty field.
\<close>

function split :: "string \<Rightarrow> char \<Rightarrow> string list" where
  "split str delimiter =
     (case find_char delimiter str of
        None \<Rightarrow> [str]
      | Some cur \<Rightarrow>
          (if cur = length str - 1 then [take cur str]
           else take cur str # split (drop (Suc cur) str) delimiter))"
  by pat_completeness auto
termination
  by (relation "measure (\<lambda>(s, d). length s)") (auto dest: find_char_less)

declare split.simps [simp del]

fun join :: "string list \<Rightarrow> char \<Rightarrow> string" where
  "join [] delimiter = []"
| "join [x] delimiter = x"
| "join (x # y # xs) delimiter = x @ delimiter # join (y # xs) delimiter"

fun have_equal_element :: "string list \<Rightarrow> string list \<Rightarrow> bool" where
  "have_equal_element [] list2 = False"
| "have_equal_element (e1 # es) list2 = (e1 \<in> set list2 \<or> have_equal_element es list2)"

definition endswith :: "string \<Rightarrow> string \<Rightarrow> bool" where
  "endswith str suff =
     (if length str < length suff then False
      else drop (length str - length suff) str = suff)"

definition startswith :: "string \<Rightarrow> string \<Rightarrow> bool" where
  "startswith str pre =
     (if length str < length pre then False else take (length pre) str = pre)"

text \<open>
  \<open>replace\<close>: replaces every occurrence, continuing after the substitute; \<open>start_pos\<close>
  splits the string into the finished part and the rest.
\<close>

function replace_from :: "string \<Rightarrow> string \<Rightarrow> string \<Rightarrow> string" where
  "replace_from str substr substitute =
     (if substr = [] then str
      else case find_str substr str of
        None \<Rightarrow> str
      | Some p \<Rightarrow>
          take p str @ substitute @ replace_from (drop (p + length substr) str) substr substitute)"
  by pat_completeness auto
termination
proof (relation "measure (\<lambda>(s, d, e). length s)", goal_cases)
  case (2 str substr substitute p)
  then show ?case by (cases str) auto
qed simp

declare replace_from.simps [simp del]

section \<open>Retrying reads and writes\<close>

text \<open>
  The kernel side of a descriptor is explicit: the bytes still in the stream, and a schedule
  with one entry per system call. A \<open>Rd_deliver m\<close> hands over at most \<open>m + 1\<close> bytes
  (nothing only at the end of the stream), a \<open>Wr_accept m\<close> takes at most \<open>m\<close> bytes.
  The result \<open>None\<close> is a call that never returns because the schedule has ended.
\<close>

datatype rd_step = Rd_deliver nat | Rd_eintr | Rd_error

datatype wr_step = Wr_accept nat | Wr_eintr | Wr_error

fun readn_loop ::
  "nat \<Rightarrow> string \<Rightarrow> rd_step list \<Rightarrow> string \<Rightarrow> (int \<times> string \<times> string \<times> rd_step list) option" where
  "readn_loop n stream [] buf =
     (if length buf < n then None else Some (int (length buf), buf, stream, []))"
| "readn_loop n stream (r # rs) buf =
     (if length buf < n then
        (case r of
           Rd_deliver m \<Rightarrow>
             (let got = take (min (Suc m) (n - length buf)) stream in
              if got = [] then Some (int (length buf), buf, stream, rs)
              else readn_loop n (drop (length got) stream) rs (buf @ got))
         | Rd_eintr \<Rightarrow> readn_loop n stream rs buf
         | Rd_error \<Rightarrow> Some (- 1, buf, stream, rs))
      else Some (int (length buf), buf, stream, r # rs))"

definition readn ::
  "string \<Rightarrow> rd_step list \<Rightarrow> nat \<Rightarrow> (int \<times> string \<times> string \<times> rd_step list) option" where
  "readn stream rs n = readn_loop n stream rs []"

fun writen_loop ::
  "string \<Rightarrow> nat \<Rightarrow> wr_step list \<Rightarrow> string \<Rightarrow> (int \<times> string \<times> wr_step list) option" where
  "writen_loop rest tot [] out = (if rest = [] then Some (int tot, out, []) else None)"
| "writen_loop rest tot (w # ws) out =
     (if rest = [] then Some (int tot, out, w # ws)
      else case w of
        Wr_accept m \<Rightarrow>
          (let k = min m (length rest) in
           if k = 0 then Some (- 1, out, ws)
           else writen_loop (drop k rest) (tot + k) ws (out @ take k rest))
      | Wr_eintr \<Rightarrow> writen_loop rest tot ws out
      | Wr_error \<Rightarrow> Some (- 1, out, ws))"

definition writen ::
  "string \<Rightarrow> wr_step list \<Rightarrow> string \<Rightarrow> (int \<times> string \<times> wr_step list) option" where
  "writen out ws buffer = writen_loop buffer 0 ws out"

section \<open>The helpers against the library\<close>

lemma endswith_iff [simp]: "endswith str suff \<longleftrightarrow> suffix suff str"
proof
  assume "endswith str suff"
  then have "drop (length str - length suff) str = suff"
    by (simp add: endswith_def split: if_splits)
  then show "suffix suff str" by (metis suffix_drop)
qed (auto simp: endswith_def suffix_def)

lemma startswith_iff [simp]: "startswith str pre \<longleftrightarrow> prefix pre str"
proof
  assume "startswith str pre"
  then have "take (length pre) str = pre"
    by (simp add: startswith_def split: if_splits)
  then show "prefix pre str" by (metis take_is_prefix)
qed (auto simp: startswith_def prefix_def)

lemma have_equal_element_iff [simp]:
  "have_equal_element xs ys \<longleftrightarrow> set xs \<inter> set ys \<noteq> {}"
  by (induction xs) auto

lemma split_no_delimiter: "d \<notin> set s \<Longrightarrow> split s d = [s]"
  by (subst split.simps) (simp add: find_char_None [THEN iffD2])

lemma split_delimiter_last: "d \<notin> set s \<Longrightarrow> split (s @ [d]) d = [s]"
  by (subst split.simps) simp

lemma split_delimiter_cons:
  "d \<notin> set s \<Longrightarrow> t \<noteq> [] \<Longrightarrow> split (s @ d # t) d = s # split t d"
  by (subst split.simps) (cases t; simp)

lemma split_nonempty [simp]: "split s d \<noteq> []"
  by (subst split.simps) (simp split: option.splits)

lemma split_cases [case_names none last more]:
  obtains "d \<notin> set s"
  | a where "s = a @ [d]" "d \<notin> set a"
  | a t where "s = a @ d # t" "d \<notin> set a" "t \<noteq> []"
  by (metis split_list_first)

lemma split_no_delimiter_inside:
  "x \<in> set (split s d) \<Longrightarrow> d \<notin> set x"
proof (induction s d rule: split.induct)
  case (1 s d)
  show ?case
  proof (cases rule: split_cases [of d s])
    case none
    with "1.prems" show ?thesis by (simp add: split_no_delimiter)
  next
    case (last a)
    with "1.prems" show ?thesis by (simp add: split_delimiter_last)
  next
    case (more a t)
    then have "x = a \<or> x \<in> set (split t d)" using "1.prems" by (simp add: split_delimiter_cons)
    with more show ?thesis using "1.IH" [of "length a"] by auto
  qed
qed

lemma join_Cons: "xs \<noteq> [] \<Longrightarrow> join (x # xs) d = x @ d # join xs d"
  by (cases xs) auto

lemma join_split:
  "s = join (split s d) d @ (if suffix [d] s then [d] else [])"
proof (induction s d rule: split.induct)
  case (1 s d)
  show ?case
  proof (cases rule: split_cases [of d s])
    case none
    then show ?thesis by (auto simp: split_no_delimiter suffix_def)
  next
    case (last a)
    then show ?thesis by (simp add: split_delimiter_last)
  next
    case (more a t)
    then have "t = join (split t d) d @ (if suffix [d] t then [d] else [])"
      using "1.IH" [of "length a"] by simp
    moreover have "suffix [d] s \<longleftrightarrow> suffix [d] t"
      using more by (simp add: suffix_single)
    ultimately show ?thesis
      using more by (simp add: split_delimiter_cons join_Cons)
  qed
qed

lemma split_join:
  assumes "xs \<noteq> []" "\<forall>x \<in> set xs. d \<notin> set x" "length xs = 1 \<or> last xs \<noteq> []"
  shows "split (join xs d) d = xs"
  using assms
proof (induction xs d rule: join.induct)
  case (3 x y xs d)
  then have "join (y # xs) d \<noteq> []" by (cases xs) auto
  moreover have "split (join (y # xs) d) d = y # xs"
    using 3 by (cases xs) (auto simp: split_no_delimiter)
  ultimately show ?case using "3.prems" by (simp add: split_delimiter_cons)
qed (simp_all add: split_no_delimiter)

lemma replace_from_char:
  "replace_from s [c] [d] = map (\<lambda>x. if x = c then d else x) s"
proof (induction s)
  case Nil
  then show ?case by (simp add: replace_from.simps)
next
  case (Cons x xs)
  show ?case
  proof (cases "x = c")
    case True
    with Cons show ?thesis by (subst replace_from.simps) simp
  next
    case False
    have "replace_from (x # xs) [c] [d] = x # replace_from xs [c] [d]"
      using False
      by (simp add: replace_from.simps [of "x # xs"] replace_from.simps [of xs]
          split: option.splits)
    with Cons False show ?thesis by simp
  qed
qed

section \<open>What readn and writen guarantee\<close>

lemma readn_loop_safe:
  "readn_loop n stream rs buf = Some (r, out, stream', rs') \<Longrightarrow> length buf \<le> n \<Longrightarrow>
     \<exists>k. k \<le> length stream \<and> out = buf @ take k stream \<and> stream' = drop k stream \<and>
         length out \<le> n \<and> (r = int (length out) \<or> r = - 1)"
proof (induction n stream rs buf rule: readn_loop.induct)
  case (1 n stream buf)
  then show ?case by (intro exI [of _ 0]) (auto split: if_splits)
next
  case (2 n stream s rs buf)
  show ?case
  proof (cases "length buf < n")
    case False
    with "2.prems" show ?thesis by (intro exI [of _ 0]) auto
  next
    case lt: True
    show ?thesis
    proof (cases s)
      case (Rd_deliver m)
      define got where "got = take (min (Suc m) (n - length buf)) stream"
      have step: "readn_loop n stream (s # rs) buf =
          (if got = [] then Some (int (length buf), buf, stream, rs)
           else readn_loop n (drop (length got) stream) rs (buf @ got))"
        using lt by (simp only: Rd_deliver readn_loop.simps rd_step.case if_True Let_def got_def)
      show ?thesis
      proof (cases "got = []")
        case True
        with "2.prems" step lt show ?thesis by (intro exI [of _ 0]) auto
      next
        case False
        then have "readn_loop n (drop (length got) stream) rs (buf @ got)
            = Some (r, out, stream', rs')"
          using "2.prems"(1) step by simp
        moreover have "length (buf @ got) \<le> n" using lt by (simp add: got_def)
        ultimately obtain k where
          k: "k \<le> length stream - length got" "out = buf @ got @ take k (drop (length got) stream)"
            "stream' = drop k (drop (length got) stream)" "length out \<le> n"
            "r = int (length out) \<or> r = - 1"
          using "2.IH"(1) [OF lt Rd_deliver got_def False] by auto
        have "got = take (length got) stream" by (simp add: got_def min_def)
        then have "out = buf @ take (length got + k) stream"
          using k(2) by (metis take_add append_assoc)
        moreover have "length got + k \<le> length stream"
          using k(1) by (auto simp: got_def min_def)
        ultimately show ?thesis
          using k by (intro exI [of _ "length got + k"]) (auto simp: add.commute)
      qed
    next
      case Rd_eintr
      with "2.prems" lt "2.IH"(2) show ?thesis by simp
    next
      case Rd_error
      with "2.prems" lt show ?thesis by (intro exI [of _ 0]) auto
    qed
  qed
qed


lemma readn_loop_complete:
  assumes "Rd_error \<notin> set rs" "length buf \<le> n"
    "n - length buf \<le> length (filter (\<lambda>r. r \<noteq> Rd_eintr) rs)"
  shows "\<exists>rs'. readn_loop n stream rs buf =
    Some (int (length (buf @ take (n - length buf) stream)), buf @ take (n - length buf) stream,
          drop (n - length buf) stream, rs')"
  using assms
proof (induction n stream rs buf rule: readn_loop.induct)
  case (1 n stream buf)
  then show ?case by simp
next
  case (2 n stream s rs buf)
  show ?case
  proof (cases "length buf < n")
    case False
    with "2.prems" show ?thesis by simp
  next
    case lt: True
    show ?thesis
    proof (cases s)
      case (Rd_deliver m)
      define got where "got = take (min (Suc m) (n - length buf)) stream"
      have step: "readn_loop n stream (s # rs) buf =
          (if got = [] then Some (int (length buf), buf, stream, rs)
           else readn_loop n (drop (length got) stream) rs (buf @ got))"
        using lt by (simp only: Rd_deliver readn_loop.simps rd_step.case if_True Let_def got_def)
      show ?thesis
      proof (cases "got = []")
        case True
        with lt have "stream = []" by (auto simp: got_def)
        with step True show ?thesis by simp
      next
        case False
        have len: "length got \<le> n - length buf" by (simp add: got_def)
        then have "n - length (buf @ got) \<le> length (filter (\<lambda>r. r \<noteq> Rd_eintr) rs)"
          using "2.prems" Rd_deliver False by (cases got) auto
        then have IH: "\<exists>rs'. readn_loop n (drop (length got) stream) rs (buf @ got) =
            Some (int (length ((buf @ got) @ take (n - length (buf @ got)) (drop (length got) stream))),
              (buf @ got) @ take (n - length (buf @ got)) (drop (length got) stream),
              drop (n - length (buf @ got)) (drop (length got) stream), rs')"
          using "2.prems" len lt by (intro "2.IH"(1) [OF lt Rd_deliver got_def False]) auto
        have "got = take (length got) stream" by (simp add: got_def min_def)
        then have "got @ take (n - length (buf @ got)) (drop (length got) stream)
            = take (length got + (n - length (buf @ got))) stream"
          by (metis take_add)
        moreover have sum: "length got + (n - length (buf @ got)) = n - length buf"
          using len by simp
        ultimately have "got @ take (n - length (buf @ got)) (drop (length got) stream)
            = take (n - length buf) stream" by simp
        moreover have "drop (n - length (buf @ got)) (drop (length got) stream)
            = drop (n - length buf) stream" using sum by (simp only: drop_drop add.commute)
        ultimately show ?thesis using step False IH by (simp only: if_False append_assoc)
      qed
    next
      case Rd_eintr
      with "2.prems" lt "2.IH"(2) show ?thesis by simp
    next
      case Rd_error
      with "2.prems" show ?thesis by simp
    qed
  qed
qed

text \<open>
  A read on a working descriptor returns the first \<open>n\<close> bytes of the stream, whatever the
  sizes of the pieces and however often a signal interrupts it, and takes exactly those.
\<close>

lemma readn_complete:
  assumes "Rd_error \<notin> set rs" "n \<le> length (filter (\<lambda>r. r \<noteq> Rd_eintr) rs)"
  shows "\<exists>rs'. readn stream rs n =
    Some (int (min n (length stream)), take n stream, drop n stream, rs')"
  using readn_loop_complete [of rs "[]" n stream] assms by (simp add: readn_def min.commute)

lemma writen_loop_safe:
  "writen_loop rest tot ws out = Some (r, out', ws') \<Longrightarrow>
     (r = int (tot + length rest) \<and> out' = out @ rest) \<or>
     (r = - 1 \<and> strict_prefix out' (out @ rest))"
proof (induction rest tot ws out rule: writen_loop.induct)
  case (1 rest tot out)
  then show ?case by (auto split: if_splits)
next
  case (2 rest tot w ws out)
  show ?case
  proof (cases "rest = []")
    case True
    with "2.prems" show ?thesis by simp
  next
    case ne: False
    show ?thesis
    proof (cases w)
      case (Wr_accept m)
      show ?thesis
      proof (cases "min m (length rest) = 0")
        case True
        with "2.prems" ne Wr_accept show ?thesis
          by (auto simp: Let_def strict_prefix_def split: if_splits)
      next
        case False
        then have "writen_loop (drop (min m (length rest)) rest) (tot + min m (length rest)) ws
            (out @ take (min m (length rest)) rest) = Some (r, out', ws')"
          using "2.prems" ne by (simp only: Wr_accept writen_loop.simps wr_step.case Let_def if_False)
        from "2.IH"(1) [OF ne Wr_accept refl False this] show ?thesis by auto
      qed
    next
      case Wr_eintr
      with "2.prems" ne "2.IH"(2) show ?thesis by simp
    next
      case Wr_error
      with "2.prems" ne show ?thesis by (auto simp: strict_prefix_def)
    qed
  qed
qed

text \<open>
  \<open>writen\<close> either puts the whole buffer on the descriptor, in order and once, and returns
  its length, or it returns \<open>-1\<close> with a proper prefix of it written.
\<close>

lemma writen_all_or_error:
  "writen out ws buffer = Some (r, out', ws') \<Longrightarrow>
     (r = int (length buffer) \<and> out' = out @ buffer) \<or>
     (r = - 1 \<and> strict_prefix out' (out @ buffer))"
  using writen_loop_safe [of buffer 0 ws out] by (simp add: writen_def)

end
