(* ===== verification/SearchPath.thy ===== *)
theory SearchPath
  imports Utilities
begin

text \<open>
  \<open>src/SearchPath.cc\<close>: the list of \<open>applications/\<close> directories built from
  \<open>$XDG_DATA_HOME\<close>, \<open>$HOME\<close> and \<open>$XDG_DATA_DIRS\<close>, and \<open>validate_search_path\<close>
  of \<open>src/main.cc\<close>. The environment and \<open>is_directory()\<close> are parameters.
\<close>

section \<open>The code\<close>

text \<open>\<open>str.back()\<close> of an empty string is undefined behaviour.\<close>

definition add_applications_dir :: "string \<Rightarrow> fault + string" where
  "add_applications_dir str =
     (if str = [] then Inl Undefined
      else
        (let str1 = (if last str = CHR ''/'' then butlast str else str);
             str2 = (if \<not> endswith str1 ''/applications'' then str1 @ ''/applications'' else str1)
         in Inr (str2 @ ''/'')))"

fun add_data_dirs ::
  "(string \<Rightarrow> bool) \<Rightarrow> string list \<Rightarrow> string list \<Rightarrow> fault + string list" where
  "add_data_dirs is_directory_func [] result = Inr result"
| "add_data_dirs is_directory_func (path # dirs) result =
     bind_sum (add_applications_dir path) (\<lambda>path'.
       add_data_dirs is_directory_func dirs
         (if is_directory_func path' then result @ [path'] else result))"

definition build_search_path ::
  "string \<Rightarrow> string \<Rightarrow> string \<Rightarrow> (string \<Rightarrow> bool) \<Rightarrow> fault + string list" where
  "build_search_path xdg_data_home home xdg_data_dirs is_directory_func =
     (let data_home = (if xdg_data_home = [] then home @ ''/.local/share/'' else xdg_data_home);
          data_dirs = (if xdg_data_dirs = [] then ''/usr/local/share/:/usr/share/''
                       else xdg_data_dirs)
      in bind_sum (add_applications_dir data_home) (\<lambda>data_home'.
           add_data_dirs is_directory_func (split data_dirs (CHR '':''))
             (if is_directory_func data_home' then [data_home'] else [])))"

definition get_variable :: "(string \<Rightarrow> string option) \<Rightarrow> string \<Rightarrow> string" where
  "get_variable getenv var = (case getenv var of Some env \<Rightarrow> env | None \<Rightarrow> [])"

definition get_search_path ::
  "(string \<Rightarrow> string option) \<Rightarrow> (string \<Rightarrow> bool) \<Rightarrow> fault + string list" where
  "get_search_path getenv is_directory =
     build_search_path (get_variable getenv ''XDG_DATA_HOME'') (get_variable getenv ''HOME'')
       (get_variable getenv ''XDG_DATA_DIRS'') is_directory"

text \<open>
  \<open>validate_search_path\<close> erases the relative paths; an empty path and a duplicate are only
  reported. \<open>is_unique\<close> is the set of paths seen; the second result lists the paths the
  duplicate warning names.
\<close>

fun validate_search_path ::
  "string list \<Rightarrow> string list \<Rightarrow> string list \<times> string list" where
  "validate_search_path is_unique [] = ([], [])"
| "validate_search_path is_unique (path # rest) =
     (if path = [] then
        (let (kept, dups) = validate_search_path is_unique rest in (path # kept, dups))
      else if hd path \<noteq> CHR ''/'' then validate_search_path is_unique rest
      else
        (let (kept, dups) = validate_search_path (path # is_unique) rest
         in (path # kept, if path \<in> set is_unique then path # dups else dups)))"

section \<open>Normalisation of a directory\<close>

lemma add_applications_dir_eq_Inl [simp]:
  "add_applications_dir p = Inl e \<longleftrightarrow> p = [] \<and> e = Undefined"
  by (auto simp: add_applications_dir_def Let_def)

lemma add_applications_dir_suffix:
  "add_applications_dir p = Inr q \<Longrightarrow> suffix ''/applications/'' q"
  by (auto simp: add_applications_dir_def Let_def suffix_def split: if_splits)

lemma add_applications_dir_idem:
  assumes "add_applications_dir p = Inr q"
  shows "add_applications_dir q = Inr q"
proof -
  obtain z where z: "q = (z @ ''/applications'') @ [CHR ''/'']"
    using add_applications_dir_suffix [OF assms] by (auto simp: suffix_def)
  show ?thesis
    unfolding z add_applications_dir_def Let_def butlast_snoc last_snoc by (simp add: suffix_def)
qed

lemma add_applications_dir_prefix:
  assumes "add_applications_dir p = Inr q"
  shows "prefix (if last p = CHR ''/'' then butlast p else p) q"
  using assms by (auto simp: add_applications_dir_def Let_def prefix_def split: if_splits)

section \<open>The search path\<close>

text \<open>
  What the search path is meant to be: the normalised data directories, in order of
  precedence, that are directories.
\<close>

definition applications_dir :: "string \<Rightarrow> string" where
  "applications_dir p =
     (let p1 = (if suffix ''/'' p then butlast p else p)
      in (if suffix ''/applications'' p1 then p1 else p1 @ ''/applications'') @ ''/'')"

lemma add_applications_dir_eq:
  "p \<noteq> [] \<Longrightarrow> add_applications_dir p = Inr (applications_dir p)"
  by (simp add: add_applications_dir_def applications_dir_def Let_def suffix_single)

lemma add_data_dirs_eq:
  "[] \<notin> set dirs \<Longrightarrow>
     add_data_dirs isd dirs result = Inr (result @ filter isd (map applications_dir dirs))"
  by (induction dirs arbitrary: result) (auto simp: add_applications_dir_eq)

lemma add_data_dirs_Undefined:
  "[] \<in> set dirs \<Longrightarrow> add_data_dirs isd dirs result = Inl Undefined"
proof (induction dirs arbitrary: result)
  case (Cons p dirs)
  then show ?case
    by (cases "p = []") (auto simp: add_applications_dir_eq, simp add: add_applications_dir_def)
qed simp

definition data_home_of :: "string \<Rightarrow> string \<Rightarrow> string" where
  "data_home_of xdg_data_home home =
     (if xdg_data_home = [] then home @ ''/.local/share/'' else xdg_data_home)"

definition data_dirs_of :: "string \<Rightarrow> string list" where
  "data_dirs_of xdg_data_dirs =
     split (if xdg_data_dirs = [] then ''/usr/local/share/:/usr/share/'' else xdg_data_dirs)
       (CHR '':'')"

lemma data_home_of_nonempty [simp]: "data_home_of h home \<noteq> []"
  by (simp add: data_home_of_def)

lemma build_search_path_unfold:
  "build_search_path h home ds isd =
     bind_sum (add_applications_dir (data_home_of h home)) (\<lambda>h'.
       add_data_dirs isd (data_dirs_of ds) (if isd h' then [h'] else []))"
  by (simp add: build_search_path_def data_home_of_def data_dirs_of_def Let_def)

lemma build_search_path_eq:
  "build_search_path h home ds isd =
     (if [] \<in> set (data_dirs_of ds) then Inl Undefined
      else Inr (filter isd (map applications_dir (data_home_of h home # data_dirs_of ds))))"
  by (simp add: build_search_path_unfold add_applications_dir_eq add_data_dirs_eq
      add_data_dirs_Undefined)

lemma build_search_path_suffix:
  assumes "build_search_path h home ds isd = Inr result" "p \<in> set result"
  shows "suffix ''/applications/'' p \<and> isd p"
proof -
  have "suffix ''/applications/'' (applications_dir q)" for q
    by (auto simp: applications_dir_def Let_def suffix_def)
  then show ?thesis using assms by (auto simp: build_search_path_eq split: if_splits)
qed

text \<open>The search path is the normalised data directories that exist, \<open>$XDG_DATA_HOME\<close>
  first and \<open>$XDG_DATA_DIRS\<close> in order, unless \<open>$XDG_DATA_DIRS\<close> has an empty element, on
  which the code runs into the undefined behaviour of \<open>back()\<close> on an empty string.\<close>

theorem build_search_path_cases:
  "build_search_path h home ds isd =
     (if [] \<in> set (data_dirs_of ds) then Inl Undefined
      else Inr (filter isd (map applications_dir (data_home_of h home # data_dirs_of ds))))"
  by (rule build_search_path_eq)

section \<open>Validation\<close>

lemma validate_search_path_filter:
  "fst (validate_search_path seen ps) = filter (\<lambda>p. p = [] \<or> hd p = CHR ''/'') ps"
  by (induction seen ps rule: validate_search_path.induct) (auto split: prod.splits)

lemma validate_search_path_no_dups:
  "snd (validate_search_path seen ps) = [] \<Longrightarrow>
     distinct (filter (\<lambda>p. p \<noteq> []) (fst (validate_search_path seen ps))) \<and>
     (\<forall>p \<in> set (fst (validate_search_path seen ps)). p \<noteq> [] \<longrightarrow> p \<notin> set seen)"
  by (induction seen ps rule: validate_search_path.induct)
    (auto split: prod.splits if_splits)

end
