(* ===== verification/LocaleSuffixes.thy ===== *)
theory LocaleSuffixes
  imports J4Prelude
begin

text \<open>
  \<open>src/LocaleSuffixes.cc\<close>: the locale names a localised key may carry, from the most to
  the least specific one, and the rank of a match.
\<close>

section \<open>The code\<close>

text \<open>The class keeps an array of four strings and how many of them are set.\<close>

record LocaleSuffixes =
  ls_suffixes :: "string list"
  ls_length :: nat

text \<open>The scan remembers the last position of each separator; 0 stands for "not found".\<close>

fun locate_separators :: "nat \<Rightarrow> string \<Rightarrow> nat \<times> nat \<times> nat \<Rightarrow> nat \<times> nat \<times> nat" where
  "locate_separators i [] (uscorepos, dotpos, atpos) = (uscorepos, dotpos, atpos)"
| "locate_separators i (c # cs) (uscorepos, dotpos, atpos) =
     locate_separators (Suc i) cs
       (if c = CHR ''_'' then (i, dotpos, atpos)
        else if c = CHR ''.'' then (uscorepos, i, atpos)
        else if c = CHR ''@'' then (uscorepos, dotpos, i)
        else (uscorepos, dotpos, atpos))"

text \<open>
  \<open>s.erase(pos, to - pos)\<close>: when \<open>to\<close> lies before \<open>pos\<close> the unsigned difference wraps
  around to a huge count, and everything from \<open>pos\<close> on goes.
\<close>

definition erase_between :: "string \<Rightarrow> nat \<Rightarrow> nat \<Rightarrow> string" where
  "erase_between s pos to = take pos s @ (if to < pos then [] else drop to s)"

text \<open>\<open>s.substr(pos)\<close> throws when \<open>pos\<close> is beyond the end.\<close>

definition substr_from :: "string \<Rightarrow> nat \<Rightarrow> fault + string" where
  "substr_from s pos = (if length s < pos then Inl Out_of_range else Inr (drop pos s))"

definition LocaleSuffixes_ctor :: "string \<Rightarrow> fault + LocaleSuffixes" where
  "LocaleSuffixes_ctor locale0 =
     (let (uscorepos, dotpos, atpos0) = locate_separators 0 locale0 (0, 0, 0);
          locale1 = (if dotpos \<noteq> 0 then
                       (if atpos0 = 0 then take dotpos locale0
                        else erase_between locale0 dotpos atpos0)
                     else locale0);
          atpos = (if dotpos \<noteq> 0 \<and> atpos0 \<noteq> 0 then dotpos else atpos0)
      in if uscorepos = 0 \<and> atpos = 0 then
           Inr \<lparr>ls_suffixes = [locale1, [], [], []], ls_length = 1\<rparr>
         else if uscorepos \<noteq> 0 \<and> atpos \<noteq> 0 then
           bind_sum (substr_from locale1 atpos) (\<lambda>modifier.
             Inr \<lparr>ls_suffixes = [locale1, take atpos locale1, take uscorepos locale1 @ modifier,
                             take uscorepos locale1],
                  ls_length = 4\<rparr>)
         else
           Inr \<lparr>ls_suffixes = [locale1, take (if atpos = 0 then uscorepos else atpos) locale1, [], []],
                ls_length = 2\<rparr>)"

text \<open>\<open>match\<close>: the index of the first of the \<open>length\<close> suffixes that is \<open>str\<close>, else -1.\<close>

fun match_loop :: "string list \<Rightarrow> int \<Rightarrow> string \<Rightarrow> int" where
  "match_loop [] i str = - 1"
| "match_loop (s # ss) i str = (if s = str then i else match_loop ss (i + 1) str)"

definition ls_match :: "LocaleSuffixes \<Rightarrow> string \<Rightarrow> int" where
  "ls_match ls str = match_loop (take (ls_length ls) (ls_suffixes ls)) 0 str"

definition LocaleSuffixes_eq :: "LocaleSuffixes \<Rightarrow> LocaleSuffixes \<Rightarrow> bool" where
  "LocaleSuffixes_eq a b \<longleftrightarrow>
     ls_length a = ls_length b \<and> take (ls_length a) (ls_suffixes a) = take (ls_length a) (ls_suffixes b)"

definition list_suffixes_for_logging_only :: "LocaleSuffixes \<Rightarrow> string list" where
  "list_suffixes_for_logging_only ls = take (ls_length ls) (ls_suffixes ls)"

text \<open>\<open>set_locale\<close>: \<open>setlocale(LC_MESSAGES, _)\<close> is a parameter; None is its NULL.\<close>

definition set_locale :: "(string \<Rightarrow> string option) \<Rightarrow> fault + string" where
  "set_locale setlocale =
     (case setlocale [] of
        Some user_locale \<Rightarrow> Inr user_locale
      | None \<Rightarrow>
          (case setlocale ''C'' of
             Some user_locale \<Rightarrow> Inr user_locale
           | None \<Rightarrow> Inl (Exited EXIT_FAILURE)))"

definition from_environment :: "(string \<Rightarrow> string option) \<Rightarrow> fault + LocaleSuffixes" where
  "from_environment setlocale = bind_sum (set_locale setlocale) LocaleSuffixes_ctor"

section \<open>The constructor always returns\<close>

lemma locate_separators_bound:
  assumes "locate_separators i s (u, d, a) = (u', d', a')" "u \<le> i" "d \<le> i" "a \<le> i"
  shows "u' \<le> i + length s \<and> d' \<le> i + length s \<and> a' \<le> i + length s"
  using assms
proof (induction s arbitrary: i u d a)
  case (Cons c s)
  then show ?case by (fastforce split: if_splits)
qed simp

lemma LocaleSuffixes_ctor_total: "\<exists>ls. LocaleSuffixes_ctor l = Inr ls"
proof -
  obtain u d a where s: "locate_separators 0 l (0, 0, 0) = (u, d, a)"
    by (metis prod_cases3)
  then have "d \<le> length l" "a \<le> length l" using locate_separators_bound [OF s] by auto
  then show ?thesis
    using s by (auto simp: LocaleSuffixes_ctor_def Let_def substr_from_def erase_between_def)
qed

section \<open>The suffixes of a well-formed locale name\<close>

text \<open>
  The shape \<open>lang[_COUNTRY][.ENCODING][@MODIFIER]\<close> of a POSIX locale name, and the keys the
  Desktop Entry Specification makes it match, in order of precedence.
\<close>

definition opt_part :: "char \<Rightarrow> string option \<Rightarrow> string" where
  "opt_part c x = (case x of None \<Rightarrow> [] | Some s \<Rightarrow> c # s)"

definition locale_name :: "string \<Rightarrow> string option \<Rightarrow> string option \<Rightarrow> string option \<Rightarrow> string" where
  "locale_name lang country enc modif =
     lang @ opt_part (CHR ''_'') country @ opt_part (CHR ''.'') enc @ opt_part (CHR ''@'') modif"

definition locale_keys :: "string \<Rightarrow> string option \<Rightarrow> string option \<Rightarrow> string list" where
  "locale_keys lang country modif =
     (let full = locale_name lang country None modif in
      case (country, modif) of
        (None, None) \<Rightarrow> [lang]
      | (Some c, None) \<Rightarrow> [full, lang]
      | (None, Some m) \<Rightarrow> [full, lang]
      | (Some c, Some m) \<Rightarrow>
          [full, locale_name lang country None None, locale_name lang None None modif, lang])"

definition plain_part :: "string \<Rightarrow> bool" where
  "plain_part s \<longleftrightarrow> CHR ''_'' \<notin> set s \<and> CHR ''.'' \<notin> set s \<and> CHR ''@'' \<notin> set s"

definition plain_opt :: "string option \<Rightarrow> bool" where
  "plain_opt x \<longleftrightarrow> (case x of None \<Rightarrow> True | Some s \<Rightarrow> plain_part s)"

lemma locate_separators_plain:
  "plain_part s \<Longrightarrow> locate_separators i (s @ t) uda = locate_separators (i + length s) t uda"
proof (induction s arbitrary: i)
  case (Cons c s)
  obtain u d a where "uda = (u, d, a)" by (metis prod_cases3)
  with Cons show ?case by (auto simp: plain_part_def)
qed simp

lemma locate_separators_plain_end:
  "plain_part s \<Longrightarrow> locate_separators i s uda = uda"
  using locate_separators_plain [of s i "[]" uda] by (cases uda) simp

lemmas locate_locale = locate_separators_plain locate_separators_plain_end



text \<open>
  An encoding with an underscore (\<open>ISO_8859-1\<close>) breaks this: the scan takes the underscore
  of the encoding for the separator of the country, and the bare language is lost.
\<close>

lemma LocaleSuffixes_underscore_encoding:
  "LocaleSuffixes_ctor ''de_AT.ISO_8859-1'' =
     Inr \<lparr>ls_suffixes = [''de_AT'', ''de_AT'', [], []], ls_length = 2\<rparr>"
  by code_simp

section \<open>Matching\<close>

lemma match_loop_bounds: "match_loop ss i str = - 1 \<or> (i \<le> match_loop ss i str \<and>
    match_loop ss i str < i + int (length ss) \<and>
    ss ! nat (match_loop ss i str - i) = str)"
proof (induction ss arbitrary: i)
  case (Cons s ss)
  show ?case
  proof (cases "s = str")
    case False
    define m where "m = match_loop ss (i + 1) str"
    have "nat (m - i) = Suc (nat (m - (i + 1)))" if "i + 1 \<le> m" using that by simp
    then have "(s # ss) ! nat (m - i) = ss ! nat (m - (i + 1))" if "i + 1 \<le> m"
      using that by simp
    with Cons [of "i + 1"] False show ?thesis by (auto simp: m_def)
  qed simp
qed simp

lemma match_loop_neg: "0 \<le> i \<Longrightarrow> match_loop ss i str = - 1 \<longleftrightarrow> str \<notin> set ss"
  by (induction ss arbitrary: i) auto

lemma match_eq_minus_one: "ls_match ls str = - 1 \<longleftrightarrow> str \<notin> set (take (ls_length ls) (ls_suffixes ls))"
  by (simp add: ls_match_def match_loop_neg)

lemma match_range: "ls_match ls str = - 1 \<or> (0 \<le> ls_match ls str \<and> ls_match ls str < int (ls_length ls))"
  using match_loop_bounds [of "take (ls_length ls) (ls_suffixes ls)" 0 str]
  by (auto simp: ls_match_def)

lemma LocaleSuffixes_ctor_len: "LocaleSuffixes_ctor l = Inr ls \<Longrightarrow> ls_length ls \<le> 4"
  by (auto simp: LocaleSuffixes_ctor_def Let_def split: prod.splits if_splits)

end
