(* ===== verification/Application.thy ===== *)
theory Application
  imports Utilities LocaleSuffixes
begin

text \<open>
  \<open>src/Application.cc\<close> and \<open>src/LineReader.cc\<close>: the parser of a desktop file. Lines are
  the raw buffers \<open>getline\<close> fills; the NUL bytes the parser writes into them, and those the
  file may contain, are what ends its C strings.
\<close>

section \<open>Data\<close>

record Application =
  app_name :: string
  app_generic_name :: string
  app_exec :: string
  app_path :: string
  app_location :: string
  app_terminal :: bool
  app_id :: string

definition empty_application :: "string \<Rightarrow> Application" where
  "empty_application loc =
     \<lparr>app_name = [], app_generic_name = [], app_exec = [], app_path = [], app_location = loc,
      app_terminal = False, app_id = []\<rparr>"

definition Application_eq :: "Application \<Rightarrow> Application \<Rightarrow> bool" where
  "Application_eq a b \<longleftrightarrow>
     app_name a = app_name b \<and> app_generic_name a = app_generic_name b \<and>
     app_exec a = app_exec b \<and> app_path a = app_path b \<and> app_location a = app_location b \<and>
     app_terminal a = app_terminal b \<and> app_id a = app_id b"

text \<open>What the constructor throws; an \<open>escape_error\<close> is an \<open>invalid_error\<close> in the code.\<close>

datatype app_error =
    Disabled_error string
  | Invalid_error string
  | Escape_error string
  | System_error

section \<open>Lines\<close>

text \<open>\<open>getline\<close>: the line with its newline, and the rest of the file; None is -1.\<close>

definition getline :: "string \<Rightarrow> (string \<times> string) option" where
  "getline f =
     (if f = [] then None
      else case find_char NL f of
        None \<Rightarrow> Some (f, [])
      | Some i \<Rightarrow> Some (take (Suc i) f, drop (Suc i) f))"

lemma getline_shorter: "getline f = Some (l, r) \<Longrightarrow> length r < length f"
  by (cases f) (auto simp: getline_def split: option.splits if_splits)

text \<open>All the lines the loop \<open>while ((line_length = liner.getline(...)) != -1)\<close> sees.\<close>

function file_lines :: "string \<Rightarrow> string list" where
  "file_lines f = (case getline f of None \<Rightarrow> [] | Some (l, r) \<Rightarrow> l # file_lines r)"
  by pat_completeness auto
termination
  by (relation "measure length") (auto dest: getline_shorter)

declare file_lines.simps [simp del]

section \<open>Escapes\<close>

definition convert :: "char \<Rightarrow> string + char" where
  "convert escape =
     (if escape = CHR ''s'' then Inr SPACE
      else if escape = CHR ''n'' then Inr NL
      else if escape = CHR ''t'' then Inr TAB
      else if escape = CHR ''r'' then Inr CR
      else if escape = BACKSLASH then Inr BACKSLASH
      else Inl (''Tried to interpret invalid escape sequence '' @ [BACKSLASH, escape, CHR ''.'']))"

fun expand_loop :: "string \<Rightarrow> bool \<Rightarrow> string \<Rightarrow> string + string" where
  "expand_loop [] escape result =
     (if escape then Inl ''Invalid escape character at end of line.'' else Inr result)"
| "expand_loop (c # cs) escape result =
     (if escape then
        bind_sum (convert c) (\<lambda>x. expand_loop cs False (result @ [x]))
      else if c = BACKSLASH then expand_loop cs True result
      else expand_loop cs False (result @ [c]))"

definition rethrow_key :: "string \<Rightarrow> string + 'a \<Rightarrow> app_error + 'a" where
  "rethrow_key key r =
     (case r of Inl what \<Rightarrow> Inl (Escape_error (key @ '': '' @ what)) | Inr x \<Rightarrow> Inr x)"

definition expand :: "string \<Rightarrow> string \<Rightarrow> app_error + string" where
  "expand key val = rethrow_key key (expand_loop (cstr val) False [])"

text \<open>
  \<open>expandlist\<close> is a \<open>do ... while (*++value != '\0')\<close> loop: the first byte is handled
  even when it is the terminating NUL.
\<close>

definition do_while_chars :: "string \<Rightarrow> string" where
  "do_while_chars val = (case val of [] \<Rightarrow> [NUL] | c # cs \<Rightarrow> c # cstr cs)"

fun expandlist_loop :: "string \<Rightarrow> bool \<Rightarrow> string \<Rightarrow> string list \<Rightarrow> string + string list" where
  "expandlist_loop [] escape cur result =
     (if escape then Inl ''Invalid escape character at end of line.''
      else Inr (if cur \<noteq> [] then result @ [cur] else result))"
| "expandlist_loop (c # cs) escape cur result =
     (if escape then
        (if c = CHR '';'' then expandlist_loop cs False (cur @ '';'') result
         else bind_sum (convert c) (\<lambda>x. expandlist_loop cs False (cur @ [x]) result))
      else if c = BACKSLASH then expandlist_loop cs True cur result
      else if c = CHR '';'' then expandlist_loop cs False [] (result @ [cur])
      else expandlist_loop cs False (cur @ [c]) result)"

definition expandlist :: "string \<Rightarrow> string \<Rightarrow> app_error + string list" where
  "expandlist key val = rethrow_key key (expandlist_loop (do_while_chars val) False [] [])"

section \<open>Localised keys\<close>

text \<open>
  The locale of \<open>Name[xx]\<close> is cut out as \<open>strlen - 1\<close> characters after the bracket. When
  nothing follows the bracket that length wraps to \<open>SIZE_MAX\<close>, which equals no suffix.
\<close>

definition locale_of_key :: "LocaleSuffixes \<Rightarrow> string \<Rightarrow> int" where
  "locale_of_key ls rest = (if rest = [] then - 1 else ls_match ls (butlast rest))"

definition parse_localestring ::
  "string \<Rightarrow> nat \<Rightarrow> int \<Rightarrow> string \<Rightarrow> string \<Rightarrow> LocaleSuffixes \<Rightarrow> app_error + int \<times> string" where
  "parse_localestring key key_length m val field ls =
     (if prefix ''['' (drop key_length key) then
        (let new_match = locale_of_key ls (drop (Suc key_length) key) in
         if new_match = - 1 then Inr (m, field)
         else if new_match \<le> m \<or> m = - 1 then
           bind_sum (expand key val) (\<lambda>f. Inr (new_match, f))
         else Inr (m, field))
      else if m = - 1 \<or> m = 4 then bind_sum (expand key val) (\<lambda>f. Inr (4, f))
      else Inr (m, field))"

section \<open>The parser\<close>

record parse_state =
  ps_app :: Application
  ps_locale_match :: int
  ps_locale_generic_match :: int

definition init_parse :: "string \<Rightarrow> parse_state" where
  "init_parse loc =
     \<lparr>ps_app = empty_application loc, ps_locale_match = - 1, ps_locale_generic_match = - 1\<rparr>"

text \<open>The in-place split of a line into a key and a value; None is the malformed case.\<close>

definition split_key_value :: "string \<Rightarrow> (string \<times> string) option" where
  "split_key_value line =
     (let key = takeWhile (\<lambda>c. c \<noteq> SPACE \<and> c \<noteq> CHR ''='') (cstr line);
          rest = drop (length key) line
      in if key = cstr line \<or> key = [] then None
         else if hd rest \<noteq> CHR ''='' then
           (case find_char (CHR ''='') (cstr (tl rest)) of
              None \<Rightarrow> None
            | Some i \<Rightarrow> Some (key, dropWhile (\<lambda>c. c = SPACE) (drop (Suc i) (tl rest))))
         else Some (key, dropWhile (\<lambda>c. c = SPACE) (tl rest)))"

definition only_show_in_message :: string where
  "only_show_in_message =
     ''Refusing to parse desktop file whose OnlyShowIn field doesn't match current desktop.''"

definition not_show_in_message :: string where
  "not_show_in_message =
     ''Refusing to parse desktop file whose NotShowIn field matches current desktop.''"

definition hidden_message :: string where
  "hidden_message = ''Refusing to parse Hidden or NoDisplay desktop file.''"

definition handle_key ::
  "LocaleSuffixes \<Rightarrow> string list \<Rightarrow> string \<Rightarrow> string \<Rightarrow> parse_state \<Rightarrow> app_error + parse_state" where
  "handle_key ls desktopenvs key val st =
     (let app = ps_app st in
      if prefix ''Name'' key then
        bind_sum (parse_localestring key 4 (ps_locale_match st) val (app_name app) ls)
          (\<lambda>(m, f). Inr (st\<lparr>ps_locale_match := m, ps_app := app\<lparr>app_name := f\<rparr>\<rparr>))
      else if prefix ''GenericName'' key then
        bind_sum (parse_localestring key 11 (ps_locale_generic_match st) val
            (app_generic_name app) ls)
          (\<lambda>(m, f). Inr (st\<lparr>ps_locale_generic_match := m, ps_app := app\<lparr>app_generic_name := f\<rparr>\<rparr>))
      else if key = ''Exec'' then
        bind_sum (expand ''Exec'' val) (\<lambda>e. Inr (st\<lparr>ps_app := app\<lparr>app_exec := e\<rparr>\<rparr>))
      else if key = ''Path'' then
        bind_sum (expand ''Path'' val) (\<lambda>p. Inr (st\<lparr>ps_app := app\<lparr>app_path := p\<rparr>\<rparr>))
      else if key = ''OnlyShowIn'' then
        (if desktopenvs \<noteq> [] then
           bind_sum (expandlist ''OnlyShowIn'' val) (\<lambda>values.
             if \<not> have_equal_element desktopenvs values then Inl (Disabled_error only_show_in_message)
             else Inr st)
         else Inr st)
      else if key = ''NotShowIn'' then
        (if desktopenvs \<noteq> [] then
           bind_sum (expandlist ''NotShowIn'' val) (\<lambda>values.
             if have_equal_element desktopenvs values then Inl (Disabled_error not_show_in_message)
             else Inr st)
         else Inr st)
      else if key = ''Hidden'' \<or> key = ''NoDisplay'' then
        (if cstr val = ''true'' then Inl (Disabled_error hidden_message) else Inr st)
      else if key = ''Terminal'' then
        Inr (st\<lparr>ps_app := app\<lparr>app_terminal := (cstr val = ''true'')\<rparr>\<rparr>)
      else Inr st)"

text \<open>Escape errors are rethrown with the line number.\<close>

definition with_line_number :: "nat \<Rightarrow> app_error + 'a \<Rightarrow> app_error + 'a" where
  "with_line_number n r =
     (case r of
        Inl (Escape_error what) \<Rightarrow> Inl (Escape_error (what @ '' (line '' @ to_string n @ '')''))
      | _ \<Rightarrow> r)"

definition malformed_line :: "nat \<Rightarrow> app_error" where
  "malformed_line n =
     Invalid_error (''Malformed file, invalid key=value pair (line '' @ to_string n @ '').'')"

text \<open>
  The loop over the lines. \<open>kv\<close> is \<open>parse_key_values\<close>, \<open>n\<close> the number of lines read so
  far. Every line loses its last byte, meant to be the newline.
\<close>

fun parse_lines ::
  "LocaleSuffixes \<Rightarrow> string list \<Rightarrow> string list \<Rightarrow> nat \<Rightarrow> bool \<Rightarrow> parse_state \<Rightarrow>
     app_error + bool \<times> parse_state" where
  "parse_lines ls desktopenvs [] n kv st = Inr (kv, st)"
| "parse_lines ls desktopenvs (raw # raws) n kv st =
     (let line = butlast raw; n' = Suc n in
      if line = [] \<or> hd line = CHR ''#'' then parse_lines ls desktopenvs raws n' kv st
      else if kv then
        (if hd line = CHR ''['' then Inr (kv, st)
         else case split_key_value line of
           None \<Rightarrow> Inl (malformed_line n')
         | Some (key, val) \<Rightarrow>
             bind_sum (with_line_number n' (handle_key ls desktopenvs key val st))
               (parse_lines ls desktopenvs raws n' kv))
      else parse_lines ls desktopenvs raws n' (cstr line = ''[Desktop Entry]'') st)"

definition Application_ctor ::
  "(string \<Rightarrow> string option) \<Rightarrow> string \<Rightarrow> LocaleSuffixes \<Rightarrow> string list \<Rightarrow>
     app_error + Application" where
  "Application_ctor files fname ls desktopenvs =
     (case files fname of
        None \<Rightarrow> Inl System_error
      | Some content \<Rightarrow>
          bind_sum (parse_lines ls desktopenvs (file_lines content) 0 False (init_parse fname))
            (\<lambda>(kv, st).
               if \<not> kv then Inl (Invalid_error ''Desktop file doesn't contain '[Desktop Entry]'.'')
               else if app_name (ps_app st) = [] then
                 Inl (Invalid_error '''Name' key is missing or empty.'')
               else Inr (ps_app st)))"

end
