(* ===== verification/ApplicationFacts.thy ===== *)
theory ApplicationFacts
  imports Application
begin

text \<open>
  What the desktop-file parser of \<open>Application\<close> guarantees: its escapes invert the encoding
  of the Desktop Entry Specification, localised keys resolve to the best match, sections and
  disabling keys have the effect they should, and a file written from an application is read
  back as that application.
\<close>

named_theorems parse_simps \<open>steps of the desktop-file parser\<close>

section \<open>Lines\<close>

lemma file_lines_Nil [parse_simps]: "file_lines [] = []"
  by (subst file_lines.simps) (simp add: getline_def)

lemma file_lines_line [parse_simps]:
  "NL \<notin> set l \<Longrightarrow> file_lines (l @ NL # r) = (l @ [NL]) # file_lines r"
  by (subst file_lines.simps) (simp add: getline_def)

lemma file_lines_last: "NL \<notin> set l \<Longrightarrow> l \<noteq> [] \<Longrightarrow> file_lines l = [l]"
proof -
  assume l: "NL \<notin> set l" "l \<noteq> []"
  then have "find_char NL l = None" by simp
  then have "getline l = Some (l, [])" using l by (simp only: getline_def) simp
  then show ?thesis by (subst file_lines.simps) (simp add: file_lines_Nil)
qed

lemma concat_file_lines: "concat (file_lines f) = f"
proof (induction f rule: file_lines.induct)
  case (1 f)
  show ?case
  proof (cases "getline f")
    case None
    then show ?thesis
      by (subst file_lines.simps) (auto simp: getline_def split: if_splits option.splits)
  next
    case (Some lr)
    obtain l r where lr: "lr = (l, r)" by force
    have "concat (file_lines r) = r" using "1.IH" [OF Some lr [symmetric]] .
    moreover have "l @ r = f"
      using Some lr by (auto simp: getline_def split: if_splits option.splits)
    ultimately show ?thesis using Some lr by (subst file_lines.simps) simp
  qed
qed


section \<open>Escapes\<close>

text \<open>The escapes of a \<open>string\<close> value, as the specification defines them.\<close>

definition escape_char :: "char \<Rightarrow> string" where
  "escape_char c =
     (if c = SPACE then [BACKSLASH, CHR ''s'']
      else if c = NL then [BACKSLASH, CHR ''n'']
      else if c = TAB then [BACKSLASH, CHR ''t'']
      else if c = CR then [BACKSLASH, CHR ''r'']
      else if c = BACKSLASH then [BACKSLASH, BACKSLASH]
      else [c])"

definition escape_string :: "string \<Rightarrow> string" where
  "escape_string s = concat (map escape_char s)"

lemma escape_string_simps [simp]:
  "escape_string [] = []"
  "escape_string (c # s) = escape_char c @ escape_string s"
  by (simp_all add: escape_string_def)

lemma expand_loop_escape_char [parse_simps]:
  "expand_loop (escape_char c @ r) False acc = expand_loop r False (acc @ [c])"
  by (simp add: escape_char_def convert_def)

lemma expand_loop_escape_string [parse_simps]:
  "expand_loop (escape_string s @ r) False acc = expand_loop r False (acc @ s)"
  by (induction s arbitrary: acc) (simp_all add: parse_simps)

lemma escape_string_clean:
  "c \<in> set (escape_string s) \<Longrightarrow> c \<noteq> SPACE \<and> c \<noteq> NL \<and> (c = NUL \<longrightarrow> NUL \<in> set s)"
  by (induction s) (auto simp: escape_char_def split: if_splits)

lemma escape_string_no_NUL: "NUL \<notin> set s \<Longrightarrow> NUL \<notin> set (escape_string s)"
  using escape_string_clean by blast

lemma escape_string_no_NL [simp]: "NL \<notin> set (escape_string s)"
  using escape_string_clean by blast

lemma escape_string_no_SPACE [simp]: "SPACE \<notin> set (escape_string s)"
  using escape_string_clean by blast

lemma expand_escape_string [parse_simps]:
  "NUL \<notin> set s \<Longrightarrow> expand key (escape_string s) = Inr s"
  using expand_loop_escape_string [of s "[]" "[]"]
  by (simp add: expand_def escape_string_no_NUL rethrow_key_def)

text \<open>A list value: every item escaped, its semicolons too, and ended by a semicolon.\<close>

definition escape_item_char :: "char \<Rightarrow> string" where
  "escape_item_char c = (if c = CHR '';'' then [BACKSLASH, CHR '';''] else escape_char c)"

definition escape_list :: "string list \<Rightarrow> string" where
  "escape_list items = concat (map (\<lambda>s. concat (map escape_item_char s) @ '';'') items)"

lemma expandlist_loop_item_char:
  "expandlist_loop (escape_item_char c @ r) False cur result =
     expandlist_loop r False (cur @ [c]) result"
  by (simp add: escape_item_char_def escape_char_def convert_def)

lemma expandlist_loop_item:
  "expandlist_loop (concat (map escape_item_char s) @ '';'' @ r) False cur result =
     expandlist_loop r False [] (result @ [cur @ s])"
  by (induction s arbitrary: cur) (simp_all add: expandlist_loop_item_char)

lemma expandlist_loop_items:
  "expandlist_loop (escape_list items @ r) False [] result =
     expandlist_loop r False [] (result @ items)"
proof (induction items arbitrary: result)
  case (Cons s items)
  then show ?case
    using expandlist_loop_item [of s "escape_list items @ r" "[]" result]
    by (simp add: escape_list_def)
qed (simp add: escape_list_def)

lemma NUL_escape_item_char: "NUL \<in> set (escape_item_char c) \<longleftrightarrow> c = NUL"
  by (auto simp: escape_item_char_def escape_char_def)

lemma escape_list_no_NUL:
  "\<forall>s \<in> set items. NUL \<notin> set s \<Longrightarrow> NUL \<notin> set (escape_list items)"
  by (auto simp: escape_list_def NUL_escape_item_char)

lemma do_while_chars_id: "s \<noteq> [] \<Longrightarrow> NUL \<notin> set s \<Longrightarrow> do_while_chars s = s"
  by (cases s) (auto simp: do_while_chars_def)

lemma expandlist_escape_list:
  assumes "items \<noteq> []" "\<forall>s \<in> set items. NUL \<notin> set s"
  shows "expandlist key (escape_list items) = Inr items"
proof -
  have "escape_list items \<noteq> []" using assms(1) by (cases items) (auto simp: escape_list_def)
  then have "do_while_chars (escape_list items) = escape_list items"
    using assms(2) by (intro do_while_chars_id escape_list_no_NUL) auto
  then show ?thesis
    using expandlist_loop_items [of items "[]" "[]"]
    by (simp add: expandlist_def rethrow_key_def)
qed

text \<open>\<open>expand\<close> never puts a NUL into a field.\<close>

lemma convert_no_NUL: "convert c = Inr x \<Longrightarrow> x \<noteq> NUL"
  by (auto simp: convert_def split: if_splits)

lemma expand_loop_no_NUL:
  "expand_loop s e acc = Inr r \<Longrightarrow> NUL \<notin> set s \<Longrightarrow> NUL \<notin> set acc \<Longrightarrow> NUL \<notin> set r"
proof (induction s e acc rule: expand_loop.induct)
  case (2 c cs e acc)
  then show ?case by (auto split: if_splits dest: convert_no_NUL)
qed (auto split: if_splits)

lemma expand_no_NUL: "expand key val = Inr r \<Longrightarrow> NUL \<notin> set r"
  using expand_loop_no_NUL [of "cstr val" False "[]"]
  by (auto simp: expand_def rethrow_key_def split: sum.splits)

text \<open>A locale for the witnesses: the suffixes of the \<open>C\<close> locale.\<close>

definition C_locale :: LocaleSuffixes where
  "C_locale = \<lparr>ls_suffixes = [''C'', [], [], []], ls_length = 1\<rparr>"

section \<open>Localised names\<close>

text \<open>
  The rank of a \<open>Name\<close> key: the index of its locale in the suffixes of the user's locale, 4
  for the plain key, None when it belongs to another locale. The parser keeps the value of
  the best (lowest) rank, the last one where a rank occurs more than once.
\<close>

definition tag_rank :: "LocaleSuffixes \<Rightarrow> string option \<Rightarrow> int option" where
  "tag_rank ls tag =
     (case tag of
        None \<Rightarrow> Some 4
      | Some t \<Rightarrow> if ls_match ls t = - 1 then None else Some (ls_match ls t))"

fun best_value :: "(int \<times> 'a) list \<Rightarrow> (int \<times> 'a) option" where
  "best_value [] = None"
| "best_value ((r, v) # xs) =
     (case best_value xs of
        None \<Rightarrow> Some (r, v)
      | Some (r', v') \<Rightarrow> if r < r' then Some (r, v) else Some (r', v'))"

definition ranked_values :: "LocaleSuffixes \<Rightarrow> (string option \<times> string) list \<Rightarrow> (int \<times> string) list" where
  "ranked_values ls entries =
     concat (map (\<lambda>(tag, v). case tag_rank ls tag of None \<Rightarrow> [] | Some r \<Rightarrow> [(r, v)]) entries)"

lemma ranked_values_simps [simp]:
  "ranked_values ls [] = []"
  "ranked_values ls ((tag, v) # es) =
     (case tag_rank ls tag of None \<Rightarrow> [] | Some r \<Rightarrow> [(r, v)]) @ ranked_values ls es"
  by (simp_all add: ranked_values_def)

text \<open>\<open>best_value\<close> is what its text says: a minimal rank, and the last entry that has it.\<close>

lemma best_value_None [simp]: "best_value xs = None \<longleftrightarrow> xs = []"
  by (cases xs) (auto split: option.splits prod.splits)

lemma best_value_least:
  "best_value xs = Some (r, v) \<Longrightarrow> (r, v) \<in> set xs \<and> (\<forall>(r', v') \<in> set xs. r \<le> r')"
  by (induction xs arbitrary: r v) (fastforce split: option.splits prod.splits if_splits)+

definition name_key :: "string option \<Rightarrow> string" where
  "name_key tag = (case tag of None \<Rightarrow> ''Name'' | Some t \<Rightarrow> ''Name['' @ t @ '']'')"

definition clean_tag :: "string option \<Rightarrow> bool" where
  "clean_tag tag \<longleftrightarrow>
     (case tag of None \<Rightarrow> True
      | Some t \<Rightarrow> NUL \<notin> set t \<and> NL \<notin> set t \<and> SPACE \<notin> set t \<and> CHR ''='' \<notin> set t)"

definition name_line :: "string option \<times> string \<Rightarrow> string" where
  "name_line e = (name_key (fst e) @ CHR ''='' # escape_string (snd e)) @ [NL]"

lemma tag_rank_range: "ls_length ls \<le> 4 \<Longrightarrow> tag_rank ls tag = Some r \<Longrightarrow> 0 \<le> r \<and> r \<le> 4"
  using match_range [of ls "the tag"]
  by (auto simp: tag_rank_def split: option.splits if_splits)

lemma parse_localestring_tag:
  assumes "ls_length ls \<le> 4" "- 1 \<le> m" "m \<le> 4"
  shows "parse_localestring (name_key tag) 4 m val f ls =
    (case tag_rank ls tag of
       None \<Rightarrow> Inr (m, f)
     | Some r \<Rightarrow> if m = - 1 \<or> r \<le> m then bind_sum (expand (name_key tag) val) (\<lambda>f'. Inr (r, f'))
                else Inr (m, f))"
proof (cases tag)
  case None
  then show ?thesis
    using assms by (simp add: parse_localestring_def name_key_def tag_rank_def)
next
  case (Some t)
  have "butlast (t @ '']'') = t" by simp
  with Some show ?thesis
    by (simp add: parse_localestring_def name_key_def tag_rank_def locale_of_key_def)
qed

section \<open>Sections and disabling keys\<close>

abbreviation DESKTOP_ENTRY :: string where
  "DESKTOP_ENTRY \<equiv> ''[Desktop Entry]'' @ [NL]"

definition whole_lines :: "string \<Rightarrow> bool" where
  "whole_lines f \<longleftrightarrow> f = [] \<or> last f = NL"

lemma file_lines_append: "whole_lines f \<Longrightarrow> file_lines (f @ g) = file_lines f @ file_lines g"
proof (induction f rule: file_lines.induct)
  case (1 f)
  show ?case
  proof (cases "f = []")
    case True
    then show ?thesis by (simp add: parse_simps)
  next
    case False
    then have "NL \<in> set f" using "1.prems" by (metis whole_lines_def last_in_set)
    then obtain l r where lr: "f = l @ NL # r" "NL \<notin> set l" by (metis split_list_first)
    then have g: "getline f = Some (l @ [NL], r)" by (simp add: getline_def)
    have "whole_lines r" using "1.prems" lr by (auto simp: whole_lines_def split: if_splits)
    then have "file_lines (r @ g) = file_lines r @ file_lines g" using "1.IH" [OF g refl] by simp
    then show ?thesis using lr by (simp add: parse_simps)
  qed
qed

lemma file_lines_whole_line [parse_simps]:
  "NL \<notin> set l \<Longrightarrow> file_lines (DESKTOP_ENTRY @ r) = DESKTOP_ENTRY # file_lines r"
  using file_lines_line [of "''[Desktop Entry]''" r] by simp

lemma parse_lines_header [parse_simps]:
  "parse_lines ls envs (DESKTOP_ENTRY # raws) n False st =
     parse_lines ls envs raws (Suc n) True st"
  by simp

lemma parse_lines_other_section:
  "parse_lines ls envs (xs @ ((CHR ''['' # h) @ [NL]) # ys) n True st =
     parse_lines ls envs xs n True st"
proof (induction xs arbitrary: n st)
  case (Cons x xs)
  then show ?case by (auto simp: Let_def bind_sum_def split: option.splits sum.splits)
qed simp

text \<open>Only the \<open>[Desktop Entry]\<close> section counts: from the next section header on, nothing
  in the file changes the application that is read (or the error that is raised).\<close>

theorem other_sections_ignored:
  assumes "whole_lines body" "NL \<notin> set header"
  shows "Application_ctor (\<lambda>_. Some (DESKTOP_ENTRY @ body @ CHR ''['' # header @ NL # rest)) p ls envs =
    Application_ctor (\<lambda>_. Some (DESKTOP_ENTRY @ body)) p ls envs"
proof -
  have "file_lines (CHR ''['' # header @ NL # rest) =
      ((CHR ''['' # header) @ [NL]) # file_lines rest"
    using file_lines_line [of "CHR ''['' # header" rest] assms(2) by simp
  then have "file_lines (DESKTOP_ENTRY @ body @ CHR ''['' # header @ NL # rest) =
      DESKTOP_ENTRY # file_lines body @ ((CHR ''['' # header) @ [NL]) # file_lines rest"
    using file_lines_line [of "''[Desktop Entry]''" "body @ CHR ''['' # header @ NL # rest"] assms(1)
    by (simp add: file_lines_append)
  moreover have "file_lines (DESKTOP_ENTRY @ body) = DESKTOP_ENTRY # file_lines body"
    using file_lines_line [of "''[Desktop Entry]''" body] by simp
  ultimately show ?thesis
    unfolding Application_ctor_def option.case
    by (simp only: parse_simps parse_lines_other_section)
qed

theorem other_sections_ignored_witness:
  "Application_ctor (\<lambda>_. Some (DESKTOP_ENTRY @ (''Name=a'' @ [NL]) @ CHR ''['' # ''New]'' @ NL # ''Name=b''))
     ''p'' C_locale [] =
   Application_ctor (\<lambda>_. Some (DESKTOP_ENTRY @ (''Name=a'' @ [NL]))) ''p'' C_locale []"
  by (rule other_sections_ignored) (simp_all add: whole_lines_def)

text \<open>A desktop file whose last line is not ended by a newline is read as if that line had
  lost its last byte: the parser cuts the last byte of every line, meant to be the newline.\<close>

theorem missing_final_newline:
  assumes "whole_lines f" "l \<noteq> []" "NL \<notin> set l"
  shows "Application_ctor (\<lambda>_. Some (f @ l)) p ls envs =
    Application_ctor (\<lambda>_. Some (f @ butlast l @ [NL])) p ls envs"
proof -
  have *: "parse_lines ls envs (xs @ [a]) n kv st = parse_lines ls envs (xs @ [b]) n kv st"
    if "butlast a = butlast b" for xs a b n kv st
    using that
    by (induction xs arbitrary: n kv st)
      (auto simp: Let_def bind_sum_def split: option.splits sum.splits)
  have "NL \<notin> set (butlast l)" using assms(3) by (auto dest: in_set_butlastD)
  then have "file_lines (butlast l @ [NL]) = [butlast l @ [NL]]"
    using file_lines_line [of "butlast l" "[]"] by (simp add: parse_simps)
  then show ?thesis
    using assms * [of l "butlast l @ [NL]" "file_lines f" 0 False]
    by (simp add: Application_ctor_def file_lines_append file_lines_last)
qed

theorem missing_final_newline_witness:
  "Application_ctor (\<lambda>_. Some ((DESKTOP_ENTRY @ ''Name=a'' @ [NL]) @ ''Exec=vim'')) ''p'' C_locale [] =
     Application_ctor (\<lambda>_. Some ((DESKTOP_ENTRY @ ''Name=a'' @ [NL]) @ butlast ''Exec=vim'' @ [NL]))
       ''p'' C_locale [] \<and>
   Application_ctor (\<lambda>_. Some ((DESKTOP_ENTRY @ ''Name=a'' @ [NL]) @ butlast ''Exec=vim'' @ [NL]))
       ''p'' C_locale [] = Inr ((empty_application ''p'')\<lparr>app_name := ''a'', app_exec := ''vi''\<rparr>)"
proof
  show "Application_ctor (\<lambda>_. Some ((DESKTOP_ENTRY @ ''Name=a'' @ [NL]) @ ''Exec=vim'')) ''p'' C_locale [] =
     Application_ctor (\<lambda>_. Some ((DESKTOP_ENTRY @ ''Name=a'' @ [NL]) @ butlast ''Exec=vim'' @ [NL]))
       ''p'' C_locale []"
    by (rule missing_final_newline) (simp_all add: whole_lines_def)
qed code_simp

lemma parse_lines_reaches:
  assumes "parse_lines ls envs (xs @ raw # ys) n True st = Inr r"
    "\<forall>x \<in> set xs. \<not> prefix ''['' x" "butlast raw \<noteq> []" "hd (butlast raw) \<notin> {CHR ''#'', CHR ''[''}"
  shows "\<exists>key val st1 st2. split_key_value (butlast raw) = Some (key, val) \<and>
    handle_key ls envs key val st1 = Inr st2"
  using assms
proof (induction xs arbitrary: n st)
  case Nil
  then show ?case
    by (auto simp: Let_def with_line_number_def split: option.splits sum.splits app_error.splits)
      blast
next
  case (Cons x xs)
  have "hd (butlast x) \<noteq> CHR ''[''" if "butlast x \<noteq> []"
    using that Cons.prems(2) by (cases x) auto
  with Cons show ?case by (auto simp: Let_def split: option.splits if_splits)
qed

lemma split_key_value_eq:
  assumes "NUL \<notin> set key" "NUL \<notin> set val" "key \<noteq> []" "SPACE \<notin> set key" "CHR ''='' \<notin> set key"
    "val = [] \<or> hd val \<noteq> SPACE"
  shows "split_key_value (key @ CHR ''='' # val) = Some (key, val)"
proof -
  have "takeWhile (\<lambda>c. c \<noteq> SPACE \<and> c \<noteq> CHR ''='') (key @ CHR ''='' # val) = key"
    using assms(4,5) by (induction key) auto
  moreover have "cstr (key @ CHR ''='' # val) = key @ CHR ''='' # val" using assms(1,2) by simp
  moreover have "dropWhile (\<lambda>c. c = SPACE) val = val" using assms(6) by (cases val) auto
  ultimately show ?thesis using assms(3) by (simp add: split_key_value_def Let_def)
qed

lemma escape_list_hd: "escape_list items = [] \<or> hd (escape_list items) \<noteq> SPACE"
proof (cases items)
  case (Cons s items')
  then show ?thesis
    by (cases s) (auto simp: escape_list_def escape_item_char_def escape_char_def)
qed (simp add: escape_list_def)

definition visibility_line :: "string list \<Rightarrow> string \<Rightarrow> bool" where
  "visibility_line envs line \<longleftrightarrow>
     line \<noteq> ''Hidden=true'' \<and> line \<noteq> ''NoDisplay=true'' \<and>
     (\<forall>items. items \<noteq> [] \<and> (\<forall>s \<in> set items. NUL \<notin> set s) \<and> envs \<noteq> [] \<longrightarrow>
        (line = ''OnlyShowIn='' @ escape_list items \<longrightarrow> set items \<inter> set envs \<noteq> {}) \<and>
        (line = ''NotShowIn='' @ escape_list items \<longrightarrow> set items \<inter> set envs = {}))"

lemma Application_ctor_Inr:
  assumes "Application_ctor files p ls envs = Inr app"
  shows "\<exists>f st. files p = Some f \<and>
    parse_lines ls envs (file_lines f) 0 False (init_parse p) = Inr (True, st) \<and>
    app = ps_app st \<and> app_name app \<noteq> []"
  using assms by (auto simp: Application_ctor_def split: if_splits option.splits)

lemma handle_key_list:
  assumes "items \<noteq> []" "\<forall>s \<in> set items. NUL \<notin> set s" "envs \<noteq> []"
  shows "handle_key ls envs ''OnlyShowIn'' (escape_list items) st = Inr st' \<Longrightarrow>
      set items \<inter> set envs \<noteq> {}"
    and "handle_key ls envs ''NotShowIn'' (escape_list items) st = Inr st' \<Longrightarrow>
      set items \<inter> set envs = {}"
  using assms expandlist_escape_list [OF assms(1,2)]
  by (auto simp: handle_key_def Let_def split: if_splits)

lemma handle_key_hidden:
  "handle_key ls envs ''Hidden'' ''true'' st = Inl (Disabled_error hidden_message)"
  "handle_key ls envs ''NoDisplay'' ''true'' st = Inl (Disabled_error hidden_message)"
  by (simp_all add: handle_key_def Let_def)

lemma split_visibility_line:
  "split_key_value ''Hidden=true'' = Some (''Hidden'', ''true'')"
  "split_key_value ''NoDisplay=true'' = Some (''NoDisplay'', ''true'')"
  "\<forall>s \<in> set items. NUL \<notin> set s \<Longrightarrow>
     split_key_value (''OnlyShowIn='' @ escape_list items) = Some (''OnlyShowIn'', escape_list items)"
  "\<forall>s \<in> set items. NUL \<notin> set s \<Longrightarrow>
     split_key_value (''NotShowIn='' @ escape_list items) = Some (''NotShowIn'', escape_list items)"
  using split_key_value_eq [of "''Hidden''" "''true''"]
    split_key_value_eq [of "''NoDisplay''" "''true''"]
    split_key_value_eq [of "''OnlyShowIn''" "escape_list items"]
    split_key_value_eq [of "''NotShowIn''" "escape_list items"]
    escape_list_no_NUL escape_list_hd
  by simp_all



section \<open>Writing and reading back an application\<close>

definition desktop_file :: "Application \<Rightarrow> string" where
  "desktop_file app =
     DESKTOP_ENTRY @ ''Name='' @ escape_string (app_name app) @ [NL]
     @ ''GenericName='' @ escape_string (app_generic_name app) @ [NL]
     @ ''Exec='' @ escape_string (app_exec app) @ [NL]
     @ ''Path='' @ escape_string (app_path app) @ [NL]
     @ ''Terminal='' @ (if app_terminal app then ''true'' else ''false'') @ [NL]"

lemma escape_string_hd: "escape_string s = [] \<or> hd (escape_string s) \<noteq> SPACE"
  by (cases s) (auto simp: escape_char_def)

lemma parse_lines_pair_step:
  assumes "split_key_value line = Some (key, val)" "line \<noteq> []" "hd line \<notin> {CHR ''#'', CHR ''[''}"
  shows "parse_lines ls envs ((line @ [NL]) # raws) n True st =
    bind_sum (with_line_number (Suc n) (handle_key ls envs key val st))
      (parse_lines ls envs raws (Suc n) True)"
  using assms by simp

lemma parse_lines_pair:
  assumes "handle_key ls envs key val st = Inr st'"
    "NUL \<notin> set val" "val = [] \<or> hd val \<noteq> SPACE"
    "key \<in> {''Name'', ''GenericName'', ''Exec'', ''Path'', ''Terminal''}"
  shows "parse_lines ls envs (((key @ CHR ''='' # val) @ [NL]) # raws) n True st =
    parse_lines ls envs raws (Suc n) True st'"
proof -
  have "split_key_value (key @ CHR ''='' # val) = Some (key, val)"
    using assms by (intro split_key_value_eq) auto
  from parse_lines_pair_step [OF this] show ?thesis
    using assms by (auto simp: with_line_number_def)
qed

definition app_no_NUL :: "Application \<Rightarrow> bool" where
  "app_no_NUL app \<longleftrightarrow>
     NUL \<notin> set (app_name app) \<and> NUL \<notin> set (app_generic_name app) \<and>
     NUL \<notin> set (app_exec app) \<and> NUL \<notin> set (app_path app)"

definition desktop_line :: "string \<Rightarrow> string \<Rightarrow> string" where
  "desktop_line key val = (key @ CHR ''='' # val) @ [NL]"

lemma file_lines_desktop_line:
  "NL \<notin> set k \<Longrightarrow> NL \<notin> set v \<Longrightarrow> file_lines ((k @ CHR ''='' # v) @ NL # r) = desktop_line k v # file_lines r"
  using file_lines_line [of "k @ CHR ''='' # v" r] by (simp add: desktop_line_def)

lemma file_lines_desktop_file:
  "file_lines (desktop_file app) =
     [DESKTOP_ENTRY, desktop_line ''Name'' (escape_string (app_name app)),
      desktop_line ''GenericName'' (escape_string (app_generic_name app)),
      desktop_line ''Exec'' (escape_string (app_exec app)),
      desktop_line ''Path'' (escape_string (app_path app)),
      desktop_line ''Terminal'' (if app_terminal app then ''true'' else ''false'')]"
  unfolding desktop_file_def
  using file_lines_desktop_line [of "''Name''" "escape_string (app_name app)"]
    file_lines_desktop_line [of "''GenericName''" "escape_string (app_generic_name app)"]
    file_lines_desktop_line [of "''Exec''" "escape_string (app_exec app)"]
    file_lines_desktop_line [of "''Path''" "escape_string (app_path app)"]
    file_lines_desktop_line [of "''Terminal''" "if app_terminal app then ''true'' else ''false''" "[]"]
    file_lines_line [of "''[Desktop Entry]''"]
  by (simp add: file_lines_Nil)

text \<open>C12: a desktop file written from an application (values escaped as the specification says)
  is read back as exactly that application, whatever the locale and the desktops.\<close>

theorem desktop_file_roundtrip:
  assumes "app_name app \<noteq> []" "app_no_NUL app" "app_id app = []"
  shows "Application_ctor (\<lambda>_. Some (desktop_file app)) (app_location app) ls envs = Inr app"
proof -
  have no_NUL: "NUL \<notin> set (app_name app)" "NUL \<notin> set (app_generic_name app)"
    "NUL \<notin> set (app_exec app)" "NUL \<notin> set (app_path app)"
    using assms(2) by (simp_all add: app_no_NUL_def)
  let ?app0 = "empty_application (app_location app)"
  let ?app1 = "?app0\<lparr>app_name := app_name app\<rparr>"
  let ?app2 = "?app1\<lparr>app_generic_name := app_generic_name app\<rparr>"
  let ?app3 = "?app2\<lparr>app_exec := app_exec app\<rparr>"
  let ?app4 = "?app3\<lparr>app_path := app_path app\<rparr>"
  let ?app5 = "?app4\<lparr>app_terminal := app_terminal app\<rparr>"
  let ?st = "\<lambda>a m g. \<lparr>ps_app = a, ps_locale_match = m, ps_locale_generic_match = g\<rparr>"
  note esc = no_NUL [THEN escape_string_no_NUL] no_NUL [THEN expand_escape_string] escape_string_hd
  have "parse_lines ls envs (file_lines (desktop_file app)) 0 False (init_parse (app_location app))
      = parse_lines ls envs [] 6 True (?st ?app5 4 4)"
    unfolding file_lines_desktop_file desktop_line_def parse_lines_header init_parse_def
    by (subst parse_lines_pair [where st' = "?st ?app1 4 (- 1)"],
        (simp_all add: esc handle_key_def parse_localestring_def) [4],
        subst parse_lines_pair [where st' = "?st ?app2 4 4"],
        (simp_all add: esc handle_key_def parse_localestring_def) [4],
        subst parse_lines_pair [where st' = "?st ?app3 4 4"],
        (simp_all add: esc handle_key_def) [4],
        subst parse_lines_pair [where st' = "?st ?app4 4 4"],
        (simp_all add: esc handle_key_def) [4],
        subst parse_lines_pair [where st' = "?st ?app5 4 4"],
        (simp_all add: handle_key_def) [4], simp)
  moreover have "?app5 = app" using assms(3) by (simp add: empty_application_def)
  ultimately show ?thesis using assms(1) by (simp add: Application_ctor_def)
qed

theorem desktop_file_roundtrip_witness:
  "let app = (empty_application ''/usr/share/applications/v.desktop'')
       \<lparr>app_name := ''Vi'' @ [NL] @ '' editor'', app_exec := ''vi'' @ [BACKSLASH], app_terminal := True\<rparr>
   in Application_ctor (\<lambda>_. Some (desktop_file app)) (app_location app) C_locale [''KDE''] = Inr app"
  unfolding Let_def
  by (rule desktop_file_roundtrip) (simp_all add: empty_application_def app_no_NUL_def)


section \<open>Names in a file\<close>

lemma parse_lines_names:
  assumes "ls_length ls \<le> 4" "m = - 1 \<or> 0 \<le> m \<and> m \<le> 4"
    "\<forall>(tag, v) \<in> set entries. clean_tag tag \<and> NUL \<notin> set v" "ps_locale_match st = m"
  shows "parse_lines ls envs (map name_line entries) n True st =
    Inr (True, case best_value (ranked_values ls entries) of
           None \<Rightarrow> st
         | Some (r, v) \<Rightarrow>
             if m = - 1 \<or> r \<le> m
             then st\<lparr>ps_locale_match := r, ps_app := (ps_app st)\<lparr>app_name := v\<rparr>\<rparr>
             else st)"
  using assms(2-4)
proof (induction entries arbitrary: m n st)
  case (Cons e entries)
  obtain tag v where e: "e = (tag, v)" by force
  have m: "- 1 \<le> m" "m \<le> 4" using Cons.prems(1) by auto
  have clean: "clean_tag tag" "NUL \<notin> set v" using Cons.prems(2) e by auto
  have key: "NUL \<notin> set (name_key tag)" "SPACE \<notin> set (name_key tag)" "CHR ''='' \<notin> set (name_key tag)"
    "prefix ''Name'' (name_key tag)" "name_key tag \<noteq> []" "hd (name_key tag) = CHR ''N''"
    using clean(1) by (auto simp: name_key_def clean_tag_def split: option.splits)
  have "split_key_value (name_key tag @ CHR ''='' # escape_string v)
      = Some (name_key tag, escape_string v)"
    using key clean escape_string_hd [of v]
    by (intro split_key_value_eq escape_string_no_NUL) auto
  then have step: "parse_lines ls envs (name_line e # raws) n True st =
      bind_sum (with_line_number (Suc n) (handle_key ls envs (name_key tag) (escape_string v) st))
        (parse_lines ls envs raws (Suc n) True)" for raws n
    using parse_lines_pair_step [of "name_key tag @ CHR ''='' # escape_string v"] key
    by (simp only: name_line_def e fst_conv snd_conv) simp
  have handle: "handle_key ls envs (name_key tag) (escape_string v) st =
      Inr (case tag_rank ls tag of
             None \<Rightarrow> st
           | Some r \<Rightarrow> if m = - 1 \<or> r \<le> m
               then st\<lparr>ps_locale_match := r, ps_app := (ps_app st)\<lparr>app_name := v\<rparr>\<rparr> else st)"
    using key(4) Cons.prems(3) expand_escape_string [OF clean(2)]
    by (simp add: handle_key_def parse_localestring_tag [OF assms(1) m] split: option.splits)
  show ?case
  proof (cases "tag_rank ls tag")
    case None
    then show ?thesis using Cons e step handle by (simp add: with_line_number_def)
  next
    case (Some r)
    have r: "0 \<le> r" "r \<le> 4" using tag_rank_range [OF assms(1) Some] by auto
    let ?st = "st\<lparr>ps_locale_match := r, ps_app := (ps_app st)\<lparr>app_name := v\<rparr>\<rparr>"
    show ?thesis
      using Cons.IH [of r ?st "Suc n"] Cons.IH [of m st "Suc n"] Cons.prems e Some r step handle
      by (auto simp: with_line_number_def split: option.splits prod.splits)
  qed
qed simp

text \<open>C14: among the \<open>Name\<close> and \<open>Name[locale]\<close> keys of a file, in any order, the parser takes the
  one that matches the user's locale best (the last one where several match equally), and the
  plain \<open>Name\<close> only when no localised key matches.\<close>

theorem localized_name:
  assumes "ls_length ls \<le> 4" "\<forall>(tag, v) \<in> set entries. clean_tag tag \<and> NUL \<notin> set v"
    "best_value (ranked_values ls entries) = Some (r, v)" "v \<noteq> []"
  shows "Application_ctor (\<lambda>_. Some (DESKTOP_ENTRY @ concat (map name_line entries))) p ls envs =
    Inr ((empty_application p)\<lparr>app_name := v\<rparr>)"
proof -
  have "file_lines (concat (map name_line es)) = map name_line es"
    if "\<forall>(tag, v) \<in> set es. clean_tag tag \<and> NUL \<notin> set v" for es
    using that
  proof (induction es)
    case (Cons e es)
    have "NL \<notin> set (name_key (fst e) @ CHR ''='' # escape_string (snd e))"
      using Cons.prems by (auto simp: name_key_def clean_tag_def split: option.splits)
    from file_lines_line [OF this, of "concat (map name_line es)"]
    have "file_lines (name_line e @ concat (map name_line es)) =
        name_line e # file_lines (concat (map name_line es))"
      by (simp add: name_line_def [of e])
    with Cons show ?case by simp
  qed (simp add: file_lines_Nil)
  then have "file_lines (DESKTOP_ENTRY @ concat (map name_line entries)) =
      DESKTOP_ENTRY # map name_line entries"
    using file_lines_line [of "''[Desktop Entry]''" "concat (map name_line entries)"] assms(2)
    by simp
  then have "parse_lines ls envs (file_lines (DESKTOP_ENTRY @ concat (map name_line entries))) 0
      False (init_parse p) = Inr (True, (init_parse p)\<lparr>ps_locale_match := r,
        ps_app := (empty_application p)\<lparr>app_name := v\<rparr>\<rparr>)"
    using parse_lines_names [OF assms(1) _ assms(2), of "- 1" "init_parse p" envs "Suc 0"] assms(3)
    by (simp only: parse_lines_header) (simp add: init_parse_def)
  then show ?thesis using assms(4) by (simp add: Application_ctor_def)
qed

theorem localized_name_witness:
  "Application_ctor
     (\<lambda>_. Some (DESKTOP_ENTRY @ concat (map name_line
        [(Some ''de'', ''Rechner''), (None, ''Calculator''), (Some ''C'', ''Calc'')]))) ''p'' C_locale []
   = Inr ((empty_application ''p'')\<lparr>app_name := ''Calc''\<rparr>)"
proof (rule localized_name)
  show "best_value (ranked_values C_locale
      [(Some ''de'', ''Rechner''), (None, ''Calculator''), (Some ''C'', ''Calc'')]) = Some (0, ''Calc'')"
    by code_simp
qed (simp_all add: C_locale_def clean_tag_def)

end
