(* ===== verification/CMDLineAssembler.thy ===== *)
theory CMDLineAssembler
  imports Utilities
begin

text \<open>
  \<open>src/CMDLineAssembler.cc\<close>: quoting for the shell, the check and the splitting of the
  \<open>Exec\<close> key, and the command lines built around them.
\<close>

section \<open>The code\<close>

text \<open>
  \<open>sq_quote\<close>: the loop cuts the input at each single quote; \<open>where == size - 1\<close> is
  tested before \<open>npos\<close>.
\<close>

function sq_quote_loop :: "string \<Rightarrow> string \<Rightarrow> string" where
  "sq_quote_loop input result =
     (case find_char SQUOTE input of
        None \<Rightarrow> result @ input @ [SQUOTE]
      | Some i \<Rightarrow>
          (if i = length input - 1 then
             result @ take (length input - 1) input @ [SQUOTE, BACKSLASH, SQUOTE]
           else sq_quote_loop (drop (Suc i) input)
                  (result @ take i input @ [SQUOTE, BACKSLASH, SQUOTE, SQUOTE])))"
  by pat_completeness auto
termination
  by (relation "measure (\<lambda>(i, r). length i)") (auto dest: find_char_less)

declare sq_quote_loop.simps [simp del]

definition sq_quote :: "string \<Rightarrow> string" where
  "sq_quote input =
     (case find_char SQUOTE input of
        None \<Rightarrow> [SQUOTE] @ input @ [SQUOTE]
      | Some i \<Rightarrow> sq_quote_loop input [SQUOTE])"

text \<open>
  \<open>validate_exec_key\<close>: None is the empty optional (a valid key), otherwise the description
  of the error. \<open>i\<close> is the index of the first of the remaining characters.
\<close>

definition exec_field_note :: string where
  "exec_field_note =
     '' in the Exec field (character count is counted excluding '' @ [DQUOTE] @ ''Exec='' @ [DQUOTE] @
     '' part)''"

fun validate_exec_loop :: "nat \<Rightarrow> string \<Rightarrow> bool \<Rightarrow> string option" where
  "validate_exec_loop i [] in_quotes =
     (if in_quotes then
        Some ([DQUOTE, DQUOTE] @ '' qouted string is missing the end quote in the Exec field.'')
      else None)"
| "validate_exec_loop i (ch # cs) in_quotes =
     (if in_quotes then
        (if ch = BACKSLASH then
           (case cs of
              [] \<Rightarrow> Some (''Escape character '' @ [SQUOTE, BACKSLASH, SQUOTE] @
                         '' found at enf of line! Nothing to escape!'')
            | e # cs' \<Rightarrow>
                (if e = DQUOTE \<or> e = BACKTICK \<or> e = CHR ''$'' \<or> e = BACKSLASH then
                   validate_exec_loop (i + 2) cs' in_quotes
                 else
                   Some (''Found invalid escape sequence '' @ [SQUOTE, BACKSLASH, e, SQUOTE] @
                         '' on characters '' @ to_string (i + 1) @ ''-'' @ to_string (i + 2) @
                         exec_field_note @ ''.'')))
         else if ch = DQUOTE then validate_exec_loop (i + 1) cs False
         else validate_exec_loop (i + 1) cs in_quotes)
      else
        (if ch = DQUOTE then validate_exec_loop (i + 1) cs True
         else if ch = BACKSLASH then
           Some (''Found unquoted escape sequence on character '' @ to_string (i + 1) @
                 exec_field_note)
         else validate_exec_loop (i + 1) cs in_quotes))"

definition validate_exec_key :: "string \<Rightarrow> string option" where
  "validate_exec_key exec_key = validate_exec_loop 0 exec_key False"

text \<open>
  \<open>convert_exec_to_command\<close>: an escaped character that is none of the five is dropped; a
  final empty argument is not pushed.
\<close>

fun convert_exec_loop ::
  "bool \<Rightarrow> string \<Rightarrow> bool \<Rightarrow> bool \<Rightarrow> string \<Rightarrow> string list \<Rightarrow> fault + string list" where
  "convert_exec_loop wine [] in_quotes escaping cur result =
     Inr (if cur \<noteq> [] then result @ [cur] else result)"
| "convert_exec_loop wine (ch # cs) in_quotes escaping cur result =
     (if escaping then
        (if ch = DQUOTE \<or> ch = BACKTICK \<or> ch = CHR ''$'' \<or> ch = BACKSLASH then
           convert_exec_loop wine cs in_quotes False (cur @ [ch]) result
         else if ch = SPACE then
           (if wine then convert_exec_loop wine cs in_quotes False (cur @ [SPACE]) result
            else Inl (Exec_invalid_escape
              (''Found invalid escape sequence '' @ [BACKTICK, BACKSLASH, SPACE, BACKTICK] @
               '' in the Exec key!'')))
         else convert_exec_loop wine cs in_quotes False cur result)
      else if in_quotes then
        (if ch = DQUOTE then convert_exec_loop wine cs False False cur result
         else if ch = BACKSLASH then convert_exec_loop wine cs in_quotes True cur result
         else convert_exec_loop wine cs in_quotes False (cur @ [ch]) result)
      else
        (if ch = DQUOTE then convert_exec_loop wine cs True False cur result
         else if ch = SPACE then convert_exec_loop wine cs in_quotes False [] (result @ [cur])
         else if ch = BACKSLASH then
           (if wine then convert_exec_loop wine cs in_quotes True cur result
            else Inl (Exec_invalid_escape
              (''Found '' @ [SQUOTE, BACKSLASH, SQUOTE] @ '' unquoted in Exec!'')))
         else convert_exec_loop wine cs in_quotes False (cur @ [ch]) result))"

definition convert_exec_to_command :: "string \<Rightarrow> bool \<Rightarrow> fault + string list" where
  "convert_exec_to_command exec_key wine_compatibility_mode =
     convert_exec_loop wine_compatibility_mode exec_key False False [] []"

definition wrap_cmdstring_in_shell :: "string \<Rightarrow> string list" where
  "wrap_cmdstring_in_shell cmdstring = [''/bin/sh'', ''-c'', cmdstring]"

fun append_quoted :: "string \<Rightarrow> string list \<Rightarrow> string" where
  "append_quoted result [] = result"
| "append_quoted result (a # as) = append_quoted (result @ '' '' @ sq_quote a) as"

definition convert_argv_to_string :: "string list \<Rightarrow> string" where
  "convert_argv_to_string command =
     (case command of [] \<Rightarrow> [] | c # cs \<Rightarrow> append_quoted (sq_quote c) cs)"

definition wrapper_script :: string where
  "wrapper_script =
     ''wrap='' @ [DQUOTE] @ ''$1'' @ [DQUOTE] @ ''; shift; $wrap '' @ [DQUOTE] @ ''$@'' @ [DQUOTE]"

definition wrap_command_in_wrapper :: "string list \<Rightarrow> string \<Rightarrow> string list" where
  "wrap_command_in_wrapper command wrapper =
     [''/bin/sh'', ''-c'', wrapper_script, ''/bin/sh'', wrapper] @ command"

text \<open>
  \<open>create_argv\<close>: the vector of \<open>size + 1\<close> pointers, the last one NULL. A pointer to the
  data of an argument is the argument; NULL is None.
\<close>

definition create_argv :: "string list \<Rightarrow> fault + string option list" where
  "create_argv command =
     (if command = [] then Inl Aborted else Inr (map Some command @ [None]))"

section \<open>Words joined by spaces\<close>

text \<open>
  The interface of a quoting discipline: a scanner that reads one quoted word up to the
  separating space, or up to the end of the string, and goes on with the words it has.
  \<open>final_ok\<close> says which words may stand last.
\<close>

locale word_quoting =
  fixes quote :: "string \<Rightarrow> string"
    and scan :: "string \<Rightarrow> string list \<Rightarrow> 'r"
    and finish :: "string list \<Rightarrow> 'r"
    and final_ok :: "string \<Rightarrow> bool"
  assumes scan_inner: "scan (quote w @ SPACE # r) ws = scan r (ws @ [w])"
    and scan_final: "final_ok w \<Longrightarrow> scan (quote w) ws = finish (ws @ [w])"
begin

lemma scan_words:
  "ws \<noteq> [] \<Longrightarrow> final_ok (last ws) \<Longrightarrow> scan (join (map quote ws) SPACE) acc = finish (acc @ ws)"
proof (induction ws arbitrary: acc)
  case (Cons w ws)
  show ?case
  proof (cases "ws = []")
    case True
    with Cons.prems show ?thesis by (simp add: scan_final)
  next
    case False
    with Cons show ?thesis by (simp add: join_Cons scan_inner)
  qed
qed simp

end

section \<open>Quoting for the shell\<close>

text \<open>
  A reference for how \<open>/bin/sh\<close> splits a line into words (POSIX, sections 2.2 and 2.6): only
  single quotes, the backslash outside quotes, spaces and characters without a meaning of
  their own are accepted. Everything else outside quotes, which the shell would expand or
  act on, makes it fail.
\<close>

datatype sh_mode = Sh_blank | Sh_word | Sh_quote | Sh_escape

definition sh_plain :: "char \<Rightarrow> bool" where
  "sh_plain c \<longleftrightarrow> is_digit c \<or> (65 \<le> chr_val c \<and> chr_val c \<le> 90) \<or>
     (97 \<le> chr_val c \<and> chr_val c \<le> 122) \<or> c \<in> set ''%+,-./:@_''"

fun sh_words_loop :: "string \<Rightarrow> sh_mode \<Rightarrow> string \<Rightarrow> string list \<Rightarrow> string list option" where
  "sh_words_loop [] Sh_blank cur ws = Some ws"
| "sh_words_loop [] Sh_word cur ws = Some (ws @ [cur])"
| "sh_words_loop [] m cur ws = None"
| "sh_words_loop (c # cs) Sh_quote cur ws =
     (if c = SQUOTE then sh_words_loop cs Sh_word cur ws
      else sh_words_loop cs Sh_quote (cur @ [c]) ws)"
| "sh_words_loop (c # cs) Sh_escape cur ws =
     (if c = NL then None else sh_words_loop cs Sh_word (cur @ [c]) ws)"
| "sh_words_loop (c # cs) m cur ws =
     (if c = SPACE then
        (if m = Sh_word then sh_words_loop cs Sh_blank [] (ws @ [cur])
         else sh_words_loop cs Sh_blank [] ws)
      else if c = SQUOTE then sh_words_loop cs Sh_quote cur ws
      else if c = BACKSLASH then sh_words_loop cs Sh_escape cur ws
      else if sh_plain c then sh_words_loop cs Sh_word (cur @ [c]) ws
      else None)"

definition sh_words :: "string \<Rightarrow> string list option" where
  "sh_words line = sh_words_loop line Sh_blank [] []"

text \<open>The text \<open>sq_quote\<close> puts after the opening quote.\<close>

fun sq_body :: "string \<Rightarrow> string" where
  "sq_body [] = [SQUOTE]"
| "sq_body (c # cs) =
     (if c = SQUOTE then
        (if cs = [] then [SQUOTE, BACKSLASH, SQUOTE]
         else [SQUOTE, BACKSLASH, SQUOTE, SQUOTE] @ sq_body cs)
      else c # sq_body cs)"

lemma sq_body_no_quote: "SQUOTE \<notin> set s \<Longrightarrow> sq_body s = s @ [SQUOTE]"
  by (induction s) auto

lemma sq_body_quote_last: "SQUOTE \<notin> set a \<Longrightarrow> sq_body (a @ [SQUOTE]) = a @ [SQUOTE, BACKSLASH, SQUOTE]"
  by (induction a) auto

lemma sq_body_quote_inner:
  "SQUOTE \<notin> set a \<Longrightarrow> b \<noteq> [] \<Longrightarrow>
     sq_body (a @ SQUOTE # b) = a @ [SQUOTE, BACKSLASH, SQUOTE, SQUOTE] @ sq_body b"
  by (induction a) auto

lemma sq_quote_loop_eq: "sq_quote_loop input result = result @ sq_body input"
proof (induction input result rule: sq_quote_loop.induct)
  case (1 input result)
  show ?case
  proof (cases "find_char SQUOTE input")
    case None
    then show ?thesis by (subst sq_quote_loop.simps) (simp add: sq_body_no_quote)
  next
    case (Some i)
    then obtain a b where ab: "input = a @ SQUOTE # b" "SQUOTE \<notin> set a" "i = length a"
      by (auto simp: find_char_eq_Some_iff)
    then show ?thesis
      using "1.IH" [OF Some]
      by (cases "b = []")
        (subst sq_quote_loop.simps, simp add: sq_body_quote_last sq_body_quote_inner)+
  qed
qed

lemma sq_quote_eq: "sq_quote s = SQUOTE # sq_body s"
  by (auto simp: sq_quote_def sq_quote_loop_eq sq_body_no_quote split: option.splits)

lemma sh_words_sq_body:
  "sh_words_loop (sq_body s @ r) Sh_quote cur ws = sh_words_loop r Sh_word (cur @ s) ws"
  by (induction s arbitrary: cur rule: sq_body.induct) auto

lemma sh_words_sq_quote:
  "sh_words_loop (sq_quote s @ r) Sh_blank [] ws = sh_words_loop r Sh_word s ws"
  by (simp add: sq_quote_eq sh_words_sq_body)

interpretation shell: word_quoting sq_quote "\<lambda>s ws. sh_words_loop s Sh_blank [] ws" Some "\<lambda>_. True"
proof unfold_locales
  fix w r ws
  show "sh_words_loop (sq_quote w @ SPACE # r) Sh_blank [] ws = sh_words_loop r Sh_blank [] (ws @ [w])"
    by (simp add: sh_words_sq_quote)
  show "sh_words_loop (sq_quote w) Sh_blank [] ws = Some (ws @ [w])"
    using sh_words_sq_quote [of w "[]" ws] by simp
qed

lemma append_quoted_eq:
  "append_quoted r cs = r @ concat (map (\<lambda>c. SPACE # sq_quote c) cs)"
  by (induction r cs rule: append_quoted.induct) auto

lemma join_map_concat:
  "join (f c # map f cs) SPACE = f c @ concat (map (\<lambda>c. SPACE # f c) cs)"
  by (induction cs arbitrary: c) auto

lemma convert_argv_to_string_join: "convert_argv_to_string command = join (map sq_quote command) SPACE"
  by (cases command) (simp_all add: convert_argv_to_string_def append_quoted_eq join_map_concat)

lemma convert_argv_scan:
  "sh_words_loop (convert_argv_to_string command) Sh_blank [] ws = Some (ws @ command)"
  using shell.scan_words [of command ws]
  by (cases "command = []") (simp_all add: convert_argv_to_string_join)

lemma convert_argv_words: "sh_words (convert_argv_to_string command) = Some command"
  by (simp add: sh_words_def convert_argv_scan)

text \<open>C15: whatever bytes an argument vector holds, the shell splits the string built from it
  back into exactly those arguments, and expands or executes nothing in it.\<close>

theorem convert_argv_to_string_roundtrip: "sh_words (convert_argv_to_string command) = Some command"
  by (rule convert_argv_words)

section \<open>The Exec key\<close>

text \<open>The quoting rules of the specification: every argument in double quotes.\<close>

definition exec_special :: "char \<Rightarrow> bool" where
  "exec_special c \<longleftrightarrow> c = DQUOTE \<or> c = BACKTICK \<or> c = CHR ''$'' \<or> c = BACKSLASH"

fun exec_escape :: "string \<Rightarrow> string" where
  "exec_escape [] = []"
| "exec_escape (c # cs) = (if exec_special c then [BACKSLASH, c] else [c]) @ exec_escape cs"

definition exec_quote :: "string \<Rightarrow> string" where
  "exec_quote w = [DQUOTE] @ exec_escape w @ [DQUOTE]"

lemma convert_exec_escape:
  "convert_exec_loop wine (exec_escape w @ DQUOTE # r) True False cur ws =
     convert_exec_loop wine r False False (cur @ w) ws"
  by (induction w arbitrary: cur) (auto simp: exec_special_def)

lemma convert_exec_quote:
  "convert_exec_loop wine (exec_quote w @ r) False False [] ws =
     convert_exec_loop wine r False False w ws"
  by (simp add: exec_quote_def convert_exec_escape)

interpretation exec_key: word_quoting exec_quote
  "\<lambda>s ws. convert_exec_loop wine s False False [] ws" Inr "\<lambda>w. w \<noteq> []"
proof unfold_locales
  fix w r ws
  show "convert_exec_loop wine (exec_quote w @ SPACE # r) False False [] ws =
      convert_exec_loop wine r False False [] (ws @ [w])"
    by (simp add: convert_exec_quote)
  show "w \<noteq> [] \<Longrightarrow> convert_exec_loop wine (exec_quote w) False False [] ws = Inr (ws @ [w])"
    using convert_exec_quote [of wine w "[]" ws] by simp
qed

text \<open>An \<open>Exec\<close> key quoted as the specification says is split into exactly the quoted
  arguments, in strict and in Wine mode, whatever characters they hold, as long as the last
  one is not empty (the code drops an empty last argument).\<close>

theorem exec_key_roundtrip:
  assumes "ws \<noteq> []" "last ws \<noteq> []"
  shows "convert_exec_to_command (join (map exec_quote ws) SPACE) wine = Inr ws"
  using exec_key.scan_words [OF assms, of wine "[]"] by (simp add: convert_exec_to_command_def)

theorem exec_key_roundtrip_witness:
  "convert_exec_to_command (join (map exec_quote [''sh'', ''-c'', ''echo $HOME `x` '' @ [DQUOTE, BACKSLASH]])
     SPACE) False = Inr [''sh'', ''-c'', ''echo $HOME `x` '' @ [DQUOTE, BACKSLASH]]"
  by (rule exec_key_roundtrip) simp_all

text \<open>The valid keys as a grammar: plain characters and closed quoted sections.\<close>

inductive quoted_section :: "string \<Rightarrow> bool" where
  quoted_end: "quoted_section []"
| quoted_plain: "c \<noteq> DQUOTE \<Longrightarrow> c \<noteq> BACKSLASH \<Longrightarrow> quoted_section s \<Longrightarrow> quoted_section (c # s)"
| quoted_escape: "exec_special e \<Longrightarrow> quoted_section s \<Longrightarrow> quoted_section (BACKSLASH # e # s)"

inductive exec_grammar :: "string \<Rightarrow> bool" where
  exec_end: "exec_grammar []"
| exec_plain: "c \<noteq> DQUOTE \<Longrightarrow> c \<noteq> BACKSLASH \<Longrightarrow> exec_grammar s \<Longrightarrow> exec_grammar (c # s)"
| exec_quoted: "quoted_section q \<Longrightarrow> exec_grammar s \<Longrightarrow> exec_grammar (DQUOTE # q @ DQUOTE # s)"

lemma validate_quoted_section:
  "quoted_section q \<Longrightarrow>
     validate_exec_loop i (q @ DQUOTE # s) True = validate_exec_loop (i + length q + 1) s False"
  by (induction q arbitrary: i rule: quoted_section.induct) (auto simp: exec_special_def)

lemma exec_grammar_valid: "exec_grammar s \<Longrightarrow> validate_exec_loop i s False = None"
  by (induction s arbitrary: i rule: exec_grammar.induct) (auto simp: validate_quoted_section)

lemma validate_exec_grammar:
  "validate_exec_loop i s b = None \<Longrightarrow>
     (if b then \<exists>q s'. s = q @ DQUOTE # s' \<and> quoted_section q \<and> exec_grammar s'
      else exec_grammar s)"
proof (induction i s b rule: validate_exec_loop.induct)
  case (1 i b)
  then show ?case by (auto intro: exec_end split: if_splits)
next
  case (2 i ch cs b)
  show ?case
  proof (cases b)
    case False
    with 2 show ?thesis
      by (auto split: if_splits intro: exec_grammar.intros)
  next
    case True
    consider e cs' where "ch = BACKSLASH" "cs = e # cs'" "exec_special e"
        "validate_exec_loop (i + 2) cs' True = None"
      | "ch = DQUOTE" "validate_exec_loop (i + 1) cs False = None"
      | "ch \<noteq> DQUOTE" "ch \<noteq> BACKSLASH" "validate_exec_loop (i + 1) cs True = None"
      using "2.prems" True by (auto simp: exec_special_def split: if_splits list.splits)
    then show ?thesis
    proof cases
      case 1
      with "2.IH"(1) True obtain q s' where "cs' = q @ DQUOTE # s'" "quoted_section q" "exec_grammar s'"
        by (auto simp: exec_special_def)
      then have "ch # cs = (BACKSLASH # e # q) @ DQUOTE # s'" "quoted_section (BACKSLASH # e # q)"
        using 1 by (auto intro: quoted_escape)
      with \<open>exec_grammar s'\<close> True show ?thesis by metis
    next
      case 2
      then have "exec_grammar cs" using "2.IH"(2) True by auto
      moreover have "ch # cs = [] @ DQUOTE # cs" using 2 by simp
      ultimately show ?thesis using True quoted_end by metis
    next
      case 3
      with "2.IH"(3) True obtain q s' where "cs = q @ DQUOTE # s'" "quoted_section q" "exec_grammar s'"
        by auto
      then have "ch # cs = (ch # q) @ DQUOTE # s'" "quoted_section (ch # q)"
        using 3 by (auto intro: quoted_plain)
      with \<open>exec_grammar s'\<close> True show ?thesis by metis
    qed
  qed
qed

lemma validate_exec_key_iff: "validate_exec_key e = None \<longleftrightarrow> exec_grammar e"
  using exec_grammar_valid [of e 0] validate_exec_grammar [of 0 e False]
  by (auto simp: validate_exec_key_def)

text \<open>C30: the check of the \<open>Exec\<close> key accepts exactly the keys of the specification's quoting
  grammar.\<close>

theorem validate_exec_key_grammar: "validate_exec_key e = None \<longleftrightarrow> exec_grammar e"
  by (rule validate_exec_key_iff)

lemma convert_wine_total: "\<exists>r. convert_exec_loop True s q e cur ws = Inr r"
  by (induction s arbitrary: q e cur ws) auto

lemma convert_quoted_section:
  "quoted_section q \<Longrightarrow> \<exists>cur'. \<forall>wine. convert_exec_loop wine (q @ DQUOTE # s) True False cur ws =
     convert_exec_loop wine s False False cur' ws"
proof (induction q arbitrary: cur rule: quoted_section.induct)
  case (quoted_escape e s)
  then show ?case by (auto simp: exec_special_def)
qed auto

lemma convert_grammar:
  "exec_grammar s \<Longrightarrow> \<exists>r. \<forall>wine. convert_exec_loop wine s False False cur ws = Inr r"
proof (induction s arbitrary: cur ws rule: exec_grammar.induct)
  case (exec_quoted q s)
  obtain cur' where "\<And>wine. convert_exec_loop wine (q @ DQUOTE # s) True False cur ws =
      convert_exec_loop wine s False False cur' ws"
    using convert_quoted_section [OF exec_quoted.hyps(1)] by blast
  with exec_quoted.IH [of cur' ws] show ?case by auto
next
  case (exec_plain c s)
  then show ?case by (cases "c = SPACE") auto
qed auto

text \<open>Wine mode never rejects an \<open>Exec\<close> key, and a key that passes the check is split
  without error and in the same way in both modes.\<close>

theorem convert_exec_modes:
  "(\<exists>r. convert_exec_to_command e True = Inr r) \<and>
   (validate_exec_key e = None \<longrightarrow>
      (\<exists>r. convert_exec_to_command e False = Inr r \<and> convert_exec_to_command e True = Inr r))"
  using convert_wine_total convert_grammar [of e "[]" "[]"]
  by (auto simp: validate_exec_key_iff convert_exec_to_command_def)

theorem convert_exec_modes_witness:
  "\<exists>r. convert_exec_to_command ''vim %F'' False = Inr r \<and> convert_exec_to_command ''vim %F'' True = Inr r"
proof -
  have "validate_exec_key ''vim %F'' = None" by code_simp
  then show ?thesis using convert_exec_modes [of "''vim %F''"] by simp
qed

end
