(* ===== verification/FieldCodes.thy ===== *)
theory FieldCodes
  imports Application
begin

text \<open>\<open>src/FieldCodes.cc\<close>: the field codes of an \<open>Exec\<close> key.\<close>

section \<open>The code\<close>

text \<open>
  \<open>before\<close> are the elements in front of the iterator, the second list starts at it. Every
  round moves the iterator one element on (\<open>++iter\<close> of the loop); where the code leaves it on
  an element it has not looked at, that element is passed over.
\<close>

definition user_words :: "string \<Rightarrow> string list" where
  "user_words user_arguments = filter (\<lambda>w. w \<noteq> []) (split user_arguments SPACE)"

definition replace_code :: "nat \<Rightarrow> string \<Rightarrow> string \<Rightarrow> string" where
  "replace_code pos arg s = take pos arg @ s @ drop (pos + 2) arg"

fun expand_field_codes_loop ::
  "Application \<Rightarrow> string \<Rightarrow> string list \<Rightarrow> string list \<Rightarrow> fault + string list" where
  "expand_field_codes_loop app user_arguments before [] = Inr before"
| "expand_field_codes_loop app user_arguments before (arg # rest) =
     (case find_char (CHR ''%'') arg of
        None \<Rightarrow> expand_field_codes_loop app user_arguments (before @ [arg]) rest
      | Some pos \<Rightarrow>
          (if pos = length arg - 1 then
             Inl (Runtime_error ''Invalid field code at the end of Exec.'')
           else let code = arg ! (pos + 1) in
             if code = CHR ''%'' then
               expand_field_codes_loop app user_arguments (before @ [replace_code pos arg ''%'']) rest
             else if code \<in> set ''fFuU'' then
               (let words = user_words user_arguments in
                if words = [] then
                  (if pos = 0 \<and> length arg = 2 then
                     (case rest of
                        [] \<Rightarrow> Inr before
                      | r # rs \<Rightarrow> expand_field_codes_loop app user_arguments (before @ [r]) rs)
                   else expand_field_codes_loop app user_arguments
                          (before @ [replace_code pos arg []]) rest)
                else if length words = 1 then
                  expand_field_codes_loop app user_arguments
                    (before @ [replace_code pos arg user_arguments]) rest
                else
                  (let args_size = length before + Suc (length rest);
                       suff = (if pos + 2 < args_size then drop (pos + 2) arg else []);
                       new = (take pos arg @ hd words) # butlast (tl words) @ [last words @ suff]
                   in case rest of
                        [] \<Rightarrow> Inr (before @ new)
                      | r # rs \<Rightarrow> expand_field_codes_loop app user_arguments (before @ new @ [r]) rs))
             else if code = CHR ''c'' then
               expand_field_codes_loop app user_arguments
                 (before @ [replace_code pos arg (app_name app)]) rest
             else if code = CHR ''k'' then
               expand_field_codes_loop app user_arguments
                 (before @ [replace_code pos arg (app_location app)]) rest
             else if code \<in> set ''idDnNvm'' then
               expand_field_codes_loop app user_arguments (before @ [arg]) rest
             else Inl (Runtime_error (''Invalid field code %'' @ [code] @ ''.''))))"

definition expand_field_codes ::
  "string list \<Rightarrow> Application \<Rightarrow> string \<Rightarrow> fault + string list" where
  "expand_field_codes args app user_arguments =
     expand_field_codes_loop app user_arguments [] args"

section \<open>The expansion of one argument\<close>

text \<open>
  What the loop is meant to do with every argument: expand its first field code, given the
  words of the user's input.
\<close>

definition expand_arg :: "Application \<Rightarrow> string list \<Rightarrow> string \<Rightarrow> fault + string list" where
  "expand_arg app words arg =
     (case find_char (CHR ''%'') arg of
        None \<Rightarrow> Inr [arg]
      | Some pos \<Rightarrow>
          (if pos = length arg - 1 then
             Inl (Runtime_error ''Invalid field code at the end of Exec.'')
           else let code = arg ! (pos + 1) in
             if code = CHR ''%'' then Inr [replace_code pos arg ''%'']
             else if code \<in> set ''fFuU'' then
               (case words of
                  [] \<Rightarrow> Inr (if pos = 0 \<and> length arg = 2 then [] else [replace_code pos arg []])
                | [w] \<Rightarrow> Inr [replace_code pos arg w]
                | w # ws \<Rightarrow>
                    Inr ((take pos arg @ w) # butlast ws @ [last ws @ drop (pos + 2) arg]))
             else if code = CHR ''c'' then Inr [replace_code pos arg (app_name app)]
             else if code = CHR ''k'' then Inr [replace_code pos arg (app_location app)]
             else if code \<in> set ''idDnNvm'' then Inr [arg]
             else Inl (Runtime_error (''Invalid field code %'' @ [code] @ ''.''))))"

fun expand_args :: "Application \<Rightarrow> string list \<Rightarrow> string list \<Rightarrow> fault + string list" where
  "expand_args app words [] = Inr []"
| "expand_args app words (arg # args) =
     bind_sum (expand_arg app words arg) (\<lambda>xs.
       bind_sum (expand_args app words args) (\<lambda>ys. Inr (xs @ ys)))"

lemma user_words_single: "w \<noteq> [] \<Longrightarrow> SPACE \<notin> set w \<Longrightarrow> user_words w = [w]"
  by (simp add: user_words_def split_no_delimiter)

lemma expand_field_codes_loop_single:
  assumes "user_words w = [w]"
  shows "expand_field_codes_loop app w before args =
    bind_sum (expand_args app [w] args) (\<lambda>ys. Inr (before @ ys))"
proof (induction args arbitrary: before)
  case (Cons arg args)
  show ?case
    by (cases "find_char (CHR ''%'') arg")
      (auto simp: Cons expand_arg_def assms Let_def bind_sum_assoc simp del: find_char_None)
qed simp

text \<open>With one word of user input (and with any codes in any arguments) the expansion is
  the expansion of each argument on its own, and fails exactly where one of them fails.\<close>

theorem expand_field_codes_one_word:
  assumes "w \<noteq> []" "SPACE \<notin> set w"
  shows "expand_field_codes args app w = expand_args app [w] args"
  using expand_field_codes_loop_single [OF user_words_single [OF assms], of app "[]" args]
  by (cases "expand_args app [w] args") (simp_all add: expand_field_codes_def)

theorem expand_field_codes_one_word_witness:
  "expand_field_codes [''vlc'', ''--x=%%'', ''%U''] ((empty_application ''p'')\<lparr>app_name := ''VLC''\<rparr>) ''a.ogg'' =
     expand_args ((empty_application ''p'')\<lparr>app_name := ''VLC''\<rparr>) [''a.ogg''] [''vlc'', ''--x=%%'', ''%U'']"
  by (rule expand_field_codes_one_word) simp_all

text \<open>
  Codes that stand for the user's input are the ones after which the iterator may pass over
  an argument. An argument without them is handled alike whatever the input is.
\<close>

definition takes_input :: "string \<Rightarrow> bool" where
  "takes_input arg \<longleftrightarrow>
     (case find_char (CHR ''%'') arg of
        None \<Rightarrow> False
      | Some pos \<Rightarrow> pos \<noteq> length arg - 1 \<and> arg ! (pos + 1) \<in> set ''fFuU'')"

lemma expand_field_codes_loop_no_input:
  "\<not> takes_input arg \<Longrightarrow>
     expand_field_codes_loop app ua before (arg # rest) =
       bind_sum (expand_arg app ws arg) (\<lambda>xs. expand_field_codes_loop app ua (before @ xs) rest)"
proof (cases "find_char (CHR ''%'') arg")
  case (Some pos)
  assume "\<not> takes_input arg"
  with Some have input: "pos = length arg - 1 \<or> arg ! (pos + 1) \<notin> set ''fFuU''"
    by (simp add: takes_input_def)
  show ?thesis
  proof (cases "pos = length arg - 1")
    case False
    with input have code: "(arg ! (pos + 1) \<in> set ''fFuU'') = False" by blast
    have bind_if: "bind_sum (if c then x else y) f = (if c then bind_sum x f else bind_sum y f)"
      for c and x y :: "fault + string list" and f :: "string list \<Rightarrow> fault + string list" by simp
    show ?thesis
      using False
      by (simp only: expand_field_codes_loop.simps expand_arg_def Some option.case Let_def code if_False
          bind_if bind_sum_simps)
  qed (simp add: expand_arg_def Some)
qed (simp add: expand_arg_def)

lemma expand_field_codes_loop_prefix:
  "\<forall>a \<in> set args. \<not> takes_input a \<Longrightarrow>
     expand_field_codes_loop app ua before (args @ rest) =
       bind_sum (expand_args app ws args)
         (\<lambda>ys. expand_field_codes_loop app ua (before @ ys) rest)"
proof (induction args arbitrary: before)
  case (Cons arg args)
  then show ?case
    using expand_field_codes_loop_no_input [of arg app ua before "args @ rest" ws]
    by (simp add: bind_sum_assoc)
qed simp

text \<open>
  The argument after a removed \<open>%U\<close> is never looked at: it stays as it is in the file.
\<close>

text \<open>Without user input, the argument that follows a removed \<open>%f\<close>, \<open>%F\<close>, \<open>%u\<close> or
  \<open>%U\<close> keeps its field codes: the loop steps over it (and over nothing else).\<close>

theorem expand_field_codes_skips_after_removed:
  assumes "\<forall>a \<in> set pre. \<not> takes_input a" "\<forall>a \<in> set post. \<not> takes_input a"
    "code \<in> {''%f'', ''%F'', ''%u'', ''%U''}"
  shows "expand_field_codes (pre @ code # skipped # post) app [] =
    bind_sum (expand_args app [] pre) (\<lambda>xs.
      bind_sum (expand_args app [] post) (\<lambda>ys. Inr (xs @ skipped # ys)))"
proof -
  have uw: "user_words [] = []" by (simp add: user_words_def split_no_delimiter)
  have post: "expand_field_codes_loop app [] b post = bind_sum (expand_args app [] post) (\<lambda>ys. Inr (b @ ys))" for b
    using expand_field_codes_loop_prefix [OF assms(2), of app "[]" b "[]"] by simp
  have "expand_field_codes_loop app [] b (code # skipped # post) =
      expand_field_codes_loop app [] (b @ [skipped]) post" for b
    using assms(3) uw by auto
  then show ?thesis
    unfolding expand_field_codes_def
    by (simp add: expand_field_codes_loop_prefix [OF assms(1), of app "[]" "[]" _ "[]"] post)
qed

theorem expand_field_codes_skips_after_removed_witness:
  "expand_field_codes ([''prog''] @ ''%U'' # ''--title=%c'' # [''%k'']) ((empty_application ''/p'')\<lparr>app_name := ''N''\<rparr>) [] =
   Inr [''prog'', ''--title=%c'', ''/p'']"
proof -
  have "expand_args ((empty_application ''/p'')\<lparr>app_name := ''N''\<rparr>) [] [''prog''] = Inr [''prog'']"
    "expand_args ((empty_application ''/p'')\<lparr>app_name := ''N''\<rparr>) [] [''%k''] = Inr [''/p'']"
    by code_simp+
  then show ?thesis
    by (subst expand_field_codes_skips_after_removed) (simp_all add: takes_input_def)
qed

text \<open>
  Two further deviations, on concrete input: one word of input keeps the spaces around it,
  and with several words the text after the code is dropped when the number of arguments is
  not larger than the position after the code.
\<close>

lemma expand_field_codes_keeps_space:
  "expand_field_codes [''vim'', ''%f''] (empty_application ''p'') '' notes.txt'' =
     Inr [''vim'', '' notes.txt'']"
  by code_simp

lemma expand_field_codes_loses_suffix:
  "expand_field_codes [''vim'', ''%f.txt''] (empty_application ''p'') ''a b'' =
     Inr [''vim'', ''a'', ''b'']"
  by code_simp

end
