(* ===== verification/Formatters.thy ===== *)
theory Formatters
  imports Application
begin

text \<open>
  \<open>src/Formatters.cc\<close>: how an application name is shown in the menu. The interface every
  formatter offers to the menu, that different names are shown differently, is a locale,
  interpreted on each of the three formatters.
\<close>

type_synonym application_formatter = "string \<Rightarrow> Application \<Rightarrow> string"

definition appformatter_default :: application_formatter where
  "appformatter_default nm app = nm"

text \<open>\<open>s.substr(0, n)\<close> for a position \<open>n\<close> that may be \<open>npos\<close>.\<close>

definition substr_to :: "string \<Rightarrow> nat option \<Rightarrow> string" where
  "substr_to s n = (case n of None \<Rightarrow> s | Some i \<Rightarrow> take i s)"

definition appformatter_with_binary_name :: application_formatter where
  "appformatter_with_binary_name nm app =
     nm @ '' ('' @ substr_to (app_exec app) (find_char SPACE (app_exec app)) @ '')''"

text \<open>
  \<open>exec.rfind('/', command_end)\<close> looks at the positions up to and including
  \<open>command_end\<close>.
\<close>

definition appformatter_with_base_binary_name :: application_formatter where
  "appformatter_with_base_binary_name nm app =
     (let exec = app_exec app;
          command_end = find_char SPACE exec;
          last_slash =
            (case rfind_char (CHR ''/'')
                    (case command_end of None \<Rightarrow> exec | Some e \<Rightarrow> take (Suc e) exec) of
               None \<Rightarrow> 0 | Some i \<Rightarrow> i + 1);
          count = map_option (\<lambda>e. e - last_slash) command_end
      in nm @ '' ('' @ substr_to (drop last_slash exec) count @ '')'')"

section \<open>Formatters keep names apart\<close>

locale name_formatter =
  fixes format :: application_formatter
  assumes format_inject: "format n a = format n' a' \<Longrightarrow> n = n'"
begin

lemma format_distinct:
  "distinct (map fst xs) \<Longrightarrow> distinct (map (\<lambda>(n, a). format n a) xs)"
proof (induction xs)
  case (Cons x xs)
  obtain n a where x: "x = (n, a)" by force
  have "format n a \<notin> set (map (\<lambda>(n, a). format n a) xs)"
  proof
    assume "format n a \<in> set (map (\<lambda>(n, a). format n a) xs)"
    then obtain n' a' where "(n', a') \<in> set xs" "format n a = format n' a'" by auto
    with format_inject have "n \<in> fst ` set xs" by force
    with Cons.prems x show False by simp
  qed
  with Cons x show ?case by simp
qed simp

lemma format_eq_iff [simp]: "format n a = format n' a \<longleftrightarrow> n = n'"
  using format_inject by blast

end

interpretation default_format: name_formatter appformatter_default
  by unfold_locales (simp add: appformatter_default_def)

lemma append_last_sep:
  assumes "a @ c # b = a' @ c # b'" "c \<notin> set b" "c \<notin> set b'"
  shows "a = a' \<and> b = b'"
proof -
  have "rev b @ c # rev a = rev b' @ c # rev a'"
    using arg_cong [OF assms(1), of rev] by simp
  with append_same_sep [of "rev b" c "rev a" "rev b'" "rev a'"] assms(2,3) show ?thesis by simp
qed

text \<open>The text in parentheses has no space, so the last space of a formatted name ends the name.\<close>

lemma parenthesised_inject:
  assumes "n @ '' ('' @ b @ '')'' = n' @ '' ('' @ b' @ '')''" "SPACE \<notin> set b" "SPACE \<notin> set b'"
  shows "n = n'"
  using append_last_sep [of n SPACE "''('' @ b @ '')''" n' "''('' @ b' @ '')''"] assms by simp

lemma substr_to_find_no_space: "SPACE \<notin> set (substr_to s (find_char SPACE s))"
  by (auto simp: substr_to_def dest: find_char_Some split: option.splits)

interpretation binary_format: name_formatter appformatter_with_binary_name
proof unfold_locales
  fix n a n' a'
  assume "appformatter_with_binary_name n a = appformatter_with_binary_name n' a'"
  then show "n = n'"
    unfolding appformatter_with_binary_name_def
    by (rule parenthesised_inject) (rule substr_to_find_no_space)+
qed

lemma base_binary_no_space:
  "SPACE \<notin> set (substr_to (drop k s) (map_option (\<lambda>e. e - k) (find_char SPACE s)))"
proof (cases "find_char SPACE s")
  case None
  then have "SPACE \<notin> set s" by simp
  then show ?thesis by (auto simp: substr_to_def dest: in_set_dropD)
next
  case (Some e)
  then have "SPACE \<notin> set (take e s)" using find_char_Some by blast
  moreover have "take (e - k) (drop k s) = drop k (take e s)" by (simp add: drop_take)
  ultimately show ?thesis using Some by (auto simp: substr_to_def dest: in_set_dropD)
qed

interpretation base_binary_format: name_formatter appformatter_with_base_binary_name
proof unfold_locales
  fix n a n' a'
  assume "appformatter_with_base_binary_name n a = appformatter_with_base_binary_name n' a'"
  then show "n = n'"
    unfolding appformatter_with_base_binary_name_def Let_def
    by (rule parenthesised_inject) (rule base_binary_no_space)+
qed

text \<open>The binary of an \<open>Exec\<close> key with an absolute path is shown as its base name.\<close>

lemma base_binary_name:
  assumes "CHR ''/'' \<notin> set b" "SPACE \<notin> set b" "SPACE \<notin> set d"
    "app_exec app = d @ CHR ''/'' # b \<or> app_exec app = d @ CHR ''/'' # b @ SPACE # args"
  shows "appformatter_with_base_binary_name nm app = nm @ '' ('' @ b @ '')''"
proof -
  have rf: "rfind_char (CHR ''/'') (d @ CHR ''/'' # t) = Some (length d)" if "CHR ''/'' \<notin> set t" for t
    using that by (induction d) auto
  show ?thesis
  proof (cases "app_exec app = d @ CHR ''/'' # b")
    case True
    then show ?thesis
      using assms rf [of b]
      by (simp add: appformatter_with_base_binary_name_def substr_to_def)
  next
    case False
    then have e: "app_exec app = (d @ CHR ''/'' # b) @ SPACE # args" using assms(4) by simp
    then have "find_char SPACE (app_exec app) = Some (length (d @ CHR ''/'' # b))"
      using assms(2,3) find_char_append [of SPACE "d @ CHR ''/'' # b" args] by simp
    moreover have "take (Suc (length (d @ CHR ''/'' # b))) (app_exec app) = d @ CHR ''/'' # (b @ [SPACE])"
      using e by simp
    ultimately show ?thesis
      using assms e rf [of "b @ [SPACE]"]
      by (simp add: appformatter_with_base_binary_name_def substr_to_def)
  qed
qed

end
