(* ===== verification/UnorderedMap.thy ===== *)
theory UnorderedMap
  imports J4Prelude "HOL-Library.Multiset"
begin

text \<open>
  The operations of \<open>std::unordered_map\<close> the program uses, on the list of the map's elements
  in the order an iteration would meet them. That order is unspecified: clients may rely on
  nothing but the contract of the locale, and \<open>reordered\<close> relates two iteration orders of the
  same map.
\<close>

section \<open>The operations\<close>

definition um_find :: "('k \<times> 'v) list \<Rightarrow> 'k \<Rightarrow> 'v option" where
  "um_find m k = map_of m k"

definition um_try_emplace :: "'k \<Rightarrow> 'v \<Rightarrow> ('k \<times> 'v) list \<Rightarrow> ('k \<times> 'v) list" where
  "um_try_emplace k v m = (case um_find m k of None \<Rightarrow> m @ [(k, v)] | Some _ \<Rightarrow> m)"

definition um_erase :: "'k \<Rightarrow> ('k \<times> 'v) list \<Rightarrow> ('k \<times> 'v) list" where
  "um_erase k m = filter (\<lambda>e. fst e \<noteq> k) m"

text \<open>Assignment through a reference to the value of a key.\<close>

definition um_assign :: "'k \<Rightarrow> 'v \<Rightarrow> ('k \<times> 'v) list \<Rightarrow> ('k \<times> 'v) list" where
  "um_assign k v m = map (\<lambda>e. if fst e = k then (k, v) else e) m"

definition um_keys_unique :: "('k \<times> 'v) list \<Rightarrow> bool" where
  "um_keys_unique m = distinct (map fst m)"

definition reordered :: "('k \<times> 'v) list \<Rightarrow> ('k \<times> 'v) list \<Rightarrow> bool" where
  "reordered m m' \<longleftrightarrow> mset m = mset m'"

section \<open>The contract\<close>

locale unordered_map =
  fixes find :: "'m \<Rightarrow> 'k \<Rightarrow> 'v option"
    and try_emplace :: "'k \<Rightarrow> 'v \<Rightarrow> 'm \<Rightarrow> 'm"
    and erase :: "'k \<Rightarrow> 'm \<Rightarrow> 'm"
    and assign :: "'k \<Rightarrow> 'v \<Rightarrow> 'm \<Rightarrow> 'm"
    and valid :: "'m \<Rightarrow> bool"
  assumes find_try_emplace:
      "find (try_emplace k v m) x = (if x = k \<and> find m k = None then Some v else find m x)"
    and find_erase: "find (erase k m) x = (if x = k then None else find m x)"
    and find_assign:
      "find (assign k v m) x = (if x = k \<and> find m k \<noteq> None then Some v else find m x)"
    and valid_try_emplace: "valid m \<Longrightarrow> valid (try_emplace k v m)"
    and valid_erase: "valid m \<Longrightarrow> valid (erase k m)"
    and valid_assign: "valid m \<Longrightarrow> valid (assign k v m)"
begin

text \<open>Erasing a key and inserting it again is how the code replaces a key and its value.\<close>

lemma find_replace: "find (try_emplace k v (erase k m)) = (find m)(k \<mapsto> v)"
  by (auto simp: find_try_emplace find_erase)

lemma find_emplace_new: "find m k = None \<Longrightarrow> find (try_emplace k v m) = (find m)(k \<mapsto> v)"
  by (auto simp: find_try_emplace)

lemma find_emplace_old: "find m k \<noteq> None \<Longrightarrow> find (try_emplace k v m) = find m"
  by (auto simp: find_try_emplace)

lemma find_erase_map: "find (erase k m) = (find m)(k := None)"
  by (auto simp: find_erase)

lemma find_assign_map: "find m k \<noteq> None \<Longrightarrow> find (assign k v m) = (find m)(k \<mapsto> v)"
  by (auto simp: find_assign)

lemma valid_replace: "valid m \<Longrightarrow> valid (try_emplace k v (erase k m))"
  by (intro valid_try_emplace valid_erase)

lemmas find_maps = find_replace find_emplace_new find_emplace_old find_erase_map find_assign_map
lemmas valid_maps = valid_replace valid_try_emplace valid_erase valid_assign

end

lemma map_of_um_erase: "map_of (um_erase k m) x = (if x = k then None else map_of m x)"
  by (induction m) (auto simp: um_erase_def)

lemma map_of_um_assign:
  "map_of (um_assign k v m) x = (if x = k \<and> map_of m k \<noteq> None then Some v else map_of m x)"
  by (induction m) (auto simp: um_assign_def)

interpretation um: unordered_map um_find um_try_emplace um_erase um_assign um_keys_unique
proof unfold_locales
  show "um_find (um_try_emplace k v m) x = (if x = k \<and> um_find m k = None then Some v else um_find m x)"
    for k :: 'k and v :: 'v and m x
    by (auto simp: um_find_def um_try_emplace_def map_add_def split: option.splits)
  show "um_find (um_erase k m) x = (if x = k then None else um_find m x)"
    for k :: 'k and m :: "('k \<times> 'v) list" and x
    by (simp add: um_find_def map_of_um_erase)
  show "um_find (um_assign k v m) x = (if x = k \<and> um_find m k \<noteq> None then Some v else um_find m x)"
    for k :: 'k and v :: 'v and m x
    by (simp add: um_find_def map_of_um_assign)
  show "um_keys_unique m \<Longrightarrow> um_keys_unique (um_try_emplace k v m)" for k :: 'k and v :: 'v and m
    by (auto simp: um_keys_unique_def um_try_emplace_def um_find_def map_of_eq_None_iff
        split: option.splits)
  show "um_keys_unique m \<Longrightarrow> um_keys_unique (um_erase k m)"
    for k :: 'k and m :: "('k \<times> 'v) list"
    by (auto simp: um_keys_unique_def um_erase_def distinct_map_filter)
  show "um_keys_unique m \<Longrightarrow> um_keys_unique (um_assign k v m)" for k :: 'k and v :: 'v and m
  proof -
    have "map fst (um_assign k v m) = map fst m" by (induction m) (auto simp: um_assign_def)
    then show "um_keys_unique m \<Longrightarrow> um_keys_unique (um_assign k v m)"
      by (simp add: um_keys_unique_def)
  qed
qed

section \<open>Iteration orders\<close>

lemma reordered_refl [simp]: "reordered m m"
  by (simp add: reordered_def)

lemma reordered_keys_unique:
  assumes "reordered m m'" "um_keys_unique m"
  shows "um_keys_unique m'"
proof -
  have "mset (map fst m) = mset (map fst m')" 
    using assms(1) unfolding reordered_def mset_map by (rule arg_cong)
  from mset_eq_imp_distinct_iff [OF this] assms(2) show ?thesis
    unfolding um_keys_unique_def by (rule iffD1)
qed

lemma reordered_find:
  assumes "reordered m m'" "um_keys_unique m"
  shows "um_find m' = um_find m"
proof -
  have u: "distinct (map fst m)" "distinct (map fst m')"
    using assms(2) reordered_keys_unique [OF assms] by (simp_all only: um_keys_unique_def)
  have "set m' = set m" using assms(1) unfolding reordered_def by (rule sym [OF mset_eq_setD])
  then have "map_of m' = map_of m" using map_of_inject_set [OF u(2) u(1)] by blast
  then show ?thesis by (simp add: um_find_def fun_eq_iff)
qed

lemma um_find_in_set: "um_keys_unique m \<Longrightarrow> um_find m k = Some v \<longleftrightarrow> (k, v) \<in> set m"
  by (simp add: um_find_def um_keys_unique_def)

end
