(* ===== verification/AppManager.thy ===== *)
theory AppManager
  imports Application CMDLineAssembler UnorderedMap
begin

text \<open>
  \<open>src/AppManager.hh\<close> and \<open>src/AppManager.cc\<close>: the container of the loaded desktop files.
  The address of an \<open>Application\<close> inside \<open>applications\<close> (an \<open>unordered_map\<close>, whose nodes
  do not move) is modelled by the desktop ID of its node. A key of \<open>name_app_mapping\<close> is a
  \<open>string_view\<close>: beside its text it has an owner, the node and the field it points into.
\<close>

section \<open>Data\<close>

datatype NameType = Name | Generic_name

record Managed_application =
  ma_app :: "Application option"
  ma_rank :: int

record Desktop_file_rank =
  base_path :: string
  rank_files :: "string list"

record Resolved_application =
  ra_app :: string
  ra_is_generic :: bool

text \<open>An element of \<open>name_app_mapping\<close>: the owner of its key, and its value.\<close>

record name_element =
  key_node :: string
  key_field :: NameType
  resolved :: Resolved_application

record AppManager =
  applications :: "(string \<times> Managed_application) list"
  name_app_mapping :: "(string \<times> name_element) list"

definition INT_MAX :: int where "INT_MAX = 2147483647"

text \<open>What the constructor keeps and never changes: the file system, the locale, the desktops.\<close>

record manager_env =
  env_files :: "string \<Rightarrow> string option"
  env_suffixes :: LocaleSuffixes
  env_desktops :: "string list"

definition load_app :: "manager_env \<Rightarrow> string \<Rightarrow> app_error + Application" where
  "load_app env filename =
     Application_ctor (env_files env) filename (env_suffixes env) (env_desktops env)"

definition name_element_of :: "string \<Rightarrow> NameType \<Rightarrow> name_element" where
  "name_element_of ID N =
     \<lparr>key_node = ID, key_field = N, resolved = \<lparr>ra_app = ID, ra_is_generic = (N = Generic_name)\<rparr>\<rparr>"

fun name_of :: "NameType \<Rightarrow> Application \<Rightarrow> string" where
  "name_of Name app = app_name app"
| "name_of Generic_name app = app_generic_name app"

section \<open>Desktop IDs\<close>

definition get_desktop_id :: "string \<Rightarrow> string" where
  "get_desktop_id filename = map (\<lambda>c. if c = CHR ''/'' then CHR ''-'' else c) filename"

definition get_desktop_id_base :: "string \<Rightarrow> string \<Rightarrow> fault + string" where
  "get_desktop_id_base filename base =
     (if length filename < length base then Inl Out_of_range
      else Inr (get_desktop_id (drop (length base) filename)))"

fun validate_files :: "string \<Rightarrow> string list \<Rightarrow> bool" where
  "validate_files base [] = True"
| "validate_files base (file # fs) =
     (if file = [] then False
      else if \<not> startswith file base then False
      else validate_files base fs)"

fun validate_desktop_file_list :: "Desktop_file_rank list \<Rightarrow> bool" where
  "validate_desktop_file_list [] = True"
| "validate_desktop_file_list (r # rs) =
     (if base_path r = [] then False
      else if last (base_path r) \<noteq> CHR ''/'' then False
      else validate_files (base_path r) (rank_files r) \<and> validate_desktop_file_list rs)"

section \<open>Name mappings\<close>

text \<open>
  The search for a replacement in \<open>remove_name_mapping\<close>: the rank of the best match so far
  and the match. Elements of the same rank do not replace it, so the choice among them
  depends on the iteration order.
\<close>

fun best_match ::
  "string \<Rightarrow> string \<Rightarrow> (string \<times> Managed_application) list \<Rightarrow> int \<Rightarrow> (string \<times> NameType) option \<Rightarrow>
     int \<times> (string \<times> NameType) option" where
  "best_match self nm [] best_rank best = (best_rank, best)"
| "best_match self nm ((ID, m) # ms) best_rank best =
     (case ma_app m of
        None \<Rightarrow> best_match self nm ms best_rank best
      | Some app \<Rightarrow>
          if app_name app = nm \<or> app_generic_name app = nm then
            (if ID = self then best_match self nm ms best_rank best
             else if ma_rank m \<ge> best_rank then best_match self nm ms best_rank best
             else best_match self nm ms (ma_rank m)
               (Some (ID, if app_name app = nm then Name else Generic_name)))
          else best_match self nm ms best_rank best)"

text \<open>A call on an empty application dereferences an empty \<open>optional\<close>.\<close>

definition remove_name_mapping :: "NameType \<Rightarrow> string \<Rightarrow> AppManager \<Rightarrow> fault + AppManager" where
  "remove_name_mapping N ID st =
     (case um_find (applications st) ID of
        None \<Rightarrow> Inl Undefined
      | Some to_remove \<Rightarrow>
          (case ma_app to_remove of
             None \<Rightarrow> Inl Undefined
           | Some app \<Rightarrow>
               let nm = name_of N app in
               case um_find (name_app_mapping st) nm of
                 None \<Rightarrow> Inl Aborted
               | Some e \<Rightarrow>
                   if ra_app (resolved e) = ID then
                     (let mapping = um_erase nm (name_app_mapping st);
                          (best_rank, best) = best_match ID nm (applications st) INT_MAX None
                      in if best_rank \<noteq> INT_MAX then
                           (case best of
                              None \<Rightarrow> Inl Undefined
                            | Some (bID, bN) \<Rightarrow>
                                Inr (st\<lparr>name_app_mapping :=
                                  um_try_emplace nm (name_element_of bID bN) mapping\<rparr>))
                         else Inr (st\<lparr>name_app_mapping := mapping\<rparr>))
                   else Inr st))"

definition replace_name_mapping :: "NameType \<Rightarrow> string \<Rightarrow> AppManager \<Rightarrow> fault + AppManager" where
  "replace_name_mapping N ID st =
     (case um_find (applications st) ID of
        None \<Rightarrow> Inl Undefined
      | Some to_add \<Rightarrow>
          (case ma_app to_add of
             None \<Rightarrow> Inl Undefined
           | Some app \<Rightarrow>
               let nm = name_of N app; el = name_element_of ID N in
               case um_find (name_app_mapping st) nm of
                 None \<Rightarrow> Inr (st\<lparr>name_app_mapping := um_try_emplace nm el (name_app_mapping st)\<rparr>)
               | Some e \<Rightarrow>
                   (case um_find (applications st) (ra_app (resolved e)) of
                      None \<Rightarrow> Inl Aborted
                    | Some colliding \<Rightarrow>
                        if ma_app colliding = None then Inl Aborted
                        else if ma_rank to_add < ma_rank colliding then
                          Inr (st\<lparr>name_app_mapping :=
                            um_try_emplace nm el (um_erase nm (name_app_mapping st))\<rparr>)
                        else Inr st)))"

text \<open>Both names of an application, the generic one only where it has one.\<close>

definition for_names ::
  "(NameType \<Rightarrow> string \<Rightarrow> AppManager \<Rightarrow> fault + AppManager) \<Rightarrow> string \<Rightarrow> Application \<Rightarrow>
     AppManager \<Rightarrow> fault + AppManager" where
  "for_names f ID app st =
     bind_sum (f Name ID st)
       (\<lambda>st'. if app_generic_name app \<noteq> [] then f Generic_name ID st' else Inr st')"

section \<open>Construction\<close>

text \<open>One file of one rank in the constructor; \<open>wine\<close> is \<open>wine_compatibility_mode\<close>.\<close>

definition ctor_file ::
  "manager_env \<Rightarrow> bool \<Rightarrow> int \<Rightarrow> string \<Rightarrow> string \<Rightarrow> AppManager \<Rightarrow> fault + AppManager" where
  "ctor_file env wine rank base filename st =
     bind_sum (get_desktop_id_base filename base) (\<lambda>ID.
       case um_find (applications st) ID of
         Some _ \<Rightarrow> Inr st
       | None \<Rightarrow>
           (case load_app env filename of
              Inl (Disabled_error what) \<Rightarrow>
                Inr (st\<lparr>applications := um_try_emplace ID \<lparr>ma_app = None, ma_rank = rank\<rparr>
                  (applications st)\<rparr>)
            | Inl _ \<Rightarrow> Inr st
            | Inr app \<Rightarrow>
                if \<not> wine \<and> validate_exec_key (app_exec app) \<noteq> None then Inr st
                else
                  (let st1 = st\<lparr>applications := um_try_emplace ID
                         \<lparr>ma_app = Some app, ma_rank = rank\<rparr> (applications st)\<rparr>;
                       st2 = st1\<lparr>name_app_mapping := um_try_emplace (app_name app)
                         (name_element_of ID Name) (name_app_mapping st1)\<rparr>
                   in Inr (if app_generic_name app \<noteq> [] then
                        st2\<lparr>name_app_mapping := um_try_emplace (app_generic_name app)
                          (name_element_of ID Generic_name) (name_app_mapping st2)\<rparr>
                      else st2))))"

fun ctor_files ::
  "manager_env \<Rightarrow> bool \<Rightarrow> int \<Rightarrow> string \<Rightarrow> string list \<Rightarrow> AppManager \<Rightarrow> fault + AppManager" where
  "ctor_files env wine rank base [] st = Inr st"
| "ctor_files env wine rank base (f # fs) st =
     bind_sum (ctor_file env wine rank base f st) (ctor_files env wine rank base fs)"

fun ctor_ranks ::
  "manager_env \<Rightarrow> bool \<Rightarrow> int \<Rightarrow> Desktop_file_rank list \<Rightarrow> AppManager \<Rightarrow> fault + AppManager" where
  "ctor_ranks env wine rank [] st = Inr st"
| "ctor_ranks env wine rank (r # rs) st =
     bind_sum (ctor_files env wine rank (base_path r) (rank_files r) st)
       (ctor_ranks env wine (rank + 1) rs)"

definition AppManager_ctor ::
  "manager_env \<Rightarrow> bool \<Rightarrow> Desktop_file_rank list \<Rightarrow> fault + AppManager" where
  "AppManager_ctor env wine files =
     (if int (length files) > INT_MAX then Inl (Exited EXIT_FAILURE)
      else ctor_ranks env wine 0 files \<lparr>applications = [], name_app_mapping = []\<rparr>)"

section \<open>Run-time changes\<close>

definition AppManager_remove :: "string \<Rightarrow> string \<Rightarrow> AppManager \<Rightarrow> fault + AppManager" where
  "AppManager_remove filename base st =
     bind_sum (get_desktop_id_base filename base) (\<lambda>ID.
       case um_find (applications st) ID of
         None \<Rightarrow> Inr st
       | Some m \<Rightarrow>
           bind_sum
             (case ma_app m of
                None \<Rightarrow> Inr st
              | Some app \<Rightarrow> for_names remove_name_mapping ID app st)
             (\<lambda>st'. Inr (st'\<lparr>applications := um_erase ID (applications st')\<rparr>)))"

definition AppManager_add ::
  "manager_env \<Rightarrow> string \<Rightarrow> string \<Rightarrow> int \<Rightarrow> AppManager \<Rightarrow> fault + AppManager" where
  "AppManager_add env filename base rank st =
     bind_sum (get_desktop_id_base filename base) (\<lambda>ID.
       case um_find (applications st) ID of
         Some m \<Rightarrow>
           (if ma_rank m < rank then Inr st
            else
              (let replace_app = (\<lambda>new_app.
                 bind_sum
                   (case ma_app m of
                      None \<Rightarrow> Inr st
                    | Some app \<Rightarrow> for_names remove_name_mapping ID app st)
                   (\<lambda>st1.
                     let st2 = st1\<lparr>applications := um_assign ID
                           \<lparr>ma_app = new_app, ma_rank = rank\<rparr> (applications st1)\<rparr>
                     in case new_app of
                          None \<Rightarrow> Inr st2
                        | Some app \<Rightarrow> for_names replace_name_mapping ID app st2))
               in case load_app env filename of
                    Inl (Disabled_error what) \<Rightarrow> replace_app None
                  | Inl _ \<Rightarrow> Inr st
                  | Inr app \<Rightarrow> replace_app (Some app)))
       | None \<Rightarrow>
           (case load_app env filename of
              Inl (Disabled_error what) \<Rightarrow>
                Inr (st\<lparr>applications := um_try_emplace ID \<lparr>ma_app = None, ma_rank = rank\<rparr>
                  (applications st)\<rparr>)
            | Inl _ \<Rightarrow> Inr st
            | Inr app \<Rightarrow>
                for_names replace_name_mapping ID app
                  (st\<lparr>applications := um_try_emplace ID
                     \<lparr>ma_app = Some app, ma_rank = rank\<rparr> (applications st)\<rparr>)))"

section \<open>Queries\<close>

definition AppManager_count :: "AppManager \<Rightarrow> nat" where
  "AppManager_count st = length (applications st)"

text \<open>\<open>lookup_by_ID\<close>: an empty application gives an empty \<open>optional\<close>.\<close>

definition lookup_by_ID :: "AppManager \<Rightarrow> string \<Rightarrow> Application option" where
  "lookup_by_ID st ID =
     (case um_find (applications st) ID of None \<Rightarrow> None | Some m \<Rightarrow> ma_app m)"

text \<open>Reading an \<open>Application\<close> through a pointer; \<open>None\<close> when it dangles.\<close>

definition deref :: "AppManager \<Rightarrow> string \<Rightarrow> Application option" where
  "deref st ptr = lookup_by_ID st ptr"

text \<open>
  \<open>view_name_app_mapping\<close>: the elements as a client reads them: the text of the key, the
  application and whether the name is generic. \<open>None\<close> where a pointer dangles.
\<close>

definition view_name_app_mapping :: "AppManager \<Rightarrow> (string \<times> Application option \<times> bool) list" where
  "view_name_app_mapping st =
     map (\<lambda>(n, e). (n, deref st (ra_app (resolved e)), ra_is_generic (resolved e)))
       (name_app_mapping st)"

text \<open>
  \<open>check_inner_state\<close>: the terminating NUL of a live string is there, so the two checks for
  it never fire on a live key; a dangling key is caught by the search for its owner.
\<close>

fun check_applications :: "(string \<times> Managed_application) list \<Rightarrow> fault + unit" where
  "check_applications [] = Inr ()"
| "check_applications ((ID, m) # ms) =
     (if ID = [] then Inl Aborted
      else if ma_rank m < 0 then Inl Aborted
      else if (case ma_app m of None \<Rightarrow> False | Some app \<Rightarrow> app_exec app = []) then Inl Aborted
      else check_applications ms)"

fun check_names ::
  "(string \<times> Managed_application) list \<Rightarrow> (string \<times> name_element) list \<Rightarrow> fault + unit" where
  "check_names apps [] = Inr ()"
| "check_names apps ((n, e) # es) =
     (if n = [] then Inl Aborted
      else if find (\<lambda>(ID, m). ma_app m \<noteq> None \<and> ID = key_node e) apps = None then Inl Aborted
      else if find (\<lambda>(ID, m). ma_app m \<noteq> None \<and> ID = ra_app (resolved e)) apps = None then
        Inl Aborted
      else check_names apps es)"

definition check_inner_state :: "AppManager \<Rightarrow> fault + unit" where
  "check_inner_state st =
     bind_sum (check_applications (applications st))
       (\<lambda>_. check_names (applications st) (name_app_mapping st))"

end
