(* ===== verification/AppManagerFacts.thy ===== *)
theory AppManagerFacts
  imports AppManager ApplicationFacts
begin

text \<open>
  The invariant of \<open>AppManager\<close>, kept by its operations as long as they return: every name
  of a loaded application is listed once, belongs to the application it points to, and that
  application has the lowest rank among those that carry the name. No key and no pointer of
  the name mapping ever dangles.
\<close>

named_theorems manager_simps \<open>unfolding the state of the manager\<close>

section \<open>The name table\<close>

text \<open>The field in which the application of a node carries a name; Name wins.\<close>

definition name_field :: "(string \<Rightarrow> Managed_application option) \<Rightarrow> string \<Rightarrow> string \<Rightarrow> NameType option" where
  "name_field A ID n =
     (case A ID of
        None \<Rightarrow> None
      | Some m \<Rightarrow>
          (case ma_app m of
             None \<Rightarrow> None
           | Some app \<Rightarrow>
               if n = [] then None
               else if app_name app = n then Some Name
               else if app_generic_name app = n then Some Generic_name
               else None))"

definition rank_at :: "(string \<Rightarrow> Managed_application option) \<Rightarrow> string \<Rightarrow> int" where
  "rank_at A ID = (case A ID of None \<Rightarrow> INT_MAX | Some m \<Rightarrow> ma_rank m)"

text \<open>\<open>X\<close> holds the (node, name) pairs that are being taken out or not yet put in.\<close>

definition live ::
  "(string \<Rightarrow> Managed_application option) \<Rightarrow> (string \<times> string) set \<Rightarrow> string \<Rightarrow> string \<Rightarrow> bool" where
  "live A X ID n \<longleftrightarrow> name_field A ID n \<noteq> None \<and> (ID, n) \<notin> X"

definition entry_ok ::
  "(string \<Rightarrow> Managed_application option) \<Rightarrow> (string \<times> string) set \<Rightarrow> string \<Rightarrow>
     name_element option \<Rightarrow> bool" where
  "entry_ok A X n oe =
     (case oe of
        None \<Rightarrow> \<forall>ID. \<not> live A X ID n
      | Some e \<Rightarrow>
          \<exists>ID N. e = name_element_of ID N \<and> name_field A ID n = Some N \<and> live A X ID n \<and>
            (\<forall>i. live A X i n \<longrightarrow> rank_at A ID \<le> rank_at A i))"

definition table_ok ::
  "(string \<Rightarrow> Managed_application option) \<Rightarrow> (string \<times> string) set \<Rightarrow>
     (string \<Rightarrow> name_element option) \<Rightarrow> bool" where
  "table_ok A X M \<longleftrightarrow> (\<forall>n. entry_ok A X n (M n))"

definition apps_ok :: "(string \<Rightarrow> Managed_application option) \<Rightarrow> bool" where
  "apps_ok A \<longleftrightarrow>
     (\<forall>ID m. A ID = Some m \<longrightarrow> 0 \<le> ma_rank m \<and> ma_rank m < INT_MAX \<and>
        (\<forall>app. ma_app m = Some app \<longrightarrow> app_name app \<noteq> []))"

definition consistent :: "(string \<times> string) set \<Rightarrow> AppManager \<Rightarrow> bool" where
  "consistent X st \<longleftrightarrow>
     um_keys_unique (applications st) \<and> um_keys_unique (name_app_mapping st) \<and>
     apps_ok (um_find (applications st)) \<and>
     table_ok (um_find (applications st)) X (um_find (name_app_mapping st))"

definition well_formed :: "AppManager \<Rightarrow> bool" where
  "well_formed st \<longleftrightarrow> consistent {} st"

lemma name_element_of_simps [simp]:
  "ra_app (resolved (name_element_of ID N)) = ID"
  "key_node (name_element_of ID N) = ID"
  "key_field (name_element_of ID N) = N"
  "ra_is_generic (resolved (name_element_of ID N)) \<longleftrightarrow> N = Generic_name"
  by (simp_all add: name_element_of_def)

lemma name_element_of_inject [simp]:
  "name_element_of ID N = name_element_of ID' N' \<longleftrightarrow> ID = ID' \<and> N = N'"
  by (auto simp: name_element_of_def)

lemma name_field_SomeD:
  "name_field A ID n = Some N \<Longrightarrow>
     \<exists>m app. A ID = Some m \<and> ma_app m = Some app \<and> n \<noteq> [] \<and> name_of N app = n"
  by (auto simp: name_field_def split: option.splits if_splits)

lemma name_field_app:
  "A ID = Some m \<Longrightarrow> ma_app m = Some app \<Longrightarrow>
     name_field A ID n =
       (if n = [] then None else if app_name app = n then Some Name
        else if app_generic_name app = n then Some Generic_name else None)"
  by (simp add: name_field_def)

lemma name_of_live:
  "A ID = Some m \<Longrightarrow> ma_app m = Some app \<Longrightarrow> name_of N app \<noteq> [] \<Longrightarrow>
     name_field A ID (name_of N app) \<noteq> None"
  by (cases N) (auto simp: name_field_app)

lemma name_field_upd_other [simp]: "j \<noteq> ID \<Longrightarrow> name_field (A(ID := x)) j n = name_field A j n"
  by (simp add: name_field_def)

lemma rank_at_upd_other [simp]: "j \<noteq> ID \<Longrightarrow> rank_at (A(ID := x)) j = rank_at A j"
  by (simp add: rank_at_def)

lemma name_field_None_node [simp]: "A ID = None \<Longrightarrow> name_field A ID n = None"
  by (simp add: name_field_def)

lemma entry_ok_cong:
  assumes "\<And>j. live A X j n = live A' X' j n"
    "\<And>j. live A X j n \<Longrightarrow> name_field A j n = name_field A' j n \<and> rank_at A j = rank_at A' j"
    "entry_ok A X n oe"
  shows "entry_ok A' X' n oe"
  using assms unfolding entry_ok_def by (cases oe) (simp, simp, metis)

lemma entry_ok_None [simp]: "entry_ok A X n None \<longleftrightarrow> (\<forall>ID. \<not> live A X ID n)"
  by (simp add: entry_ok_def)

lemma entry_ok_Some:
  "entry_ok A X n (Some e) \<longleftrightarrow>
     (\<exists>ID N. e = name_element_of ID N \<and> name_field A ID n = Some N \<and> live A X ID n \<and>
        (\<forall>i. live A X i n \<longrightarrow> rank_at A ID \<le> rank_at A i))"
  by (simp add: entry_ok_def)

lemma entry_ok_SomeI:
  "name_field A ID n = Some N \<Longrightarrow> live A X ID n \<Longrightarrow>
     (\<And>i. live A X i n \<Longrightarrow> rank_at A ID \<le> rank_at A i) \<Longrightarrow>
     entry_ok A X n (Some (name_element_of ID N))"
  by (auto simp: entry_ok_Some)

lemma table_ok_upd:
  assumes "table_ok A X M" "entry_ok A X' n e" "\<And>j n'. n' \<noteq> n \<Longrightarrow> (j, n') \<in> X \<longleftrightarrow> (j, n') \<in> X'"
  shows "table_ok A X' (M(n := e))"
  unfolding table_ok_def
proof
  fix n'
  show "entry_ok A X' n' ((M(n := e)) n')"
  proof (cases "n' = n")
    case True
    with assms(2) show ?thesis by simp
  next
    case False
    have "live A X j n' = live A X' j n'" for j using assms(3) False by (simp add: live_def)
    from entry_ok_cong [OF this, of "M n'"] assms(1) False show ?thesis
      by (simp add: table_ok_def)
  qed
qed

text \<open>An application all of whose names are taken out may be taken out itself, or put in.\<close>

definition names_at :: "(string \<Rightarrow> Managed_application option) \<Rightarrow> string \<Rightarrow> (string \<times> string) set" where
  "names_at A ID = {(i, n). i = ID \<and> name_field A ID n \<noteq> None}"

lemma table_ok_drop_node:
  "table_ok A (names_at A ID) M \<longleftrightarrow> table_ok (A(ID := x)) (names_at (A(ID := x)) ID) M"
proof -
  have l: "live A (names_at A ID) j n = live (A(ID := x)) (names_at (A(ID := x)) ID) j n" for j n
    by (cases "j = ID") (auto simp: live_def names_at_def)
  have s: "name_field A j n = name_field (A(ID := x)) j n \<and> rank_at A j = rank_at (A(ID := x)) j"
    if "live A (names_at A ID) j n" for j n
    using that by (cases "j = ID") (auto simp: live_def names_at_def)
  have s': "name_field (A(ID := x)) j n = name_field A j n \<and> rank_at (A(ID := x)) j = rank_at A j"
    if "live (A(ID := x)) (names_at (A(ID := x)) ID) j n" for j n
    using s l that by fastforce
  show ?thesis unfolding table_ok_def
    using entry_ok_cong [OF l s] entry_ok_cong [OF l [symmetric] s'] by blast
qed

lemma names_at_None [simp]: "A ID = None \<Longrightarrow> names_at A ID = {}"
  by (simp add: names_at_def)

lemma names_at_app:
  "A ID = Some m \<Longrightarrow> ma_app m = Some app \<Longrightarrow> app_name app \<noteq> [] \<Longrightarrow>
     names_at A ID = {(ID, app_name app)} \<union>
       (if app_generic_name app = [] then {} else {(ID, app_generic_name app)})"
  by (auto simp: names_at_def name_field_app)

lemma names_at_unpopulated: "A ID = Some m \<Longrightarrow> ma_app m = None \<Longrightarrow> names_at A ID = {}"
  by (simp add: names_at_def name_field_def)

section \<open>Taking a name out\<close>

text \<open>What the search knows of a list of nodes: those that carry the name, itself excepted.\<close>

definition candidate :: "string \<Rightarrow> string \<Rightarrow> string \<times> Managed_application \<Rightarrow> NameType option" where
  "candidate self nm e =
     (case ma_app (snd e) of
        None \<Rightarrow> None
      | Some app \<Rightarrow>
          if fst e = self then None
          else if app_name app = nm then Some Name
          else if app_generic_name app = nm then Some Generic_name
          else None)"

lemma best_match_spec:
  assumes "best_match self nm ms br best = (r, b)"
  shows "r \<le> br \<and> (\<forall>e \<in> set ms. candidate self nm e \<noteq> None \<longrightarrow> r \<le> ma_rank (snd e)) \<and>
     (r = br \<and> b = best \<or>
      (\<exists>e \<in> set ms. \<exists>N. candidate self nm e = Some N \<and> b = Some (fst e, N) \<and> r = ma_rank (snd e)
         \<and> r < br))"
  using assms
proof (induction self nm ms br best rule: best_match.induct)
  case (1 self nm br best)
  then show ?case by simp
next
  case (2 self nm ID m ms br best)
  show ?case
  proof (cases "candidate self nm (ID, m)")
    case None
    then have "best_match self nm ms br best = (r, b)"
      using "2.prems" by (auto simp: candidate_def split: option.splits if_splits)
    moreover have "best_match self nm ms br best = (r, b) \<Longrightarrow>
        r \<le> br \<and> (\<forall>e \<in> set ms. candidate self nm e \<noteq> None \<longrightarrow> r \<le> ma_rank (snd e)) \<and>
        (r = br \<and> b = best \<or>
         (\<exists>e \<in> set ms. \<exists>N. candidate self nm e = Some N \<and> b = Some (fst e, N) \<and>
            r = ma_rank (snd e) \<and> r < br))"
      using None "2.IH" by (cases "ma_app m") (fastforce simp: candidate_def split: if_splits)+
    ultimately show ?thesis using None by auto
  next
    case (Some N)
    then obtain app where app: "ma_app m = Some app" "ID \<noteq> self"
      and N: "N = (if app_name app = nm then Name else Generic_name)"
      and c: "app_name app = nm \<or> app_generic_name app = nm"
      by (auto simp: candidate_def split: option.splits if_splits)
    show ?thesis
    proof (cases "ma_rank m \<ge> br")
      case True
      then have "best_match self nm ms br best = (r, b)" using "2.prems" app c by simp
      from "2.IH"(3) [OF app(1) c app(2) True this] True show ?thesis by auto
    next
      case False
      then have "best_match self nm ms (ma_rank m) (Some (ID, N)) = (r, b)"
        using "2.prems" app c N by auto
      from "2.IH"(4) [OF app(1) c app(2) False, folded N, OF this] False Some show ?thesis by fastforce
    qed
  qed
qed

lemma candidate_name_field:
  assumes "um_keys_unique ms" "nm \<noteq> []" "e \<in> set ms"
  shows "candidate self nm e = (if fst e = self then None else name_field (um_find ms) (fst e) nm)"
proof -
  have "um_find ms (fst e) = Some (snd e)" using assms by (simp add: um_find_in_set)
  then show ?thesis using assms(2)
    by (auto simp: candidate_def name_field_def split: option.splits)
qed

lemma name_field_node: "name_field A ID n = Some N \<Longrightarrow> \<exists>m. A ID = Some m \<and> rank_at A ID = ma_rank m"
  by (auto simp: name_field_def rank_at_def split: option.splits)

lemma best_match_none:
  assumes u: "um_keys_unique ms" and ok: "apps_ok (um_find ms)" and n: "nm \<noteq> []"
    and bm: "best_match self nm ms INT_MAX None = (INT_MAX, b)"
  shows "j \<noteq> self \<Longrightarrow> name_field (um_find ms) j nm = None"
proof (rule ccontr)
  assume j: "j \<noteq> self" and "name_field (um_find ms) j nm \<noteq> None"
  then obtain N m where f: "name_field (um_find ms) j nm = Some N" and m: "um_find ms j = Some m"
    using name_field_node by (cases "name_field (um_find ms) j nm") fastforce+
  from m u have "(j, m) \<in> set ms" by (simp add: um_find_in_set)
  with best_match_spec [OF bm] candidate_name_field [OF u n, of "(j, m)" self] f j
  have "INT_MAX \<le> ma_rank m" by fastforce
  with ok m show False by (fastforce simp: apps_ok_def)
qed

lemma best_match_some:
  assumes u: "um_keys_unique ms" and n: "nm \<noteq> []"
    and bm: "best_match self nm ms INT_MAX None = (r, b)" "r \<noteq> INT_MAX"
  obtains j N where "b = Some (j, N)" "j \<noteq> self" "name_field (um_find ms) j nm = Some N"
    "\<And>i. i \<noteq> self \<Longrightarrow> name_field (um_find ms) i nm \<noteq> None \<Longrightarrow>
       rank_at (um_find ms) j \<le> rank_at (um_find ms) i"
proof -
  from best_match_spec [OF bm(1)] bm(2) obtain e N where e: "e \<in> set ms"
    "candidate self nm e = Some N" "b = Some (fst e, N)" "r = ma_rank (snd e)"
    and low: "\<And>e. e \<in> set ms \<Longrightarrow> candidate self nm e \<noteq> None \<Longrightarrow> r \<le> ma_rank (snd e)"
    by fastforce
  have f: "fst e \<noteq> self" "name_field (um_find ms) (fst e) nm = Some N"
    using candidate_name_field [OF u n e(1), of self] e(2) by (auto split: if_splits)
  have "um_find ms (fst e) = Some (snd e)" using e(1) u by (simp add: um_find_in_set)
  then have r: "rank_at (um_find ms) (fst e) = r" using e(4) by (simp add: rank_at_def)
  have "rank_at (um_find ms) (fst e) \<le> rank_at (um_find ms) i"
    if "i \<noteq> self" "name_field (um_find ms) i nm \<noteq> None" for i
  proof -
    from that(2) obtain m where m: "um_find ms i = Some m" "rank_at (um_find ms) i = ma_rank m"
      using name_field_node by fastforce
    then have s: "(i, m) \<in> set ms" using u by (simp add: um_find_in_set)
    with low [OF s] candidate_name_field [OF u n s, of self] that m r show ?thesis by simp
  qed
  with that [OF e(3) f] show thesis by blast
qed

text \<open>
  One call of \<open>remove_name_mapping\<close> on a node whose name is still in: it returns, and the
  name is handed to the best of the others.
\<close>

lemma remove_name_mapping_live:
  assumes c: "consistent X st" and X: "\<And>i n. (i, n) \<in> X \<Longrightarrow> i = ID"
    and m: "um_find (applications st) ID = Some m" "ma_app m = Some app"
    and n: "name_of N app \<noteq> []" "(ID, name_of N app) \<notin> X"
  shows "\<exists>st'. remove_name_mapping N ID st = Inr st' \<and> applications st' = applications st \<and>
    consistent (insert (ID, name_of N app) X) st'"
proof -
  let ?A = "um_find (applications st)" and ?M = "um_find (name_app_mapping st)"
  let ?n = "name_of N app" let ?X = "insert (ID, name_of N app) X"
  from c have u: "um_keys_unique (applications st)" "um_keys_unique (name_app_mapping st)"
    and ao: "apps_ok ?A" and t: "table_ok ?A X ?M" by (auto simp: consistent_def)
  have lv: "live ?A X ID ?n" using name_of_live [of ?A, OF m n(1)] n(2) by (simp add: live_def)
  have t': "entry_ok ?A X ?n (?M ?n)" using t by (simp add: table_ok_def)
  with lv obtain e where e: "?M ?n = Some e" by (cases "?M ?n") auto
  from t' e obtain j F where j: "e = name_element_of j F" "name_field ?A j ?n = Some F"
    "live ?A X j ?n" "\<And>i. live ?A X i ?n \<Longrightarrow> rank_at ?A j \<le> rank_at ?A i"
    by (auto simp: entry_ok_Some)
  have lv': "live ?A ?X i n \<longleftrightarrow> live ?A X i n \<and> \<not> (i = ID \<and> n = ?n)" for i n
    by (auto simp: live_def)
  have others: "live ?A ?X i ?n \<longleftrightarrow> i \<noteq> ID \<and> name_field ?A i ?n \<noteq> None" for i
    using X by (auto simp: live_def)
  show ?thesis
  proof (cases "j = ID")
    case False
    then have "entry_ok ?A ?X ?n (?M ?n)" using j e by (auto simp: entry_ok_Some lv')
    then have "table_ok ?A ?X (?M(?n := ?M ?n))" by (intro table_ok_upd [OF t]) auto
    moreover have "remove_name_mapping N ID st = Inr st"
      using m e j False by (simp add: remove_name_mapping_def)
    ultimately show ?thesis using u ao by (simp add: consistent_def)
  next
    case True
    obtain r b where bm: "best_match ID ?n (applications st) INT_MAX None = (r, b)" by force
    show ?thesis
    proof (cases "r = INT_MAX")
      case none: True
      have "\<not> live ?A ?X i ?n" for i
        using best_match_none [OF u(1) ao n(1) bm [unfolded none], of i]
        by (cases "i = ID") (simp_all add: others)
      then have "table_ok ?A ?X (?M(?n := None))" using t by (intro table_ok_upd) auto
      then show ?thesis using m e j True bm none u ao
        by (simp add: remove_name_mapping_def Let_def consistent_def um.find_maps um.valid_maps)
    next
      case some: False
      obtain k F' where k: "b = Some (k, F')" "k \<noteq> ID" "name_field ?A k ?n = Some F'"
        "\<And>i. i \<noteq> ID \<Longrightarrow> name_field ?A i ?n \<noteq> None \<Longrightarrow> rank_at ?A k \<le> rank_at ?A i"
        using best_match_some [OF u(1) n(1) bm some] by metis
      have "entry_ok ?A ?X ?n (Some (name_element_of k F'))"
        using k by (intro entry_ok_SomeI) (auto simp: others)
      then have "table_ok ?A ?X (?M(?n \<mapsto> name_element_of k F'))"
        using t by (intro table_ok_upd) auto
      then show ?thesis using m e j True bm some u ao k(1)
        by (simp add: remove_name_mapping_def Let_def consistent_def um.find_maps um.valid_maps)
    qed
  qed
qed

text \<open>
  A second call for the same name (an application whose \<open>Name\<close> is its \<open>GenericName\<close>) returns
  only when some other application carries the name; otherwise it aborts.
\<close>

lemma remove_name_mapping_gone:
  assumes c: "consistent X st"
    and m: "um_find (applications st) ID = Some m" "ma_app m = Some app"
    and n: "(ID, name_of N app) \<in> X"
  shows "remove_name_mapping N ID st =
    (if \<exists>i. live (um_find (applications st)) X i (name_of N app) then Inr st else Inl Aborted)"
proof -
  let ?A = "um_find (applications st)" and ?M = "um_find (name_app_mapping st)"
  have t': "entry_ok ?A X (name_of N app) (?M (name_of N app))"
    using c by (simp add: consistent_def table_ok_def)
  show ?thesis
  proof (cases "?M (name_of N app)")
    case None
    with t' m show ?thesis by (simp add: remove_name_mapping_def)
  next
    case (Some e)
    with t' obtain j F where j: "e = name_element_of j F" "live ?A X j (name_of N app)"
      by (auto simp: entry_ok_Some)
    with n have "j \<noteq> ID" by (auto simp: live_def)
    with j Some m show ?thesis by (auto simp: remove_name_mapping_def)
  qed
qed

section \<open>Putting a name in\<close>

lemma replace_name_mapping_spec:
  assumes c: "consistent X st"
    and m: "um_find (applications st) ID = Some m" "ma_app m = Some app"
    and n: "name_of N app \<noteq> []"
    and in_or_N: "name_field (um_find (applications st)) ID (name_of N app) = Some N \<or>
      (ID, name_of N app) \<notin> X"
  shows "\<exists>st'. replace_name_mapping N ID st = Inr st' \<and> applications st' = applications st \<and>
    consistent (X - {(ID, name_of N app)}) st'"
proof -
  let ?A = "um_find (applications st)" and ?M = "um_find (name_app_mapping st)"
  let ?n = "name_of N app" let ?X = "X - {(ID, name_of N app)}"
  from c have u: "um_keys_unique (applications st)" "um_keys_unique (name_app_mapping st)"
    and ao: "apps_ok ?A" and t: "table_ok ?A X ?M" by (auto simp: consistent_def)
  have fld: "name_field ?A ID ?n \<noteq> None" by (rule name_of_live [of ?A, OF m n])
  have lv: "live ?A ?X i ?n \<longleftrightarrow> live ?A X i ?n \<or> i = ID" for i
    using fld by (auto simp: live_def)
  have t': "entry_ok ?A X ?n (?M ?n)" using t by (simp add: table_ok_def)
  have upd: "table_ok ?A ?X (?M(?n := e))" if "entry_ok ?A ?X ?n e" for e
    using that by (intro table_ok_upd [OF t]) auto
  have rk: "rank_at ?A ID = ma_rank m" using m by (simp add: rank_at_def)
  show ?thesis
  proof (cases "?M ?n")
    case None
    with t' have no: "\<not> live ?A X i ?n" for i by simp
    then have "(ID, ?n) \<in> X" using no [of ID] fld by (simp add: live_def)
    with in_or_N have "name_field ?A ID ?n = Some N" by blast
    then have "entry_ok ?A ?X ?n (Some (name_element_of ID N))"
      using no by (intro entry_ok_SomeI) (auto simp: lv)
    from upd [OF this] show ?thesis using None m u ao
      by (simp add: replace_name_mapping_def Let_def consistent_def um.find_maps um.valid_maps)
  next
    case (Some e)
    with t' obtain j F where j: "e = name_element_of j F" "name_field ?A j ?n = Some F"
      "live ?A X j ?n" "\<And>i. live ?A X i ?n \<Longrightarrow> rank_at ?A j \<le> rank_at ?A i"
      by (auto simp: entry_ok_Some)
    obtain mj aj where mj: "?A j = Some mj" "ma_app mj = Some aj" "rank_at ?A j = ma_rank mj"
      using name_field_SomeD [OF j(2)] by (auto simp: rank_at_def)
    show ?thesis
    proof (cases "ma_rank m < ma_rank mj")
      case True
      then have "\<not> live ?A X ID ?n" using j(4) [of ID] rk mj(3) by fastforce
      then have "(ID, ?n) \<in> X" using fld by (auto simp: live_def)
      with in_or_N have "name_field ?A ID ?n = Some N" by blast
      then have "entry_ok ?A ?X ?n (Some (name_element_of ID N))"
        using j(4) True rk mj(3) by (intro entry_ok_SomeI) (fastforce simp: lv)+
      from upd [OF this] show ?thesis using Some m u ao j(1) mj True
        by (simp add: replace_name_mapping_def Let_def consistent_def um.find_maps um.valid_maps)
    next
      case False
      then have "entry_ok ?A ?X ?n (?M ?n)"
        unfolding Some j(1) using j(2-4) rk mj(3) by (intro entry_ok_SomeI) (auto simp: lv)
      from upd [OF this] show ?thesis using Some m u ao j(1) mj False
        by (simp add: replace_name_mapping_def Let_def consistent_def fun_upd_idem)
    qed
  qed
qed

text \<open>
  In the constructor the new application never has a lower rank than the ones before, so the
  plain \<open>try_emplace\<close> there does what \<open>replace_name_mapping\<close> does.
\<close>

lemma replace_is_emplace:
  assumes c: "consistent X st"
    and m: "um_find (applications st) ID = Some m" "ma_app m = Some app"
    and low: "\<And>j mj. um_find (applications st) j = Some mj \<Longrightarrow> ma_rank mj \<le> ma_rank m"
  shows "replace_name_mapping N ID st =
    Inr (st\<lparr>name_app_mapping :=
      um_try_emplace (name_of N app) (name_element_of ID N) (name_app_mapping st)\<rparr>)"
proof (cases "um_find (name_app_mapping st) (name_of N app)")
  case None
  with m show ?thesis by (simp add: replace_name_mapping_def Let_def)
next
  case (Some e)
  let ?A = "um_find (applications st)"
  have "entry_ok ?A X (name_of N app) (Some e)"
    using c Some by (metis consistent_def table_ok_def)
  then obtain j F where j: "e = name_element_of j F" "name_field ?A j (name_of N app) = Some F"
    by (auto simp: entry_ok_Some)
  with name_field_SomeD [OF j(2)] low
  obtain mj aj where "?A j = Some mj" "ma_app mj = Some aj" "\<not> ma_rank m < ma_rank mj"
    by fastforce
  with j Some m show ?thesis
    by (simp add: replace_name_mapping_def um_try_emplace_def)
qed

section \<open>Whole applications\<close>

lemma for_names_remove:
  assumes c: "consistent {} st"
    and m: "um_find (applications st) ID = Some m" "ma_app m = Some app"
  defines "A \<equiv> um_find (applications st)"
  shows "for_names remove_name_mapping ID app st = Inl Aborted \<and>
      app_generic_name app = app_name app \<and> (\<forall>i. i \<noteq> ID \<longrightarrow> name_field A i (app_name app) = None) \<or>
    (\<exists>st'. for_names remove_name_mapping ID app st = Inr st' \<and> applications st' = applications st \<and>
      consistent (names_at A ID) st' \<and>
      (app_generic_name app = app_name app \<longrightarrow> (\<exists>i. i \<noteq> ID \<and> name_field A i (app_name app) \<noteq> None)))"
proof -
  have ne: "app_name app \<noteq> []" using c m unfolding consistent_def apps_ok_def by blast
  have nat: "names_at A ID = {(ID, app_name app)} \<union>
      (if app_generic_name app = [] then {} else {(ID, app_generic_name app)})"
    unfolding A_def by (rule names_at_app [of "um_find (applications st)", OF m ne])
  from remove_name_mapping_live [OF c _ m, of Name] ne
  obtain st1 where st1: "remove_name_mapping Name ID st = Inr st1"
      "applications st1 = applications st" "consistent {(ID, app_name app)} st1" by auto
  show ?thesis
  proof (cases "app_generic_name app = []")
    case True
    with ne have "app_generic_name app \<noteq> app_name app" by simp
    with True st1 nat show ?thesis by (simp add: for_names_def)
  next
    case gn: False
    show ?thesis
    proof (cases "app_generic_name app = app_name app")
      case False
      from remove_name_mapping_live [OF st1(3) _ _ m(2), of ID Generic_name] m(1) st1(2) gn False
      obtain st2 where "remove_name_mapping Generic_name ID st1 = Inr st2"
        "applications st2 = applications st"
        "consistent {(ID, app_generic_name app), (ID, app_name app)} st2" by auto
      with st1 nat gn False show ?thesis by (simp add: for_names_def insert_commute)
    next
      case True
      have "live (um_find (applications st1)) {(ID, app_name app)} i (app_name app) \<longleftrightarrow>
          i \<noteq> ID \<and> name_field A i (app_name app) \<noteq> None" for i
        using st1(2) by (auto simp: live_def A_def)
      with remove_name_mapping_gone [OF st1(3) _ m(2), of ID Generic_name] m(1) st1 True
      have "remove_name_mapping Generic_name ID st1 =
          (if \<exists>i. i \<noteq> ID \<and> name_field A i (app_name app) \<noteq> None then Inr st1 else Inl Aborted)" by simp
      with st1 nat True gn show ?thesis by (auto simp: for_names_def)
    qed
  qed
qed

lemma for_names_replace:
  assumes c: "consistent (names_at (um_find (applications st)) ID) st"
    and m: "um_find (applications st) ID = Some m" "ma_app m = Some app"
  shows "\<exists>st'. for_names replace_name_mapping ID app st = Inr st' \<and>
    applications st' = applications st \<and> consistent {} st'"
proof -
  let ?A = "um_find (applications st)"
  have ne: "app_name app \<noteq> []" using c m unfolding consistent_def apps_ok_def by blast
  note nat = names_at_app [of ?A, OF m ne]
  have "name_field ?A ID (app_name app) = Some Name" using m ne by (simp add: name_field_app)
  with replace_name_mapping_spec [OF c m, of Name] ne
  obtain st1 where st1: "replace_name_mapping Name ID st = Inr st1"
      "applications st1 = applications st"
      "consistent (names_at ?A ID - {(ID, app_name app)}) st1" by auto
  show ?thesis
  proof (cases "app_generic_name app = []")
    case True
    with st1 nat show ?thesis by (simp add: for_names_def)
  next
    case False
    have "name_field ?A ID (app_generic_name app) = Some Generic_name \<or>
        (ID, app_generic_name app) \<notin> names_at ?A ID - {(ID, app_name app)}"
      using m False by (auto simp: name_field_app)
    with replace_name_mapping_spec [OF st1(3) _ m(2), of ID Generic_name] m(1) st1(2) False
    obtain st2 where "replace_name_mapping Generic_name ID st1 = Inr st2"
      "applications st2 = applications st"
      "consistent (names_at ?A ID - {(ID, app_name app)} - {(ID, app_generic_name app)}) st2" by auto
    moreover have "names_at ?A ID - {(ID, app_name app)} - {(ID, app_generic_name app)} = {}"
      using nat by auto
    ultimately show ?thesis using st1(1) False by (simp add: for_names_def)
  qed
qed

section \<open>The operations keep the invariant\<close>

definition node_ok :: "Managed_application \<Rightarrow> bool" where
  "node_ok m \<longleftrightarrow> 0 \<le> ma_rank m \<and> ma_rank m < INT_MAX \<and>
     (\<forall>app. ma_app m = Some app \<longrightarrow> app_name app \<noteq> [])"

lemma apps_ok_upd: "apps_ok A \<Longrightarrow> (case x of None \<Rightarrow> True | Some m \<Rightarrow> node_ok m) \<Longrightarrow> apps_ok (A(ID := x))"
  unfolding apps_ok_def node_ok_def by (auto split: option.splits if_splits)

lemma load_app_name: "load_app env f = Inr app \<Longrightarrow> app_name app \<noteq> []"
  unfolding load_app_def Application_ctor_def
  by (auto split: option.splits sum.splits if_splits prod.splits)

lemma consistent_erase_node:
  assumes "consistent (names_at (um_find (applications st)) ID) st"
  shows "consistent {} (st\<lparr>applications := um_erase ID (applications st)\<rparr>)"
  using assms table_ok_drop_node [of "um_find (applications st)" ID _ None]
  by (auto simp: consistent_def um.find_maps um.valid_maps apps_ok_upd)

lemma consistent_new_node:
  assumes c: "consistent {} st" and ID: "um_find (applications st) ID = None" and m: "node_ok m"
  defines "st' \<equiv> st\<lparr>applications := um_try_emplace ID m (applications st)\<rparr>"
  shows "consistent (names_at (um_find (applications st')) ID) st'"
proof -
  have "table_ok (um_find (applications st)) (names_at (um_find (applications st)) ID)
      (um_find (name_app_mapping st))"
    using c ID by (simp add: consistent_def)
  with c ID m show ?thesis
    using table_ok_drop_node [of "um_find (applications st)" ID _ "Some m"]
    by (simp add: st'_def consistent_def um.find_maps um.valid_maps apps_ok_upd)
qed

lemma consistent_assign_node:
  assumes c: "consistent (names_at (um_find (applications st)) ID) st"
    and ID: "um_find (applications st) ID = Some m0" and m: "node_ok m"
  defines "st' \<equiv> st\<lparr>applications := um_assign ID m (applications st)\<rparr>"
  shows "consistent (names_at (um_find (applications st')) ID) st'"
  using c ID m table_ok_drop_node [of "um_find (applications st)" ID _ "Some m"]
  by (simp add: st'_def consistent_def um.find_maps um.valid_maps apps_ok_upd)

text \<open>What \<open>remove\<close> and the collision branch of \<open>add\<close> do first, on a populated or empty node.\<close>

definition unlist :: "string \<Rightarrow> Managed_application \<Rightarrow> AppManager \<Rightarrow> fault + AppManager" where
  "unlist ID m st =
     (case ma_app m of None \<Rightarrow> Inr st | Some app \<Rightarrow> for_names remove_name_mapping ID app st)"

definition sole_twin :: "(string \<Rightarrow> Managed_application option) \<Rightarrow> string \<Rightarrow> bool" where
  "sole_twin A ID \<longleftrightarrow>
     (\<exists>m app. A ID = Some m \<and> ma_app m = Some app \<and> app_generic_name app = app_name app \<and>
        (\<forall>i. i \<noteq> ID \<longrightarrow> name_field A i (app_name app) = None))"

lemma unlist_spec:
  assumes c: "consistent {} st" and m: "um_find (applications st) ID = Some m"
  shows "if sole_twin (um_find (applications st)) ID then unlist ID m st = Inl Aborted
    else \<exists>st'. unlist ID m st = Inr st' \<and> applications st' = applications st \<and>
      consistent (names_at (um_find (applications st)) ID) st'"
proof (cases "ma_app m")
  case None
  with m c show ?thesis by (auto simp: sole_twin_def unlist_def names_at_unpopulated)
next
  case (Some app)
  with for_names_remove [OF c m Some] m show ?thesis by (auto simp: sole_twin_def unlist_def)
qed

lemma AppManager_remove_unlist:
  "AppManager_remove filename base st =
     bind_sum (get_desktop_id_base filename base) (\<lambda>ID.
       case um_find (applications st) ID of
         None \<Rightarrow> Inr st
       | Some m \<Rightarrow> bind_sum (unlist ID m st)
           (\<lambda>st'. Inr (st'\<lparr>applications := um_erase ID (applications st')\<rparr>)))"
  unfolding AppManager_remove_def unlist_def by (rule refl)

lemma AppManager_remove_consistent:
  assumes c: "consistent {} st" and ID: "get_desktop_id_base filename base = Inr ID"
  defines "A \<equiv> um_find (applications st)"
  shows "if sole_twin A ID then AppManager_remove filename base st = Inl Aborted
    else \<exists>st'. AppManager_remove filename base st = Inr st' \<and> consistent {} st' \<and>
      um_find (applications st') = A(ID := None)"
proof (cases "A ID")
  case None
  then have "A(ID := None) = A" by auto
  with None c ID show ?thesis by (auto simp: AppManager_remove_def A_def sole_twin_def)
next
  case (Some m)
  show ?thesis
  proof (cases "sole_twin A ID")
    case True
    with unlist_spec [OF c, of ID m] Some ID show ?thesis
      by (simp add: AppManager_remove_unlist A_def)
  next
    case False
    with unlist_spec [OF c, of ID m] Some obtain st' where st': "unlist ID m st = Inr st'"
      "applications st' = applications st" "consistent (names_at A ID) st'" by (auto simp: A_def)
    with consistent_erase_node [of st' ID] False Some ID show ?thesis
      by (simp add: AppManager_remove_unlist A_def um.find_maps)
  qed
qed

lemma AppManager_put_new:
  assumes c: "consistent {} st" and ID: "um_find (applications st) ID = None"
    and app: "app_name app \<noteq> []" and rank: "0 \<le> rank" "rank < INT_MAX"
  shows "\<exists>st'. for_names replace_name_mapping ID app
      (st\<lparr>applications := um_try_emplace ID \<lparr>ma_app = Some app, ma_rank = rank\<rparr>
        (applications st)\<rparr>) = Inr st' \<and> consistent {} st' \<and>
    um_find (applications st') = (um_find (applications st))(ID \<mapsto> \<lparr>ma_app = Some app, ma_rank = rank\<rparr>)"
proof -
  let ?m = "\<lparr>ma_app = Some app, ma_rank = rank\<rparr>"
  let ?st = "st\<lparr>applications := um_try_emplace ID ?m (applications st)\<rparr>"
  have "node_ok ?m" using app rank by (simp add: node_ok_def)
  from consistent_new_node [OF c ID this]
  have "consistent (names_at (um_find (applications ?st)) ID) ?st" .
  moreover have "um_find (applications ?st) = (um_find (applications st))(ID \<mapsto> ?m)"
    using ID by (simp add: um.find_maps)
  ultimately show ?thesis using for_names_replace [of ?st ID ?m app] by auto
qed

lemma consistent_put_disabled:
  assumes c: "consistent {} st" and ID: "um_find (applications st) ID = None"
    and rank: "0 \<le> rank" "rank < INT_MAX"
  shows "consistent {} (st\<lparr>applications := um_try_emplace ID \<lparr>ma_app = None, ma_rank = rank\<rparr>
    (applications st)\<rparr>)"
  using consistent_new_node [OF c ID, of "\<lparr>ma_app = None, ma_rank = rank\<rparr>"] rank ID
  by (simp add: node_ok_def um.find_maps names_at_unpopulated)

section \<open>The contract of the manager\<close>

text \<open>
  The abstract state is the map from desktop IDs to applications and ranks. A file that
  cannot be read or parsed changes nothing, nor does one that an older file of a lower rank
  shadows.
\<close>

type_synonym registry = "string \<Rightarrow> Managed_application option"

definition outcome :: "manager_env \<Rightarrow> string \<Rightarrow> int \<Rightarrow> Managed_application option" where
  "outcome env filename rank =
     (case load_app env filename of
        Inl (Disabled_error _) \<Rightarrow> Some \<lparr>ma_app = None, ma_rank = rank\<rparr>
      | Inl _ \<Rightarrow> None
      | Inr app \<Rightarrow> Some \<lparr>ma_app = Some app, ma_rank = rank\<rparr>)"

definition shadowed :: "registry \<Rightarrow> string \<Rightarrow> int \<Rightarrow> bool" where
  "shadowed A ID rank \<longleftrightarrow> (\<exists>m. A ID = Some m \<and> ma_rank m < rank)"

definition registry_add :: "manager_env \<Rightarrow> string \<Rightarrow> string \<Rightarrow> int \<Rightarrow> registry \<Rightarrow> registry" where
  "registry_add env ID filename rank A =
     (if shadowed A ID rank then A
      else case outcome env filename rank of None \<Rightarrow> A | Some m \<Rightarrow> A(ID \<mapsto> m))"

definition registry_remove :: "string \<Rightarrow> registry \<Rightarrow> registry" where
  "registry_remove ID A = A(ID := None)"

text \<open>When an operation takes the names of the node \<open>ID\<close> out.\<close>

definition replaces :: "manager_env \<Rightarrow> string \<Rightarrow> string \<Rightarrow> int \<Rightarrow> registry \<Rightarrow> bool" where
  "replaces env ID filename rank A \<longleftrightarrow>
     A ID \<noteq> None \<and> \<not> shadowed A ID rank \<and> outcome env filename rank \<noteq> None"

lemma outcome_cases [case_names ignored disabled loaded]:
  obtains e where "load_app env f = Inl e" "\<And>w. e \<noteq> Disabled_error w" "outcome env f r = None"
  | w where "load_app env f = Inl (Disabled_error w)"
      "outcome env f r = Some \<lparr>ma_app = None, ma_rank = r\<rparr>"
  | app where "load_app env f = Inr app" "outcome env f r = Some \<lparr>ma_app = Some app, ma_rank = r\<rparr>"
proof (cases "load_app env f")
  case (Inl e)
  with that(1) [of e] that(2) show thesis by (cases e) (auto simp: outcome_def)
next
  case (Inr app)
  with that(3) show thesis by (auto simp: outcome_def)
qed

lemma outcome_node_ok:
  "outcome env f r = Some m \<Longrightarrow> 0 \<le> r \<Longrightarrow> r < INT_MAX \<Longrightarrow> node_ok m"
  by (cases env f r rule: outcome_cases) (auto simp: node_ok_def dest: load_app_name)

text \<open>The part of \<open>add\<close> that overwrites a node.\<close>

lemma overwrite_spec:
  assumes c: "consistent {} st" and m: "um_find (applications st) ID = Some m"
    and ns: "\<not> sole_twin (um_find (applications st)) ID" and ok: "node_ok m'"
  shows "\<exists>st'. bind_sum (unlist ID m st) (\<lambda>st1.
      let st2 = st1\<lparr>applications := um_assign ID m' (applications st1)\<rparr>
      in case ma_app m' of None \<Rightarrow> Inr st2
         | Some app \<Rightarrow> for_names replace_name_mapping ID app st2) = Inr st' \<and>
    consistent {} st' \<and> um_find (applications st') = (um_find (applications st))(ID \<mapsto> m')"
proof -
  from unlist_spec [OF c m] ns obtain st1 where st1: "unlist ID m st = Inr st1"
    "applications st1 = applications st" "consistent (names_at (um_find (applications st1)) ID) st1"
    by auto
  let ?st2 = "st1\<lparr>applications := um_assign ID m' (applications st1)\<rparr>"
  have A2: "um_find (applications ?st2) = (um_find (applications st))(ID \<mapsto> m')"
    using st1(2) m by (simp add: um.find_maps)
  have c2: "consistent (names_at (um_find (applications ?st2)) ID) ?st2"
    using consistent_assign_node [OF st1(3) _ ok] m st1(2) by auto
  show ?thesis
  proof (cases "ma_app m'")
    case None
    then have "names_at (um_find (applications ?st2)) ID = {}"
      unfolding A2 by (intro names_at_unpopulated) auto
    with c2 A2 st1 None show ?thesis by simp
  next
    case (Some app)
    with for_names_replace [OF c2, of m' app] A2 st1 show ?thesis by (auto simp: Let_def)
  qed
qed

lemma AppManager_add_spec:
  assumes c: "consistent {} st" and ID: "get_desktop_id_base filename base = Inr ID"
    and rank: "0 \<le> rank" "rank < INT_MAX"
  defines "A \<equiv> um_find (applications st)"
  shows "if replaces env ID filename rank A \<and> sole_twin A ID
    then AppManager_add env filename base rank st = Inl Aborted
    else \<exists>st'. AppManager_add env filename base rank st = Inr st' \<and> consistent {} st' \<and>
      um_find (applications st') = registry_add env ID filename rank A"
proof (cases "A ID")
  case None
  then have ns: "\<not> shadowed A ID rank" "\<not> replaces env ID filename rank A"
    by (auto simp: shadowed_def replaces_def)
  show ?thesis
  proof (cases env filename rank rule: outcome_cases)
    case (ignored e)
    then show ?thesis using None ns c ID
      by (cases e) (auto simp: AppManager_add_def A_def registry_add_def)
  next
    case (disabled w)
    with None ns c ID consistent_put_disabled [OF c, of ID rank] rank show ?thesis
      by (auto simp: AppManager_add_def A_def registry_add_def um.find_maps)
  next
    case (loaded app)
    with None ns c ID AppManager_put_new [OF c, of ID app rank] rank load_app_name [of env filename app]
    show ?thesis by (auto simp: AppManager_add_def A_def registry_add_def)
  qed
next
  case (Some m)
  show ?thesis
  proof (cases "ma_rank m < rank")
    case True
    with Some c ID show ?thesis
      by (auto simp: AppManager_add_def A_def registry_add_def shadowed_def replaces_def)
  next
    case False
    with Some have ns: "\<not> shadowed A ID rank" by (auto simp: shadowed_def)
    show ?thesis
    proof (cases "outcome env filename rank")
      case None
      with Some ns c ID False show ?thesis
        by (cases env filename rank rule: outcome_cases)
          (auto simp: AppManager_add_def A_def registry_add_def replaces_def split: app_error.splits)
    next
      case out: (Some m')
      have r: "replaces env ID filename rank A" using Some ns out by (simp add: replaces_def)
      have step: "AppManager_add env filename base rank st =
          bind_sum (unlist ID m st) (\<lambda>st1.
            let st2 = st1\<lparr>applications := um_assign ID m' (applications st1)\<rparr>
            in case ma_app m' of None \<Rightarrow> Inr st2
               | Some app \<Rightarrow> for_names replace_name_mapping ID app st2)"
        using Some ID False out
        by (cases env filename rank rule: outcome_cases)
          (auto simp: AppManager_add_def A_def unlist_def Let_def)
      show ?thesis
      proof (cases "sole_twin A ID")
        case True
        with unlist_spec [OF c, of ID m] Some step r show ?thesis by (simp add: A_def)
      next
        case False
        with overwrite_spec [OF c, of ID m m'] Some step r ns out outcome_node_ok [OF out rank]
        show ?thesis by (simp add: A_def registry_add_def)
      qed
    qed
  qed
qed

section \<open>Construction\<close>

text \<open>
  The constructor in one pass over all files, ranks in order, and its contract: a desktop ID
  belongs to the first file with this ID that is disabled or valid.
\<close>

type_synonym ranked_file = "int \<times> string \<times> string"

fun flat_files :: "int \<Rightarrow> Desktop_file_rank list \<Rightarrow> ranked_file list" where
  "flat_files rank [] = []"
| "flat_files rank (r # rs) =
     map (\<lambda>f. (rank, base_path r, f)) (rank_files r) @ flat_files (rank + 1) rs"

fun ctor_flat :: "manager_env \<Rightarrow> bool \<Rightarrow> ranked_file list \<Rightarrow> AppManager \<Rightarrow> fault + AppManager" where
  "ctor_flat env wine [] st = Inr st"
| "ctor_flat env wine ((rank, base, f) # es) st =
     bind_sum (ctor_file env wine rank base f st) (ctor_flat env wine es)"

definition ctor_outcome :: "manager_env \<Rightarrow> bool \<Rightarrow> string \<Rightarrow> int \<Rightarrow> Managed_application option" where
  "ctor_outcome env wine filename rank =
     (case load_app env filename of
        Inr app \<Rightarrow> if \<not> wine \<and> validate_exec_key (app_exec app) \<noteq> None then None
                   else Some \<lparr>ma_app = Some app, ma_rank = rank\<rparr>
      | _ \<Rightarrow> outcome env filename rank)"

fun provider :: "manager_env \<Rightarrow> bool \<Rightarrow> ranked_file list \<Rightarrow> registry" where
  "provider env wine [] ID = None"
| "provider env wine ((rank, base, f) # es) ID =
     (if get_desktop_id_base f base = Inr ID \<and> ctor_outcome env wine f rank \<noteq> None
      then ctor_outcome env wine f rank else provider env wine es ID)"

lemma ctor_flat_append:
  "ctor_flat env wine (xs @ ys) st = bind_sum (ctor_flat env wine xs st) (ctor_flat env wine ys)"
  by (induction env wine xs st rule: ctor_flat.induct) (auto simp: bind_sum_def split: sum.splits)

lemma ctor_files_flat:
  "ctor_files env wine rank base fs st = ctor_flat env wine (map (\<lambda>f. (rank, base, f)) fs) st"
  by (induction env wine rank base fs st rule: ctor_files.induct)
    (auto simp: bind_sum_def split: sum.splits)

lemma ctor_ranks_flat: "ctor_ranks env wine rank rs st = ctor_flat env wine (flat_files rank rs) st"
proof (induction rs arbitrary: rank st)
  case (Cons r rs)
  have "ctor_ranks env wine (rank + 1) rs = ctor_flat env wine (flat_files (rank + 1) rs)"
    using Cons by (simp add: fun_eq_iff)
  then show ?case by (simp add: ctor_files_flat ctor_flat_append)
qed simp

lemma ctor_outcome_node_ok:
  "ctor_outcome env wine f r = Some m \<Longrightarrow> 0 \<le> r \<Longrightarrow> r < INT_MAX \<Longrightarrow> node_ok m \<and> ma_rank m = r"
  unfolding ctor_outcome_def
  by (cases env f r rule: outcome_cases)
    (auto simp: node_ok_def dest: load_app_name split: if_splits app_error.splits)

definition ranks_upto :: "int \<Rightarrow> registry \<Rightarrow> bool" where
  "ranks_upto rank A \<longleftrightarrow> (\<forall>j m. A j = Some m \<longrightarrow> ma_rank m \<le> rank)"

text \<open>The constructor's own way of listing a new application is that of \<open>add\<close>.\<close>

lemma ctor_listing:
  assumes c: "consistent (names_at (um_find (applications st)) ID) st"
    and m: "um_find (applications st) ID = Some m" "ma_app m = Some app"
    and low: "ranks_upto (ma_rank m) (um_find (applications st))"
  defines "st2 \<equiv> st\<lparr>name_app_mapping := um_try_emplace (app_name app)
     (name_element_of ID Name) (name_app_mapping st)\<rparr>"
  shows "for_names replace_name_mapping ID app st =
    Inr (if app_generic_name app \<noteq> [] then
        st2\<lparr>name_app_mapping := um_try_emplace (app_generic_name app)
          (name_element_of ID Generic_name) (name_app_mapping st2)\<rparr>
      else st2)"
proof -
  let ?A = "um_find (applications st)"
  have low': "\<And>j mj. ?A j = Some mj \<Longrightarrow> ma_rank mj \<le> ma_rank m"
    using low by (simp add: ranks_upto_def)
  have ne: "app_name app \<noteq> []" using c m unfolding consistent_def apps_ok_def by blast
  have 1: "replace_name_mapping Name ID st = Inr st2"
    using replace_is_emplace [OF c m low', where N = Name] by (simp add: st2_def)
  have f: "name_field ?A ID (app_name app) = Some Name" using m ne by (simp add: name_field_app)
  obtain X where c2: "consistent X st2"
    using replace_name_mapping_spec [OF c m, of Name] ne f 1 by auto
  have s: "applications st2 = applications st" by (simp add: st2_def)
  have "replace_name_mapping Generic_name ID st2 =
      Inr (st2\<lparr>name_app_mapping := um_try_emplace (app_generic_name app)
          (name_element_of ID Generic_name) (name_app_mapping st2)\<rparr>)"
    using replace_is_emplace [OF c2, of ID m app Generic_name] s m low' by simp
  with 1 show ?thesis by (simp add: for_names_def)
qed

lemma ctor_file_spec:
  assumes c: "consistent {} st" and ID: "get_desktop_id_base f base = Inr ID"
    and rank: "0 \<le> rank" "rank < INT_MAX" and low: "ranks_upto rank (um_find (applications st))"
  shows "\<exists>st'. ctor_file env wine rank base f st = Inr st' \<and> consistent {} st' \<and>
    ranks_upto rank (um_find (applications st')) \<and>
    um_find (applications st') = (\<lambda>i. case um_find (applications st) i of Some m \<Rightarrow> Some m
      | None \<Rightarrow> if i = ID then ctor_outcome env wine f rank else None)"
proof -
  let ?A = "um_find (applications st)"
  have keep: "?A = (\<lambda>i. case ?A i of Some m \<Rightarrow> Some m | None \<Rightarrow> if i = ID then x else None)"
    if "?A ID = None \<longrightarrow> x = None" for x
    using that by (auto simp: fun_eq_iff split: option.splits)
  have put: "(\<lambda>i. case ?A i of Some m \<Rightarrow> Some m | None \<Rightarrow> if i = ID then x else None) = ?A(ID \<mapsto> m)"
    if "?A ID = None" "x = Some m" for m x
    using that by (auto simp: fun_eq_iff split: option.splits)
  have upto: "ranks_upto rank (?A(ID \<mapsto> m))" if "ma_rank m = rank" for m
    using low that by (simp add: ranks_upto_def)
  show ?thesis
  proof (cases "?A ID")
    case (Some m)
    with ID c low keep show ?thesis by (simp add: ctor_file_def)
  next
    case None
    show ?thesis
    proof (cases env f rank rule: outcome_cases)
      case (ignored e)
      then have "ctor_file env wine rank base f st = Inr st" "ctor_outcome env wine f rank = None"
        using ID None by (cases e; simp add: ctor_file_def ctor_outcome_def)+
      with c low keep show ?thesis by simp
    next
      case (disabled w)
      let ?m = "\<lparr>ma_app = None, ma_rank = rank\<rparr>"
      have co: "ctor_outcome env wine f rank = Some ?m"
        using disabled by (simp add: ctor_outcome_def)
      moreover have "um_find (um_try_emplace ID ?m (applications st)) = ?A(ID \<mapsto> ?m)"
        using None by (simp add: um.find_maps)
      ultimately show ?thesis
        using disabled None ID consistent_put_disabled [OF c None rank] upto [of ?m] put [OF None co]
        by (simp add: ctor_file_def)
    next
      case (loaded app)
      show ?thesis
      proof (cases "\<not> wine \<and> validate_exec_key (app_exec app) \<noteq> None")
        case True
        then have "ctor_file env wine rank base f st = Inr st" "ctor_outcome env wine f rank = None"
          using ID None loaded by (simp_all add: ctor_file_def ctor_outcome_def)
        with c low keep show ?thesis by simp
      next
        case False
        let ?m = "\<lparr>ma_app = Some app, ma_rank = rank\<rparr>"
        let ?st = "st\<lparr>applications := um_try_emplace ID ?m (applications st)\<rparr>"
        have co: "ctor_outcome env wine f rank = Some ?m"
          using False loaded by (auto simp: ctor_outcome_def)
        have A': "um_find (applications ?st) = ?A(ID \<mapsto> ?m)" using None by (simp add: um.find_maps)
        have "node_ok ?m" using load_app_name [OF loaded(1)] rank by (simp add: node_ok_def)
        from consistent_new_node [OF c None this]
        have c': "consistent (names_at (um_find (applications ?st)) ID) ?st" .
        have "ctor_file env wine rank base f st = for_names replace_name_mapping ID app ?st"
          using ctor_listing [OF c', of ?m app] upto [of ?m] A' False loaded ID None
          by (auto simp: ctor_file_def)
        with for_names_replace [OF c', of ?m app] A' upto [of ?m] put [OF None co]
        show ?thesis by auto
      qed
    qed
  qed
qed

lemma ctor_flat_spec:
  assumes "consistent {} st" "ranks_upto lo (um_find (applications st))"
    "\<forall>(r, b, f) \<in> set es. lo \<le> r \<and> 0 \<le> r \<and> r < INT_MAX \<and> (\<exists>ID. get_desktop_id_base f b = Inr ID)"
    "sorted (map fst es)"
  shows "\<exists>st'. ctor_flat env wine es st = Inr st' \<and> consistent {} st' \<and>
    um_find (applications st') = (\<lambda>i. case um_find (applications st) i of Some m \<Rightarrow> Some m
      | None \<Rightarrow> provider env wine es i)"
  using assms
proof (induction es arbitrary: st lo)
  case Nil
  have "um_find (applications st) =
      (\<lambda>i. case um_find (applications st) i of Some m \<Rightarrow> Some m | None \<Rightarrow> provider env wine [] i)"
    by (auto simp: fun_eq_iff split: option.splits)
  with Nil show ?case by simp
next
  case (Cons e es)
  obtain r b f where e: "e = (r, b, f)" by (cases e)
  with Cons.prems obtain ID where ID: "get_desktop_id_base f b = Inr ID" and r: "lo \<le> r" "0 \<le> r"
    "r < INT_MAX" by auto
  have up: "ranks_upto r (um_find (applications st))"
    using Cons.prems(2) r(1) by (fastforce simp: ranks_upto_def)
  from ctor_file_spec [OF Cons.prems(1) ID r(2,3) up, of env wine]
  obtain st1 where st1: "ctor_file env wine r b f st = Inr st1" "consistent {} st1"
    "ranks_upto r (um_find (applications st1))" "um_find (applications st1) =
      (\<lambda>i. case um_find (applications st) i of Some m \<Rightarrow> Some m
        | None \<Rightarrow> if i = ID then ctor_outcome env wine f r else None)" by blast
  have "\<forall>(r', b, f) \<in> set es. r \<le> r' \<and> 0 \<le> r' \<and> r' < INT_MAX \<and> (\<exists>ID. get_desktop_id_base f b = Inr ID)"
    "sorted (map fst es)" using Cons.prems(3,4) e by auto
  from Cons.IH [OF st1(2,3) this] st1(1) obtain st2 where st2: "ctor_flat env wine (e # es) st = Inr st2"
    "consistent {} st2" "um_find (applications st2) = (\<lambda>i. case um_find (applications st1) i of
      Some m \<Rightarrow> Some m | None \<Rightarrow> provider env wine es i)" by (auto simp: e)
  have "um_find (applications st2) = (\<lambda>i. case um_find (applications st) i of Some m \<Rightarrow> Some m
      | None \<Rightarrow> provider env wine (e # es) i)"
    unfolding st2(3) st1(4) using ID e by (auto simp: fun_eq_iff split: option.splits)
  with st2 show ?case by blast
qed

lemma validate_files_prefix: "validate_files b fs \<Longrightarrow> f \<in> set fs \<Longrightarrow> \<exists>ID. get_desktop_id_base f b = Inr ID"
  by (induction b fs rule: validate_files.induct)
    (auto simp: get_desktop_id_base_def dest: prefix_length_le split: if_splits)

lemma flat_files_valid:
  assumes "validate_desktop_file_list files" "(r, b, f) \<in> set (flat_files k files)"
  shows "k \<le> r \<and> r < k + int (length files) \<and> (\<exists>ID. get_desktop_id_base f b = Inr ID)"
  using assms
proof (induction k files rule: flat_files.induct)
  case (2 rank d ds)
  then show ?case by (fastforce dest: validate_files_prefix split: if_splits)
qed simp

lemma flat_files_sorted:
  "validate_desktop_file_list files \<Longrightarrow> sorted (map fst (flat_files k files))"
proof (induction k files rule: flat_files.induct)
  case (2 rank d ds)
  have v: "validate_desktop_file_list ds" using "2.prems" by (auto split: if_splits)
  have "\<forall>x \<in> set (flat_files (rank + 1) ds). rank \<le> fst x"
    using flat_files_valid [OF v] by fastforce
  moreover have "sorted (map fst (flat_files (rank + 1) ds))" using "2.IH" v by simp
  moreover have "sorted (map (fst \<circ> (\<lambda>f. (rank, base_path d, f))) fs)" for fs
    by (induction fs) auto
  ultimately show ?case by (auto simp: sorted_append)
qed simp

lemma consistent_empty: "consistent {} \<lparr>applications = [], name_app_mapping = []\<rparr>"
  by (simp add: consistent_def um_keys_unique_def um_find_def apps_ok_def table_ok_def
      live_def name_field_def)

lemma AppManager_ctor_spec:
  assumes "validate_desktop_file_list files" "int (length files) \<le> INT_MAX"
  shows "\<exists>st. AppManager_ctor env wine files = Inr st \<and> well_formed st \<and>
    um_find (applications st) = provider env wine (flat_files 0 files)"
proof -
  let ?st = "\<lparr>applications = [], name_app_mapping = []\<rparr>"
  have "\<forall>(r, b, f) \<in> set (flat_files 0 files).
      0 \<le> r \<and> 0 \<le> r \<and> r < INT_MAX \<and> (\<exists>ID. get_desktop_id_base f b = Inr ID)"
    using flat_files_valid [OF assms(1)] assms(2) by fastforce
  moreover have "ranks_upto 0 (um_find (applications ?st))" by (simp add: ranks_upto_def um_find_def)
  ultimately have "\<exists>st'. ctor_flat env wine (flat_files 0 files) ?st = Inr st' \<and> consistent {} st' \<and>
      um_find (applications st') = (\<lambda>i. case um_find (applications ?st) i of Some m \<Rightarrow> Some m
        | None \<Rightarrow> provider env wine (flat_files 0 files) i)"
    using ctor_flat_spec [OF consistent_empty] flat_files_sorted [OF assms(1)] by blast
  then obtain st' where "ctor_flat env wine (flat_files 0 files) ?st = Inr st'" "consistent {} st'"
      "um_find (applications st') = provider env wine (flat_files 0 files)"
    by (auto simp: um_find_def)
  with assms(2) show ?thesis
    by (simp add: AppManager_ctor_def ctor_ranks_flat well_formed_def)
qed

end
