(* ===== verification/AppManagerSteps.thy ===== *)
theory AppManagerSteps
  imports AppManagerFacts
begin

text \<open>
  The manager in the running program: built by the constructor, changed by the \<open>add\<close> and
  \<open>remove\<close> calls the notifications cause, while the files on disk change and the hash tables
  may be rehashed between any two calls. What the rest of the program may rely on.
\<close>

section \<open>Runs\<close>

definition rehashed :: "AppManager \<Rightarrow> AppManager \<Rightarrow> bool" where
  "rehashed st st' \<longleftrightarrow>
     reordered (applications st) (applications st') \<and>
     reordered (name_app_mapping st) (name_app_mapping st')"

inductive manager_step :: "AppManager \<Rightarrow> AppManager \<Rightarrow> bool" where
  step_add:
    "AppManager_add env filename base rank st = Inr st' \<Longrightarrow> 0 \<le> rank \<Longrightarrow> rank < INT_MAX \<Longrightarrow>
       manager_step st st'"
| step_remove: "AppManager_remove filename base st = Inr st' \<Longrightarrow> manager_step st st'"
| step_rehash: "rehashed st st' \<Longrightarrow> manager_step st st'"

inductive_cases manager_stepE: "manager_step st st'"

inductive reachable :: "AppManager \<Rightarrow> bool" where
  reachable_ctor:
    "validate_desktop_file_list files \<Longrightarrow> AppManager_ctor env wine files = Inr st \<Longrightarrow> reachable st"
| reachable_step: "reachable st \<Longrightarrow> manager_step st st' \<Longrightarrow> reachable st'"

lemma rehashed_consistent:
  assumes "rehashed st st'" "consistent X st"
  shows "consistent X st'"
proof -
  have "um_find (applications st') = um_find (applications st)"
    "um_find (name_app_mapping st') = um_find (name_app_mapping st)"
    using assms by (auto simp: rehashed_def consistent_def intro: reordered_find)
  moreover have "um_keys_unique (applications st')" "um_keys_unique (name_app_mapping st')"
    using assms unfolding rehashed_def consistent_def by (blast intro: reordered_keys_unique)+
  ultimately show ?thesis using assms(2) by (simp add: consistent_def)
qed

lemma get_desktop_id_base_Inr:
  "AppManager_remove filename base st = Inr st' \<Longrightarrow> \<exists>ID. get_desktop_id_base filename base = Inr ID"
  "AppManager_add env filename base rank st = Inr st' \<Longrightarrow> \<exists>ID. get_desktop_id_base filename base = Inr ID"
  by (auto simp: AppManager_remove_def AppManager_add_def)

lemma AppManager_add_consistent:
  assumes "AppManager_add env filename base rank st = Inr st'" "0 \<le> rank" "rank < INT_MAX"
    "consistent {} st"
  shows "consistent {} st'"
  using get_desktop_id_base_Inr(2) [OF assms(1)] AppManager_add_spec [OF assms(4) _ assms(2,3)] assms(1)
  by (metis Inl_Inr_False Inr_inject)

lemma AppManager_remove_keeps:
  assumes "AppManager_remove filename base st = Inr st'" "consistent {} st"
  shows "consistent {} st'"
  using get_desktop_id_base_Inr(1) [OF assms(1)] AppManager_remove_consistent [OF assms(2)] assms(1)
  by (metis Inl_Inr_False Inr_inject)

lemma manager_step_consistent: "manager_step st st' \<Longrightarrow> consistent {} st \<Longrightarrow> consistent {} st'"
  by (elim manager_stepE)
    (blast intro: AppManager_add_consistent AppManager_remove_keeps rehashed_consistent)+

lemma ctor_length: "AppManager_ctor env wine files = Inr st \<Longrightarrow> int (length files) \<le> INT_MAX"
  by (auto simp: AppManager_ctor_def split: if_splits)

lemma reachable_consistent: "reachable st \<Longrightarrow> consistent {} st"
proof (induction rule: reachable.induct)
  case (reachable_ctor files env wine st)
  from AppManager_ctor_spec [OF this(1) ctor_length [OF this(2)], of env wine] this(2)
  show ?case by (auto simp: well_formed_def)
next
  case (reachable_step st st')
  from manager_step_consistent [OF this(2,3)] show ?case .
qed

section \<open>A sample directory tree\<close>

text \<open>Two search directories with a shared desktop ID, used by the concrete instances below.\<close>

definition sample_files :: "string \<Rightarrow> string option" where
  "sample_files =
     [''/a/x.desktop'' \<mapsto> ''[Desktop Entry]'' @ [NL] @ ''Name=X'' @ [NL] @ ''Exec=x'' @ [NL],
      ''/b/x.desktop'' \<mapsto> ''[Desktop Entry]'' @ [NL] @ ''Name=Old'' @ [NL] @ ''Exec=o'' @ [NL],
      ''/b/y.desktop'' \<mapsto> ''[Desktop Entry]'' @ [NL] @ ''Name=Y'' @ [NL] @ ''GenericName=X'' @ [NL]
        @ ''Exec=y'' @ [NL]]"

definition sample_env :: manager_env where
  "sample_env = \<lparr>env_files = sample_files, env_suffixes = C_locale, env_desktops = []\<rparr>"

definition sample_list :: "Desktop_file_rank list" where
  "sample_list =
     [\<lparr>base_path = ''/a/'', rank_files = [''/a/x.desktop'']\<rparr>,
      \<lparr>base_path = ''/b/'', rank_files = [''/b/x.desktop'', ''/b/y.desktop'']\<rparr>]"

definition sample_app :: "string \<Rightarrow> string \<Rightarrow> string \<Rightarrow> string \<Rightarrow> Application" where
  "sample_app nm gn ex loc = \<lparr>app_name = nm, app_generic_name = gn, app_exec = ex, app_path = [],
     app_location = loc, app_terminal = False, app_id = []\<rparr>"

definition sample_manager :: AppManager where
  "sample_manager =
     \<lparr>applications =
        [(''x.desktop'', \<lparr>ma_app = Some (sample_app ''X'' [] ''x'' ''/a/x.desktop''), ma_rank = 0\<rparr>),
         (''y.desktop'', \<lparr>ma_app = Some (sample_app ''Y'' ''X'' ''y'' ''/b/y.desktop''), ma_rank = 1\<rparr>)],
      name_app_mapping =
        [(''X'', name_element_of ''x.desktop'' Name), (''Y'', name_element_of ''y.desktop'' Name)]\<rparr>"

lemma sample_list_valid: "validate_desktop_file_list sample_list"
  by (simp add: sample_list_def)

lemma sample_ctor: "AppManager_ctor sample_env False sample_list = Inr sample_manager"
  by code_simp

lemma sample_reachable: "reachable sample_manager"
  by (rule reachable_ctor [OF sample_list_valid sample_ctor])

section \<open>What the program relies on\<close>

lemma view_element:
  assumes c: "consistent {} st" and v: "(n, oa, g) \<in> set (view_name_app_mapping st)"
  shows "\<exists>ID m app. um_find (applications st) ID = Some m \<and> ma_app m = Some app \<and> oa = Some app \<and>
    n = (if g then app_generic_name app else app_name app) \<and> (g \<longrightarrow> app_name app \<noteq> n) \<and> n \<noteq> [] \<and>
    (\<forall>i. name_field (um_find (applications st)) i n \<noteq> None \<longrightarrow>
       ma_rank m \<le> rank_at (um_find (applications st)) i)"
proof -
  let ?A = "um_find (applications st)"
  from v obtain e where e: "(n, e) \<in> set (name_app_mapping st)"
    "oa = deref st (ra_app (resolved e))" "g = ra_is_generic (resolved e)"
    by (auto simp: view_name_app_mapping_def)
  then have "um_find (name_app_mapping st) n = Some e"
    using c by (simp add: consistent_def um_find_in_set)
  then have "entry_ok ?A {} n (Some e)" using c by (metis consistent_def table_ok_def)
  then obtain ID N where N: "e = name_element_of ID N" "name_field ?A ID n = Some N"
    "\<And>i. name_field ?A i n \<noteq> None \<Longrightarrow> rank_at ?A ID \<le> rank_at ?A i"
    by (auto simp: entry_ok_Some live_def)
  from name_field_SomeD [OF N(2)] obtain m app where m: "?A ID = Some m" "ma_app m = Some app"
    "n \<noteq> []" "name_of N app = n" by blast
  have "N = Generic_name \<longrightarrow> app_name app \<noteq> n"
    using N(2) m(1,2) by (auto simp: name_field_app split: if_splits)
  moreover have "oa = Some app" using e(2) N(1) m(1,2) by (simp add: deref_def lookup_by_ID_def)
  moreover have "n = (if g then app_generic_name app else app_name app)"
    using m(4) e(3) N(1) by (cases N) auto
  moreover have "rank_at ?A ID = ma_rank m" using m(1) by (simp add: rank_at_def)
  ultimately show ?thesis using m N(3) e(3) N(1) by (metis name_element_of_simps(4))
qed

lemma view_complete:
  assumes c: "consistent {} st" and f: "name_field (um_find (applications st)) ID n \<noteq> None"
  shows "\<exists>oa g. (n, oa, g) \<in> set (view_name_app_mapping st)"
proof -
  have "entry_ok (um_find (applications st)) {} n (um_find (name_app_mapping st) n)"
    using c by (simp add: consistent_def table_ok_def)
  with f obtain e where "um_find (name_app_mapping st) n = Some e"
    by (cases "um_find (name_app_mapping st) n") (auto simp: live_def)
  then have "(n, e) \<in> set (name_app_mapping st)" using c by (simp add: consistent_def um_find_in_set)
  then show ?thesis by (force simp: view_name_app_mapping_def)
qed

lemma view_distinct: "consistent {} st \<Longrightarrow> distinct (map fst (view_name_app_mapping st))"
  by (simp add: consistent_def um_keys_unique_def view_name_app_mapping_def case_prod_beta comp_def)

definition carries :: "Application \<Rightarrow> string \<Rightarrow> bool" where
  "carries app n \<longleftrightarrow> n \<noteq> [] \<and> (app_name app = n \<or> app_generic_name app = n)"

lemma name_field_carries:
  "A ID = Some m \<Longrightarrow> ma_app m = Some app \<Longrightarrow> name_field A ID n \<noteq> None \<longleftrightarrow> carries app n"
  by (simp add: name_field_app carries_def)

text \<open>C1: at any time, after any additions and removals and in any iteration order of the hash tables,
  the names offered to the user are pairwise distinct; each resolves to a loaded application that
  carries it, as \<open>Name\<close> or \<open>GenericName\<close> as the flag says, and no application of a lower rank
  carries it; and every name of every loaded application is offered.\<close>

theorem listed_names:
  assumes "reachable st"
  shows "distinct (map fst (view_name_app_mapping st)) \<and>
    (\<forall>n oa g. (n, oa, g) \<in> set (view_name_app_mapping st) \<longrightarrow>
      (\<exists>ID m app. um_find (applications st) ID = Some m \<and> ma_app m = Some app \<and> oa = Some app \<and>
        n = (if g then app_generic_name app else app_name app) \<and> (g \<longrightarrow> app_name app \<noteq> n) \<and>
        (\<forall>ID' m' app'. um_find (applications st) ID' = Some m' \<longrightarrow> ma_app m' = Some app' \<longrightarrow>
           carries app' n \<longrightarrow> ma_rank m \<le> ma_rank m'))) \<and>
    (\<forall>ID m app n. um_find (applications st) ID = Some m \<longrightarrow> ma_app m = Some app \<longrightarrow>
      carries app n \<longrightarrow> n \<in> fst ` set (view_name_app_mapping st))"
proof (intro conjI allI impI)
  note c = reachable_consistent [OF assms]
  show "distinct (map fst (view_name_app_mapping st))" by (rule view_distinct [OF c])
  fix n oa g assume "(n, oa, g) \<in> set (view_name_app_mapping st)"
  from view_element [OF c this]
  obtain ID m app where v: "um_find (applications st) ID = Some m" "ma_app m = Some app" "oa = Some app"
    "n = (if g then app_generic_name app else app_name app)" "g \<longrightarrow> app_name app \<noteq> n"
    "\<forall>i. name_field (um_find (applications st)) i n \<noteq> None \<longrightarrow>
       ma_rank m \<le> rank_at (um_find (applications st)) i" by blast
  have "ma_rank m \<le> ma_rank m'" if "um_find (applications st) ID' = Some m'" "ma_app m' = Some app'"
    "carries app' n" for ID' m' app'
    using v(6) name_field_carries [of "um_find (applications st)", OF that(1,2), of n] that
    by (auto simp: rank_at_def dest!: spec [of _ ID'])
  with v show "\<exists>ID m app. um_find (applications st) ID = Some m \<and> ma_app m = Some app \<and> oa = Some app \<and>
      n = (if g then app_generic_name app else app_name app) \<and> (g \<longrightarrow> app_name app \<noteq> n) \<and>
      (\<forall>ID' m' app'. um_find (applications st) ID' = Some m' \<longrightarrow> ma_app m' = Some app' \<longrightarrow>
         carries app' n \<longrightarrow> ma_rank m \<le> ma_rank m')" by blast
next
  fix ID m app n
  assume "um_find (applications st) ID = Some m" "ma_app m = Some app" "carries app n"
  then have "name_field (um_find (applications st)) ID n \<noteq> None"
    using name_field_carries [of "um_find (applications st)" ID m app n] by simp
  from view_complete [OF reachable_consistent [OF assms] this]
  show "n \<in> fst ` set (view_name_app_mapping st)" by force
qed

lemma sample_find:
  "um_find (applications sample_manager) ''y.desktop'' =
     Some \<lparr>ma_app = Some (sample_app ''Y'' ''X'' ''y'' ''/b/y.desktop''), ma_rank = 1\<rparr>"
  "um_find (applications sample_manager) ''x.desktop'' =
     Some \<lparr>ma_app = Some (sample_app ''X'' [] ''x'' ''/a/x.desktop''), ma_rank = 0\<rparr>"
  by (simp_all add: sample_manager_def um_find_def)

theorem listed_names_witness: "''Y'' \<in> fst ` set (view_name_app_mapping sample_manager)"
proof -
  have "carries (sample_app ''Y'' ''X'' ''y'' ''/b/y.desktop'') ''Y''"
    by (simp add: carries_def sample_app_def)
  with listed_names [OF sample_reachable] sample_find(1) show ?thesis by fastforce
qed

text \<open>C24: on a well-formed list of desktop files (every file below the base path of its rank) the
  constructor returns, and every desktop ID belongs to the first file, in the order of the ranks,
  that has this ID and is disabled or valid (and, outside Wine mode, has a valid \<open>Exec\<close> key);
  files that cannot be used leave the ID to later ones.\<close>

theorem AppManager_ctor_providers:
  assumes "validate_desktop_file_list files" "int (length files) \<le> INT_MAX"
  shows "\<exists>st. AppManager_ctor env wine files = Inr st \<and>
    um_find (applications st) = provider env wine (flat_files 0 files)"
  using AppManager_ctor_spec [OF assms] by blast

theorem AppManager_ctor_providers_witness:
  "provider sample_env False (flat_files 0 sample_list) ''x.desktop'' =
     Some \<lparr>ma_app = Some (sample_app ''X'' [] ''x'' ''/a/x.desktop''), ma_rank = 0\<rparr>"
proof -
  have "um_find (applications sample_manager) = provider sample_env False (flat_files 0 sample_list)"
    using AppManager_ctor_providers [OF sample_list_valid, of sample_env False] sample_ctor
    by (simp add: sample_list_def INT_MAX_def)
  then show ?thesis using sample_find(2) by metis
qed

text \<open>C4: \<open>add\<close> implements its contract on the map from desktop IDs: a new file replaces the one
  with its ID unless that one has a lower rank, a disabled file replaces it by an empty entry, a
  file that cannot be read or parsed changes nothing; and the manager stays well formed. The only
  way to fail is the replacement of an application whose \<open>Name\<close> is also its \<open>GenericName\<close> and
  whose name no other application carries: that aborts the program.\<close>

theorem AppManager_add_refines:
  assumes "well_formed st" "get_desktop_id_base filename base = Inr ID" "0 \<le> rank" "rank < INT_MAX"
  shows "if replaces env ID filename rank (um_find (applications st)) \<and>
      sole_twin (um_find (applications st)) ID
    then AppManager_add env filename base rank st = Inl Aborted
    else \<exists>st'. AppManager_add env filename base rank st = Inr st' \<and> well_formed st' \<and>
      um_find (applications st') = registry_add env ID filename rank (um_find (applications st))"
  using AppManager_add_spec [OF assms(1) [unfolded well_formed_def] assms(2-4), of env]
  by (simp add: well_formed_def)

definition twin_manager :: AppManager where
  "twin_manager =
     \<lparr>applications =
        [(''x.desktop'', \<lparr>ma_app = Some (sample_app ''T'' ''T'' ''t'' ''/b/x.desktop''), ma_rank = 1\<rparr>)],
      name_app_mapping = [(''T'', name_element_of ''x.desktop'' Name)]\<rparr>"

definition twin_files :: "string \<Rightarrow> string option" where
  "twin_files = [''/b/x.desktop'' \<mapsto>
     ''[Desktop Entry]'' @ [NL] @ ''Name=T'' @ [NL] @ ''GenericName=T'' @ [NL] @ ''Exec=t'' @ [NL]]"

lemma twin_ctor:
  "AppManager_ctor \<lparr>env_files = twin_files, env_suffixes = C_locale, env_desktops = []\<rparr> False
     [\<lparr>base_path = ''/a/'', rank_files = []\<rparr>, \<lparr>base_path = ''/b/'', rank_files = [''/b/x.desktop'']\<rparr>]
   = Inr twin_manager"
  by code_simp

lemma twin_reachable: "reachable twin_manager"
  by (rule reachable_ctor [OF _ twin_ctor]) simp

lemma twin_well_formed: "well_formed twin_manager"
  using reachable_consistent [OF twin_reachable] by (simp add: well_formed_def)

lemma twin_sole: "sole_twin (um_find (applications twin_manager)) ''x.desktop''"
  by (auto simp: sole_twin_def twin_manager_def um_find_def sample_app_def name_field_def)

lemma sample_load: "load_app sample_env ''/a/x.desktop'' = Inr (sample_app ''X'' [] ''x'' ''/a/x.desktop'')"
  by code_simp

theorem AppManager_add_refines_witness:
  "AppManager_add sample_env ''/a/x.desktop'' ''/a/'' 0 twin_manager = Inl Aborted"
proof -
  have "replaces sample_env ''x.desktop'' ''/a/x.desktop'' 0 (um_find (applications twin_manager))"
    by (simp add: replaces_def shadowed_def outcome_def sample_load twin_manager_def um_find_def)
  then show ?thesis
    using AppManager_add_refines [OF twin_well_formed, of "''/a/x.desktop''" "''/a/''" "''x.desktop''" 0
        sample_env] twin_sole
    by (simp add: get_desktop_id_base_def get_desktop_id_def INT_MAX_def)
qed

text \<open>C5: \<open>remove\<close> implements deletion on the map from desktop IDs and keeps the manager well
  formed, except that it aborts the program for an application whose \<open>Name\<close> is also its
  \<open>GenericName\<close> when no other application carries that name.\<close>

theorem AppManager_remove_refines:
  assumes "well_formed st" "get_desktop_id_base filename base = Inr ID"
  shows "if sole_twin (um_find (applications st)) ID
    then AppManager_remove filename base st = Inl Aborted
    else \<exists>st'. AppManager_remove filename base st = Inr st' \<and> well_formed st' \<and>
      um_find (applications st') = registry_remove ID (um_find (applications st))"
  using AppManager_remove_consistent [OF assms(1) [unfolded well_formed_def] assms(2)]
  by (simp add: well_formed_def registry_remove_def)

theorem AppManager_remove_refines_witness:
  "AppManager_remove ''/b/x.desktop'' ''/b/'' twin_manager = Inl Aborted"
  using AppManager_remove_refines [OF twin_well_formed, of "''/b/x.desktop''" "''/b/''" "''x.desktop''"]
    twin_sole
  by (simp add: get_desktop_id_base_def get_desktop_id_def)

section \<open>The self check\<close>

lemma check_applications_ok:
  "check_applications ms = Inr () \<longleftrightarrow>
     (\<forall>(ID, m) \<in> set ms. ID \<noteq> [] \<and> 0 \<le> ma_rank m \<and>
        (\<forall>app. ma_app m = Some app \<longrightarrow> app_exec app \<noteq> []))"
  by (induction ms rule: check_applications.induct) (auto split: option.splits)

lemma find_populated:
  "(ID, m) \<in> set apps \<Longrightarrow> ma_app m \<noteq> None \<Longrightarrow>
     find (\<lambda>(ID', m). ma_app m \<noteq> None \<and> ID' = ID) apps \<noteq> None"
  unfolding find_None_iff by blast

lemma check_names_ok:
  assumes "\<And>n e. (n, e) \<in> set es \<Longrightarrow> n \<noteq> [] \<and>
      (\<exists>m. (key_node e, m) \<in> set apps \<and> ma_app m \<noteq> None) \<and>
      (\<exists>m. (ra_app (resolved e), m) \<in> set apps \<and> ma_app m \<noteq> None)"
  shows "check_names apps es = Inr ()"
  using assms
proof (induction es)
  case (Cons x es)
  obtain n e where x: "x = (n, e)" by force
  have "check_names apps es = Inr ()" using Cons.IH Cons.prems by (meson list.set_intros(2))
  moreover obtain m m' where "n \<noteq> []" "(key_node e, m) \<in> set apps" "ma_app m \<noteq> None"
    "(ra_app (resolved e), m') \<in> set apps" "ma_app m' \<noteq> None"
    using Cons.prems [of n e] x by auto
  moreover note find_populated [OF this(2,3)] find_populated [OF this(4,5)]
  ultimately show ?case using x by simp
qed simp

text \<open>\<open>check_inner_state\<close> can only ever fail on an empty desktop ID or on an application without
  an \<open>Exec\<close> key: no pointer and no key of the name mapping dangles, no name is empty and no rank
  is negative.\<close>

theorem check_inner_state_reachable:
  assumes "reachable st"
  shows "check_inner_state st = Inr () \<longleftrightarrow>
    (\<forall>(ID, m) \<in> set (applications st). ID \<noteq> [] \<and> (\<forall>app. ma_app m = Some app \<longrightarrow> app_exec app \<noteq> []))"
proof -
  note c = reachable_consistent [OF assms]
  have rank: "0 \<le> ma_rank m" if "(ID, m) \<in> set (applications st)" for ID m
    using c that unfolding consistent_def apps_ok_def by (metis um_find_in_set)
  have "check_names (applications st) (name_app_mapping st) = Inr ()"
  proof (rule check_names_ok)
    fix n e assume "(n, e) \<in> set (name_app_mapping st)"
    then have "um_find (name_app_mapping st) n = Some e" using c by (simp add: consistent_def um_find_in_set)
    then have "entry_ok (um_find (applications st)) {} n (Some e)"
      using c by (metis consistent_def table_ok_def)
    then obtain ID N where N: "e = name_element_of ID N" "name_field (um_find (applications st)) ID n = Some N"
      by (auto simp: entry_ok_Some)
    from name_field_SomeD [OF N(2)] obtain m where "um_find (applications st) ID = Some m"
      "ma_app m \<noteq> None" "n \<noteq> []" by auto
    then have "(ID, m) \<in> set (applications st)" "ma_app m \<noteq> None" "n \<noteq> []"
      using c by (auto simp: consistent_def um_find_in_set)
    then show "n \<noteq> [] \<and> (\<exists>m. (key_node e, m) \<in> set (applications st) \<and> ma_app m \<noteq> None) \<and>
        (\<exists>m. (ra_app (resolved e), m) \<in> set (applications st) \<and> ma_app m \<noteq> None)"
      using N(1) by auto
  qed
  then have "check_inner_state st = check_applications (applications st)"
    by (auto simp: check_inner_state_def bind_sum_def split: sum.splits)
  then show ?thesis using rank check_applications_ok [of "applications st"] by auto
qed

theorem check_inner_state_reachable_witness: "check_inner_state sample_manager = Inr ()"
  by (subst check_inner_state_reachable [OF sample_reachable])
    (simp add: sample_manager_def sample_app_def)

end
