(* ===== verification/HistoryManager.thy ===== *)
theory HistoryManager
  imports AppManager "HOL-Library.Word"
begin

text \<open>
  \<open>src/HistoryManager.cc\<close>: the history of started applications, a
  \<open>multimap<int, string, greater<int>>\<close> kept in a file. The multimap is the list of its
  elements in order. The file is its content; \<open>err\<close> is the text of \<open>strerror(errno)\<close>.
\<close>

section \<open>The multimap\<close>

type_synonym history_mmap = "(int \<times> string) list"

text \<open>An element is inserted behind those with an equivalent key.\<close>

fun mmap_emplace :: "int \<Rightarrow> string \<Rightarrow> history_mmap \<Rightarrow> history_mmap" where
  "mmap_emplace k v [] = [(k, v)]"
| "mmap_emplace k v (e # es) = (if fst e \<ge> k then e # mmap_emplace k v es else (k, v) # e # es)"

definition mmap_erase_at :: "nat \<Rightarrow> history_mmap \<Rightarrow> history_mmap" where
  "mmap_erase_at i h = take i h @ drop (Suc i) h"

fun find_name :: "string \<Rightarrow> history_mmap \<Rightarrow> nat option" where
  "find_name nm [] = None"
| "find_name nm (e # es) = (if snd e = nm then Some 0 else map_option Suc (find_name nm es))"

section \<open>Files\<close>

definition J4DDHIST_HEADER :: string where "J4DDHIST_HEADER = ''j4dd history v''"
definition J4DDHIST_MAJOR_VERSION :: nat where "J4DDHIST_MAJOR_VERSION = 1"
definition J4DDHIST_MINOR_VERSION :: nat where "J4DDHIST_MINOR_VERSION = 0"

text \<open>
  \<open>%u\<close> of \<open>fscanf\<close>: white space is skipped, a sign is accepted, the digits are converted as
  by \<open>strtoul\<close> (64 bits, saturating) and stored in an \<open>unsigned int\<close>. \<open>None\<close> in the result
  is the end of the input before anything was read, \<open>Some None\<close> a matching failure.
\<close>

definition strtoul_32 :: "bool \<Rightarrow> nat \<Rightarrow> nat" where
  "strtoul_32 neg v =
     (let ulong = (if v < 2 ^ 64 then (if neg then (2 ^ 64 - v) mod 2 ^ 64 else v) else 2 ^ 64 - 1)
      in ulong mod 2 ^ 32)"

definition scan_u :: "string \<Rightarrow> (nat \<times> string) option option" where
  "scan_u s =
     (let s1 = dropWhile is_space s in
      if s1 = [] then None
      else
        let neg = (hd s1 = CHR ''-'');
            s2 = (if hd s1 = CHR ''-'' \<or> hd s1 = CHR ''+'' then tl s1 else s1)
        in if s2 = [] \<or> \<not> is_digit (hd s2) then Some None
           else let (v, rest) = scan_digits 0 s2 in Some (Some (strtoul_32 neg v, rest)))"

text \<open>A literal of the format: input that does not match stays; the count is unaffected.\<close>

definition scan_lit :: "char \<Rightarrow> string \<Rightarrow> string" where
  "scan_lit c s = (case s of [] \<Rightarrow> [] | x # xs \<Rightarrow> if x = c then xs else s)"

text \<open>\<open>unsigned int\<close> to \<open>int\<close>.\<close>

definition int_of_unsigned :: "nat \<Rightarrow> int" where
  "int_of_unsigned n = sint (word_of_nat n :: 32 word)"

definition compare_versions :: "nat \<Rightarrow> nat \<Rightarrow> int" where
  "compare_versions major minor =
     (let major_diff = (if major > J4DDHIST_MAJOR_VERSION then 1 else 0)
            - (if J4DDHIST_MAJOR_VERSION > major then 1 else 0)
      in if major_diff = 0 then
           (if minor > J4DDHIST_MINOR_VERSION then 1 else 0)
            - (if J4DDHIST_MINOR_VERSION > minor then 1 else 0)
         else major_diff)"

text \<open>\<open>is_v0\<close> in its two states.\<close>

function is_v0_count :: "string \<Rightarrow> bool" and is_v0_filename :: "string \<Rightarrow> bool" where
  "is_v0_count [] = True"
| "is_v0_count (c # cs) =
     (if is_digit c then is_v0_count cs
      else if c = CHR '','' then is_v0_filename cs
      else False)"
| "is_v0_filename [] = True"
| "is_v0_filename (c # cs) =
     (case getline cs of
        None \<Rightarrow> False
      | Some (line, rest) \<Rightarrow>
          if length line < 9 then False
          else if drop (length line - 9) line \<noteq> ''.desktop'' @ [NL] then False
          else is_v0_count rest)"
  by pat_completeness auto
termination
  by (relation "measure (\<lambda>x. case x of Inl s \<Rightarrow> length s | Inr s \<Rightarrow> length s)")
    (auto dest: getline_shorter)

definition is_v0 :: "string \<Rightarrow> bool" where
  "is_v0 content = is_v0_count content"

text \<open>
  The loop of \<open>read_file\<close>. Its test for a read error (\<open>result == -1\<close>) never holds, as
  \<open>result\<close> is the value of a comparison: whatever ends the scan ends the loop quietly.
\<close>

lemma scan_digits_shorter: "length (snd (scan_digits a s)) \<le> length s"
  by (induction a s rule: scan_digits.induct) auto

lemma scan_u_shorter: "scan_u s = Some (Some (n, rest)) \<Longrightarrow> length rest \<le> length s"
  using scan_digits_shorter [of 0] length_dropWhile_le [of is_space s]
  by (auto simp: scan_u_def Let_def split: if_splits prod.splits) (metis le_trans snd_conv diff_le_self length_tl)+

lemma scan_lit_shorter: "length (scan_lit c s) \<le> length s"
  by (auto simp: scan_lit_def split: list.splits)

function read_entries :: "string \<Rightarrow> string \<Rightarrow> string \<Rightarrow> history_mmap \<Rightarrow> fault + history_mmap" where
  "read_entries err nm s h =
     (case scan_u s of
        Some (Some (history_count, s1)) \<Rightarrow>
          (case getline (scan_lit (CHR '','') s1) of
             None \<Rightarrow> Inl (Runtime_error (''Error while reading history file '' @ quoted nm @ '': '' @ err))
           | Some (line, rest) \<Rightarrow>
               if length line = 1 then
                 Inl (Runtime_error (''Error while reading history file '' @ quoted nm @
                   '': Empty history entry present!''))
               else read_entries err nm rest
                      (mmap_emplace (int_of_unsigned history_count) (butlast line) h))
      | _ \<Rightarrow> Inr h)"
  by pat_completeness auto
termination
proof (relation "measure (\<lambda>(err, nm, s, h). length s)")
  fix err nm s h oo p n s1 q line rest
  assume "scan_u s = Some oo" "oo = Some p" "(n, s1) = p" "getline (scan_lit (CHR '','') s1) = Some q"
    "(line, rest) = q"
  then have "length rest < length (scan_lit (CHR '','') s1)" "length s1 \<le> length s"
    using getline_shorter scan_u_shorter by auto
  with scan_lit_shorter [of "CHR '',''" s1]
  show "((err, nm, rest, mmap_emplace (int_of_unsigned n) (butlast line) h), (err, nm, s, h))
      \<in> measure (\<lambda>(err, nm, s, h). length s)" by simp
qed auto

declare read_entries.simps [simp del]

section \<open>The class\<close>

record HistoryManager =
  hm_file :: string
  hm_history :: history_mmap
  hm_filename :: string

text \<open>
  \<open>%u.%u\<close> and the newline after it: the versions and the rest of the file, or the exception.
\<close>

definition read_version :: "string \<Rightarrow> string \<Rightarrow> string \<Rightarrow> fault + nat \<times> nat \<times> string" where
  "read_version err path s =
     (let unreadable = Runtime_error (''Couldn't read history file version of '' @ quoted path @ ''!'')
      in case scan_u s of
        None \<Rightarrow> Inl (Runtime_error
          (''Couldn't read history file version of '' @ quoted path @ '': '' @ err))
      | Some None \<Rightarrow> Inl unreadable
      | Some (Some (major, s1)) \<Rightarrow>
          if s1 = [] \<or> hd s1 \<noteq> CHR ''.'' then Inl unreadable
          else case scan_u (tl s1) of
            Some (Some (minor, s2)) \<Rightarrow>
              if s2 = [] \<or> hd s2 \<noteq> NL then
                Inl (Runtime_error (''Format error in history file '' @ quoted path @ ''!''))
              else Inr (major, minor, tl s2)
          | _ \<Rightarrow> Inl unreadable)"

definition incompatible_message :: "int \<Rightarrow> nat \<Rightarrow> nat \<Rightarrow> string" where
  "incompatible_message cmp major minor =
     ''History file is incompatible with the current build of j4-dmenu-desktop! '' @
     ''History file format is too '' @ (if cmp < 0 then ''old'' else ''new'') @
     ''! Expected version '' @ to_string J4DDHIST_MAJOR_VERSION @ ''.'' @
     to_string J4DDHIST_MINOR_VERSION @ '', got version '' @ to_string major @ ''.'' @ to_string minor"

text \<open>
  The constructor. \<open>files\<close> are the files that can be opened for reading and writing,
  \<open>creatable\<close> the paths at which an empty file can be made.
\<close>

definition HistoryManager_ctor ::
  "string \<Rightarrow> (string \<Rightarrow> string option) \<Rightarrow> (string \<Rightarrow> bool) \<Rightarrow> string \<Rightarrow> fault + HistoryManager" where
  "HistoryManager_ctor err files creatable path =
     (case files path of
        None \<Rightarrow>
          if creatable path then Inr \<lparr>hm_file = [], hm_history = [], hm_filename = path\<rparr>
          else Inl (Runtime_error (''Couldn't open file '' @ quoted path @ '': '' @ err))
      | Some content \<Rightarrow>
          (let n = length J4DDHIST_HEADER in
           if length content < n \<or> take n content \<noteq> J4DDHIST_HEADER then
             (if is_v0 content
              then Inl (V0_version_error (''History file '' @ quoted path @ '' is outdated!''))
              else Inl (Runtime_error (''History file '' @ quoted path @ '' is malformed!'')))
           else bind_sum (read_version err path (drop n content)) (\<lambda>(major, minor, rest).
             let cmp = compare_versions major minor in
             if cmp \<noteq> 0 then Inl (Runtime_error (incompatible_message cmp major minor))
             else bind_sum (read_entries err path rest []) (\<lambda>h.
               Inr \<lparr>hm_file = content, hm_history = h, hm_filename = path\<rparr>))))"

definition history_line :: "int \<times> string \<Rightarrow> string" where
  "history_line e = int_to_string (fst e) @ CHR '','' # snd e @ [NL]"

definition history_text :: "history_mmap \<Rightarrow> string" where
  "history_text h =
     J4DDHIST_HEADER @ to_string J4DDHIST_MAJOR_VERSION @ CHR ''.'' #
     to_string J4DDHIST_MINOR_VERSION @ [NL] @ concat (map history_line h)"

text \<open>\<open>write\<close>; \<open>trunc\<close> is whether \<open>ftruncate\<close> succeeds.\<close>

definition HistoryManager_write :: "string \<Rightarrow> bool \<Rightarrow> HistoryManager \<Rightarrow> fault + HistoryManager" where
  "HistoryManager_write err trunc hm =
     (if \<not> trunc then
        Inl (Runtime_error (''Couldn't ftruncate '' @ quoted (hm_filename hm) @ '': '' @ err))
      else Inr (hm\<lparr>hm_file := history_text (hm_history hm)\<rparr>))"

text \<open>
  \<open>increment\<close> emplaces the new element and then erases the old node; insertion does not
  depend on the node, so it is erased first here. The sum overflows at \<open>INT_MAX\<close>.
\<close>

definition increment_entry :: "string \<Rightarrow> history_mmap \<Rightarrow> fault + history_mmap" where
  "increment_entry nm h =
     (case find_name nm h of
        None \<Rightarrow> Inr (mmap_emplace 1 nm h)
      | Some i \<Rightarrow>
          if fst (h ! i) = INT_MAX then Inl Undefined
          else Inr (mmap_emplace (fst (h ! i) + 1) nm (mmap_erase_at i h)))"

definition HistoryManager_increment ::
  "string \<Rightarrow> bool \<Rightarrow> string \<Rightarrow> HistoryManager \<Rightarrow> fault + HistoryManager" where
  "HistoryManager_increment err trunc nm hm =
     bind_sum (increment_entry nm (hm_history hm)) (\<lambda>h.
       HistoryManager_write err trunc (hm\<lparr>hm_history := h\<rparr>))"

text \<open>\<open>remove_obsolete_entry\<close>: the iterator is an index; the result points behind the element.\<close>

definition remove_obsolete_entry ::
  "string \<Rightarrow> bool \<Rightarrow> nat \<Rightarrow> HistoryManager \<Rightarrow> fault + nat \<times> HistoryManager" where
  "remove_obsolete_entry err trunc i hm =
     bind_sum (HistoryManager_write err trunc (hm\<lparr>hm_history := mmap_erase_at i (hm_history hm)\<rparr>))
       (\<lambda>hm'. Inr (i, hm'))"

definition HistoryManager_view :: "HistoryManager \<Rightarrow> history_mmap" where
  "HistoryManager_view hm = hm_history hm"

section \<open>Conversion of the old format\<close>

text \<open>One name of one entry: recorded unless it has been already.\<close>

definition convert_name ::
  "int \<Rightarrow> string \<Rightarrow> string set \<times> history_mmap \<Rightarrow> string set \<times> history_mmap" where
  "convert_name k nm acc =
     (let (seen, h) = acc in if nm \<in> seen then acc else (insert nm seen, mmap_emplace k nm h))"

definition convert_app ::
  "int \<Rightarrow> Application \<Rightarrow> string set \<times> history_mmap \<Rightarrow> string set \<times> history_mmap" where
  "convert_app k app acc =
     (let acc1 = convert_name k (app_name app) acc
      in if app_generic_name app \<noteq> [] then convert_name k (app_generic_name app) acc1 else acc1)"

function convert_entries ::
  "string \<Rightarrow> AppManager \<Rightarrow> string \<Rightarrow> string set \<times> history_mmap \<Rightarrow> fault + history_mmap" where
  "convert_entries err appm s acc =
     (case scan_u s of
        Some (Some (hist_count, s1)) \<Rightarrow>
          (case getline (scan_lit (CHR '','') s1) of
             None \<Rightarrow> Inl (Runtime_error (''Read error: '' @ err))
           | Some (line, rest) \<Rightarrow>
               convert_entries err appm rest
                 (case lookup_by_ID appm (cstr (butlast line)) of
                    None \<Rightarrow> acc
                  | Some app \<Rightarrow> convert_app (int_of_unsigned hist_count) app acc))
      | _ \<Rightarrow> Inr (snd acc))"
  by pat_completeness auto
termination
proof (relation "measure (\<lambda>(err, appm, s, acc). length s)")
  fix err appm s acc oo p n s1 q line rest
  assume "scan_u s = Some oo" "oo = Some p" "(n, s1) = p"
    "getline (scan_lit (CHR '','') s1) = Some q" "(line, rest) = q"
  then have "length rest < length (scan_lit (CHR '','') s1)" "length s1 \<le> length s"
    using getline_shorter scan_u_shorter by auto
  with scan_lit_shorter [of "CHR '',''" s1]
  show "((err, appm, rest, case lookup_by_ID appm (cstr (butlast line)) of None \<Rightarrow> acc
      | Some app \<Rightarrow> convert_app (int_of_unsigned n) app acc), (err, appm, s, acc))
      \<in> measure (\<lambda>(err, appm, s, acc). length s)" by simp
qed auto

declare convert_entries.simps [simp del]

text \<open>
  \<open>convert_history_from_v0\<close>: the file is opened again for appending; \<open>appendable\<close> says
  whether that succeeds, which the code does not check.
\<close>

definition convert_history_from_v0 ::
  "string \<Rightarrow> (string \<Rightarrow> string option) \<Rightarrow> (string \<Rightarrow> bool) \<Rightarrow> bool \<Rightarrow> string \<Rightarrow> AppManager \<Rightarrow>
     fault + HistoryManager" where
  "convert_history_from_v0 err files appendable trunc path appm =
     (case files path of
        None \<Rightarrow> Inl (Runtime_error
          (''Couldn't open file '' @ quoted path @ '' for conversion: '' @ err))
      | Some content \<Rightarrow>
          bind_sum (convert_entries err appm content ({}, [])) (\<lambda>result.
            if \<not> appendable path then Inl Undefined
            else HistoryManager_write err trunc
              \<lparr>hm_file = content, hm_history = result, hm_filename = path\<rparr>))"

end
