(* ===== verification/HistoryManagerFacts.thy ===== *)
theory HistoryManagerFacts
  imports HistoryManager AppManagerSteps
begin

text \<open>
  The history: what is written is what a later start reads, counting keeps the order and the
  names, the old format is recognised exactly and its conversion yields every name once.
\<close>

section \<open>Scanning what was printed\<close>

lemma scan_u_to_string [scan_simps]:
  assumes "n < 2 ^ 32" "r = [] \<or> \<not> is_digit (hd r)"
  shows "scan_u (to_string n @ r) = Some (Some (n, r))"
proof -
  have d: "is_digit (hd (to_string n @ r))" using hd_to_string by simp
  have sp: "\<not> is_space (hd (to_string n @ r))" by (rule is_space_not_digit [OF d])
  have s: "dropWhile is_space (to_string n @ r) = to_string n @ r"
    using sp by (metis dropWhile.simps(2) append_is_Nil_conv list.collapse to_string_nonempty)
  have sg: "hd (to_string n @ r) \<noteq> CHR ''-''" "hd (to_string n @ r) \<noteq> CHR ''+''"
    using d by (auto simp: is_digit_def)
  have "strtoul_32 False n = n" using assms(1) by (simp add: strtoul_32_def)
  then show ?thesis
    using s sg d scan_digits_to_string [OF assms(2), of n] by (simp add: scan_u_def)
qed

lemma scan_u_int_to_string [scan_simps]:
  assumes "0 \<le> k" "k \<le> INT_MAX"
  shows "scan_u (int_to_string k @ CHR '','' # r) = Some (Some (nat k, CHR '','' # r))"
  using assms scan_u_to_string [of "nat k" "CHR '','' # r"]
  by (simp add: int_to_string_def INT_MAX_def comma_not_digit)

lemma int_of_unsigned_small: "k \<le> INT_MAX \<Longrightarrow> 0 \<le> k \<Longrightarrow> int_of_unsigned (nat k) = k"
  by (simp add: int_of_unsigned_def INT_MAX_def signed_of_int signed_take_bit_int_eq_self)

section \<open>Order of the multimap\<close>

definition mmap_sorted :: "history_mmap \<Rightarrow> bool" where
  "mmap_sorted h \<longleftrightarrow> sorted_wrt (\<lambda>a b. fst b \<le> fst a) h"

lemma mmap_emplace_last:
  "\<forall>e \<in> set h. k \<le> fst e \<Longrightarrow> mmap_emplace k v h = h @ [(k, v)]"
  by (induction h) auto

lemma set_mmap_emplace [simp]: "set (mmap_emplace k v h) = insert (k, v) (set h)"
  by (induction h) auto

lemma mmap_emplace_sorted: "mmap_sorted h \<Longrightarrow> mmap_sorted (mmap_emplace k v h)"
  by (induction h) (auto simp: mmap_sorted_def)

lemma filter_mmap_emplace:
  "\<not> P (k, v) \<Longrightarrow> filter P (mmap_emplace k v h) = filter P h"
  by (induction h) auto

lemma mmap_emplace_split:
  "\<exists>a b. h = a @ b \<and> mmap_emplace k v h = a @ (k, v) # b \<and> (\<forall>e \<in> set a. k \<le> fst e) \<and>
     (b = [] \<or> fst (hd b) < k)"
proof (induction h)
  case (Cons e es)
  then obtain a b where ab: "es = a @ b" "mmap_emplace k v es = a @ (k, v) # b"
    "\<forall>e \<in> set a. k \<le> fst e" "b = [] \<or> fst (hd b) < k" by blast
  show ?case
  proof (cases "fst e \<ge> k")
    case True
    then have "e # es = (e # a) @ b \<and> mmap_emplace k v (e # es) = (e # a) @ (k, v) # b \<and>
        (\<forall>e \<in> set (e # a). k \<le> fst e) \<and> (b = [] \<or> fst (hd b) < k)" using ab by simp
    then show ?thesis by blast
  next
    case False
    then have "e # es = [] @ e # es \<and> mmap_emplace k v (e # es) = [] @ (k, v) # e # es \<and>
        (\<forall>e \<in> set []. k \<le> fst e) \<and> (e # es = [] \<or> fst (hd (e # es)) < k)" by simp
    then show ?thesis by blast
  qed
qed simp

lemma mmap_erase_at_simps [simp]:
  "mmap_erase_at 0 (e # es) = es"
  "mmap_erase_at (Suc i) (e # es) = e # mmap_erase_at i es"
  "mmap_erase_at i [] = []"
  by (simp_all add: mmap_erase_at_def)

lemma mmap_erase_at_subset: "set (mmap_erase_at i h) \<subseteq> set h"
  by (auto simp: mmap_erase_at_def dest: in_set_takeD in_set_dropD)

lemma mmap_erase_at_sorted: "mmap_sorted h \<Longrightarrow> mmap_sorted (mmap_erase_at i h)"
proof (induction h arbitrary: i)
  case (Cons e es)
  then show ?case
    using mmap_erase_at_subset [of "i - 1" es] by (cases i) (auto simp: mmap_sorted_def)
qed simp

lemma find_name_None: "find_name nm h = None \<longleftrightarrow> nm \<notin> snd ` set h"
  by (induction h) auto

lemma find_name_Some: "find_name nm h = Some i \<Longrightarrow> i < length h \<and> snd (h ! i) = nm"
proof (induction h arbitrary: i)
  case (Cons e es)
  then show ?case by (cases i) (auto split: if_splits)
qed simp

section \<open>Writing and reading back\<close>

text \<open>What a line of the file can hold.\<close>

definition storable :: "int \<times> string \<Rightarrow> bool" where
  "storable e \<longleftrightarrow> 0 \<le> fst e \<and> fst e \<le> INT_MAX \<and> snd e \<noteq> [] \<and> NL \<notin> set (snd e)"

definition history_ok :: "history_mmap \<Rightarrow> bool" where
  "history_ok h \<longleftrightarrow> mmap_sorted h \<and> (\<forall>e \<in> set h. storable e)"

lemma getline_line: "NL \<notin> set l \<Longrightarrow> getline (l @ NL # r) = Some (l @ [NL], r)"
  by (simp add: getline_def)

lemma read_entries_line:
  assumes "storable (k, nm)"
  shows "read_entries err p (history_line (k, nm) @ r) h = read_entries err p r (mmap_emplace k nm h)"
proof -
  have s: "history_line (k, nm) @ r = int_to_string k @ CHR '','' # (nm @ NL # r)"
    by (simp add: history_line_def)
  have "read_entries err p (int_to_string k @ CHR '','' # (nm @ NL # r)) h =
      read_entries err p r (mmap_emplace k nm h)"
    using assms scan_u_int_to_string [of k "nm @ NL # r"]
    by (subst read_entries.simps)
      (simp add: storable_def scan_lit_def getline_line int_of_unsigned_small)
  then show ?thesis by (simp only: s)
qed

lemma read_entries_Nil: "read_entries err p [] h = Inr h"
  by (subst read_entries.simps) (simp add: scan_u_def)

lemma read_entries_lines:
  assumes "mmap_sorted (h @ es)" "\<forall>e \<in> set es. storable e"
  shows "read_entries err p (concat (map history_line es)) h = Inr (h @ es)"
  using assms
proof (induction es arbitrary: h)
  case Nil
  then show ?case by (simp add: read_entries_Nil)
next
  case (Cons e es)
  obtain k nm where e: "e = (k, nm)" by force
  have "mmap_emplace k nm h = h @ [(k, nm)]"
    using Cons.prems(1) by (intro mmap_emplace_last) (auto simp: mmap_sorted_def sorted_wrt_append e)
  then show ?case
    using Cons.IH [of "h @ [e]"] Cons.prems read_entries_line [of k nm err p _ h] e by simp
qed

lemma read_version_own:
  "read_version err p (to_string J4DDHIST_MAJOR_VERSION @ CHR ''.'' #
     to_string J4DDHIST_MINOR_VERSION @ NL # r) =
   Inr (J4DDHIST_MAJOR_VERSION, J4DDHIST_MINOR_VERSION, r)"
  using scan_u_to_string [of J4DDHIST_MAJOR_VERSION
      "CHR ''.'' # to_string J4DDHIST_MINOR_VERSION @ NL # r"]
    scan_u_to_string [of J4DDHIST_MINOR_VERSION "NL # r"]
  by (simp add: read_version_def J4DDHIST_MAJOR_VERSION_def J4DDHIST_MINOR_VERSION_def comma_not_digit)

lemma history_file_read:
  assumes "history_ok h" "files path = Some (history_text h)"
  shows "HistoryManager_ctor err files creatable path =
    Inr \<lparr>hm_file = history_text h, hm_history = h, hm_filename = path\<rparr>"
proof -
  have v: "compare_versions J4DDHIST_MAJOR_VERSION J4DDHIST_MINOR_VERSION = 0"
    by (simp add: compare_versions_def)
  have r: "read_entries err path (concat (map history_line h)) [] = Inr h"
    using assms(1) read_entries_lines [of "[]" h err path] by (simp add: history_ok_def)
  show ?thesis
    using assms(2) read_version_own [of err path "concat (map history_line h)"] v r
    by (simp add: HistoryManager_ctor_def history_text_def Let_def)
qed

text \<open>Whatever history is written (in the order of the multimap, with non-empty one-line names
  and counts of an \<open>int\<close>), the next start of the program reads exactly that history back, entries
  with equal counts in the same order.\<close>

theorem history_roundtrip:
  assumes "mmap_sorted h" "\<forall>e \<in> set h. storable e"
    "HistoryManager_write err True hm = Inr hm'" "hm_history hm = h"
    "files (hm_filename hm) = Some (hm_file hm')"
  shows "HistoryManager_ctor err files creatable (hm_filename hm) = Inr hm'"
  using history_file_read [of h files "hm_filename hm" err creatable] assms
  by (auto simp: history_ok_def HistoryManager_write_def)

theorem history_roundtrip_witness:
  "HistoryManager_ctor [] [''h'' \<mapsto> history_text [(3, ''A, B''), (1, ''x''), (1, '' a'')]] (\<lambda>_. False) ''h'' =
     Inr \<lparr>hm_file = history_text [(3, ''A, B''), (1, ''x''), (1, '' a'')],
          hm_history = [(3, ''A, B''), (1, ''x''), (1, '' a'')], hm_filename = ''h''\<rparr>"
  by (rule history_roundtrip [of "[(3, ''A, B''), (1, ''x''), (1, '' a'')]" "[]"
        "\<lparr>hm_file = [], hm_history = [(3, ''A, B''), (1, ''x''), (1, '' a'')], hm_filename = ''h''\<rparr>",
        simplified])
    (simp_all add: mmap_sorted_def storable_def INT_MAX_def HistoryManager_write_def)

section \<open>Counting\<close>

definition count_of :: "string \<Rightarrow> history_mmap \<Rightarrow> int" where
  "count_of nm h = (case find_name nm h of None \<Rightarrow> 0 | Some i \<Rightarrow> fst (h ! i))"

definition unique_names :: "history_mmap \<Rightarrow> bool" where
  "unique_names h \<longleftrightarrow> distinct (map snd h)"

lemma count_of_simps [simp]:
  "count_of nm [] = 0"
  "count_of nm (e # es) = (if snd e = nm then fst e else count_of nm es)"
  by (auto simp: count_of_def split: option.splits)

lemma count_of_absent: "nm \<notin> snd ` set h \<Longrightarrow> count_of nm h = 0"
  by (induction h) auto

lemma count_of_emplace:
  "nm \<notin> snd ` set h \<Longrightarrow> count_of m (mmap_emplace k nm h) = (if m = nm then k else count_of m h)"
  by (induction h) (auto simp: count_of_absent)

lemma mset_mmap_emplace: "mset (mmap_emplace k v h) = add_mset (k, v) (mset h)"
  by (induction h) auto

lemma unique_names_emplace: "unique_names (mmap_emplace k nm h) \<longleftrightarrow> nm \<notin> snd ` set h \<and> unique_names h"
proof -
  have "mset (map snd (mmap_emplace k nm h)) = mset (nm # map snd h)"
    by (simp add: mset_mmap_emplace)
  from mset_eq_imp_distinct_iff [OF this] show ?thesis by (simp add: unique_names_def)
qed

lemma mmap_erase_at_found:
  assumes "unique_names h" "find_name nm h = Some i"
  shows "mmap_erase_at i h = filter (\<lambda>e. snd e \<noteq> nm) h"
  using assms
proof (induction h arbitrary: i)
  case (Cons e es)
  show ?case
  proof (cases "snd e = nm")
    case True
    with Cons.prems(1) have "nm \<notin> snd ` set es" by (simp add: unique_names_def)
    then have "\<forall>x \<in> set es. snd x \<noteq> nm" by auto
    then have "filter (\<lambda>e. snd e \<noteq> nm) es = es" by (simp add: filter_id_conv)
    with True Cons.prems show ?thesis by simp
  next
    case False
    with Cons show ?thesis by (auto simp: unique_names_def)
  qed
qed simp

lemma count_of_filter: "count_of m (filter (\<lambda>e. snd e \<noteq> nm) h) = (if m = nm then 0 else count_of m h)"
  by (induction h) auto

lemma filter_not_name: "nm \<notin> snd ` set h \<Longrightarrow> filter (\<lambda>e. snd e \<noteq> nm) h = h"
  by (rule filter_True) auto

lemma increment_entry_spec:
  assumes "unique_names h" "count_of nm h < INT_MAX"
  shows "increment_entry nm h = Inr (mmap_emplace (count_of nm h + 1) nm (filter (\<lambda>e. snd e \<noteq> nm) h))"
proof (cases "find_name nm h")
  case None
  then have "nm \<notin> snd ` set h" by (simp add: find_name_None)
  with None show ?thesis by (simp add: increment_entry_def count_of_def filter_not_name)
next
  case (Some i)
  with assms show ?thesis by (simp add: increment_entry_def count_of_def mmap_erase_at_found)
qed

lemma mmap_sorted_filter: "mmap_sorted h \<Longrightarrow> mmap_sorted (filter P h)"
  by (induction h) (auto simp: mmap_sorted_def)

lemma unique_names_filter: "unique_names h \<Longrightarrow> unique_names (filter P h)"
  by (induction h) (auto simp: unique_names_def)

text \<open>Starting an application counts it once more, leaves every other count alone, keeps the
  names unique and the entries sorted by count, keeps the order of the other entries, and writes
  the new history to the file. (Only a count of 2147483647 would overflow.)\<close>

theorem increment_counts:
  assumes "mmap_sorted (hm_history hm)" "unique_names (hm_history hm)"
    "count_of nm (hm_history hm) < INT_MAX"
  shows "\<exists>hm'. HistoryManager_increment err True nm hm = Inr hm' \<and>
    (\<forall>m. count_of m (hm_history hm') = count_of m (hm_history hm) + (if m = nm then 1 else 0)) \<and>
    mmap_sorted (hm_history hm') \<and> unique_names (hm_history hm') \<and>
    filter (\<lambda>e. snd e \<noteq> nm) (hm_history hm') = filter (\<lambda>e. snd e \<noteq> nm) (hm_history hm) \<and>
    hm_file hm' = history_text (hm_history hm')"
proof -
  let ?h = "hm_history hm"
  let ?f = "filter (\<lambda>e. snd e \<noteq> nm) ?h"
  have no: "nm \<notin> snd ` set ?f" by auto
  have "filter (\<lambda>e. snd e \<noteq> nm) (mmap_emplace (count_of nm ?h + 1) nm ?f) = ?f"
    by (simp add: filter_mmap_emplace)
  then show ?thesis
    using increment_entry_spec [OF assms(2,3)] mmap_sorted_filter [OF assms(1)]
      unique_names_filter [OF assms(2)] count_of_emplace [OF no] no
    by (auto simp: HistoryManager_increment_def HistoryManager_write_def mmap_emplace_sorted
        unique_names_emplace count_of_filter)
qed

theorem increment_counts_witness:
  "HistoryManager_increment [] True ''b''
     \<lparr>hm_file = [], hm_history = [(2, ''a''), (1, ''b'')], hm_filename = []\<rparr> =
   Inr \<lparr>hm_file = history_text [(2, ''a''), (2, ''b'')], hm_history = [(2, ''a''), (2, ''b'')],
        hm_filename = []\<rparr> \<and>
   (\<exists>hm'. HistoryManager_increment [] True ''b''
      \<lparr>hm_file = [], hm_history = [(2, ''a''), (1, ''b'')], hm_filename = []\<rparr> = Inr hm' \<and>
      count_of ''b'' (hm_history hm') = 2)"
proof -
  let ?hm = "\<lparr>hm_file = [], hm_history = [(2, ''a''), (1, ''b'')], hm_filename = []\<rparr>"
  have "mmap_sorted (hm_history ?hm)" "unique_names (hm_history ?hm)"
    "count_of ''b'' (hm_history ?hm) < INT_MAX"
    by (simp_all add: mmap_sorted_def unique_names_def INT_MAX_def)
  from increment_counts [OF this, of "[]"]
  have "\<exists>hm'. HistoryManager_increment [] True ''b'' ?hm = Inr hm' \<and> count_of ''b'' (hm_history hm') = 2"
    by auto
  then show ?thesis
    by (simp add: HistoryManager_increment_def increment_entry_def HistoryManager_write_def
        mmap_erase_at_def INT_MAX_def)
qed

section \<open>Sessions\<close>

datatype history_op = Op_increment string | Op_remove nat

fun run_history :: "string \<Rightarrow> history_op list \<Rightarrow> HistoryManager \<Rightarrow> fault + HistoryManager" where
  "run_history err [] hm = Inr hm"
| "run_history err (Op_increment nm # ops) hm =
     bind_sum (HistoryManager_increment err True nm hm) (run_history err ops)"
| "run_history err (Op_remove i # ops) hm =
     bind_sum (remove_obsolete_entry err True i hm) (\<lambda>(_, hm'). run_history err ops hm')"

definition session_ok :: "HistoryManager \<Rightarrow> bool" where
  "session_ok hm \<longleftrightarrow> history_ok (hm_history hm)"

lemma increment_entry_ok:
  assumes "history_ok h" "increment_entry nm h = Inr h'" "nm \<noteq> []" "NL \<notin> set nm"
  shows "history_ok h'"
proof (cases "find_name nm h")
  case None
  with assms show ?thesis
    by (auto simp: increment_entry_def history_ok_def mmap_emplace_sorted storable_def INT_MAX_def)
next
  case (Some i)
  from find_name_Some [OF this] have "h ! i \<in> set h" by simp
  with assms Some have "storable (h ! i)" "fst (h ! i) \<noteq> INT_MAX"
    by (auto simp: history_ok_def increment_entry_def split: if_splits)
  then have "storable (fst (h ! i) + 1, nm)" using assms(3,4) by (simp add: storable_def)
  with assms Some mmap_erase_at_subset [of i h] show ?thesis
    by (auto simp: increment_entry_def history_ok_def mmap_emplace_sorted mmap_erase_at_sorted
        split: if_splits)
qed

lemma run_history_ok:
  "run_history err ops hm = Inr hm' \<Longrightarrow> history_ok (hm_history hm) \<Longrightarrow>
     hm_file hm = history_text (hm_history hm) \<Longrightarrow>
     (\<forall>nm. Op_increment nm \<in> set ops \<longrightarrow> nm \<noteq> [] \<and> NL \<notin> set nm) \<Longrightarrow>
     history_ok (hm_history hm') \<and> hm_file hm' = history_text (hm_history hm') \<and>
     hm_filename hm' = hm_filename hm"
proof (induction err ops hm rule: run_history.induct)
  case (2 err nm ops hm)
  then obtain h where h: "increment_entry nm (hm_history hm) = Inr h"
    "run_history err ops (hm\<lparr>hm_history := h, hm_file := history_text h\<rparr>) = Inr hm'"
    by (auto simp: HistoryManager_increment_def HistoryManager_write_def)
  have "history_ok h" using increment_entry_ok [OF "2.prems"(2) h(1)] "2.prems"(4) by simp
  moreover have "HistoryManager_increment err True nm hm =
      Inr (hm\<lparr>hm_history := h, hm_file := history_text h\<rparr>)"
    using h(1) by (simp add: HistoryManager_increment_def HistoryManager_write_def)
  ultimately show ?case using "2.IH" [of "hm\<lparr>hm_history := h, hm_file := history_text h\<rparr>"] h(2) "2.prems"(4) by simp
next
  case (3 err i ops hm)
  let ?h = "mmap_erase_at i (hm_history hm)"
  have "history_ok ?h"
    using "3.prems"(2) mmap_erase_at_subset [of i "hm_history hm"]
    by (auto simp: history_ok_def mmap_erase_at_sorted)
  moreover have "remove_obsolete_entry err True i hm =
      Inr (i, hm\<lparr>hm_history := ?h, hm_file := history_text ?h\<rparr>)"
    by (simp add: remove_obsolete_entry_def HistoryManager_write_def)
  ultimately show ?case using "3.IH" "3.prems" by simp
qed simp

text \<open>C10: after any sequence of counted starts and removals the file on disk is one from which the
  next start of the program rebuilds exactly the history of the running one.\<close>

theorem history_persistent:
  assumes "HistoryManager_ctor err files creatable path = Inr hm"
    "files path = Some (history_text h)" "history_ok h"
    "\<forall>nm. Op_increment nm \<in> set ops \<longrightarrow> nm \<noteq> [] \<and> NL \<notin> set nm"
    "run_history err ops hm = Inr hm'"
  shows "HistoryManager_ctor err (files(path \<mapsto> hm_file hm')) creatable path = Inr hm'"
proof -
  have hm: "hm = \<lparr>hm_file = history_text h, hm_history = h, hm_filename = path\<rparr>"
    using history_file_read [of h files path err creatable] assms(1-3) by simp
  from run_history_ok [OF assms(5) _ _ assms(4)] assms(3) hm
  have "history_ok (hm_history hm')" "hm_file hm' = history_text (hm_history hm')"
    "hm_filename hm' = path" by auto
  with history_file_read [of "hm_history hm'" "files(path \<mapsto> hm_file hm')" path err creatable]
  show ?thesis by simp
qed

theorem history_persistent_witness:
  "\<exists>hm'. run_history [] [Op_increment ''b'', Op_remove 0]
      \<lparr>hm_file = history_text [(1, ''a'')], hm_history = [(1, ''a'')], hm_filename = ''h''\<rparr> = Inr hm' \<and>
    HistoryManager_ctor [] [''h'' \<mapsto> hm_file hm'] (\<lambda>_. False) ''h'' = Inr hm'"
proof -
  let ?hm = "\<lparr>hm_file = history_text [(1, ''a'')], hm_history = [(1, ''a'')], hm_filename = ''h''\<rparr>"
  have ok: "history_ok [(1, ''a'')]" by (simp add: history_ok_def mmap_sorted_def storable_def INT_MAX_def)
  have c: "HistoryManager_ctor [] [''h'' \<mapsto> history_text [(1, ''a'')]] (\<lambda>_. False) ''h'' = Inr ?hm"
    by (rule history_file_read [OF ok]) simp
  obtain hm' where r: "run_history [] [Op_increment ''b'', Op_remove 0] ?hm = Inr hm'"
    by (simp add: HistoryManager_increment_def increment_entry_def HistoryManager_write_def
        remove_obsolete_entry_def)
  from history_persistent [OF c _ ok _ r] r show ?thesis by auto
qed

section \<open>The old format\<close>

text \<open>
  The grammar of the old format: lines of a number, a comma and a file name that ends in
  \<open>.desktop\<close>, then possibly a number or a number and a comma. The first character of a name is
  read apart from the rest of its line and may be anything.
\<close>

definition digits :: "string \<Rightarrow> bool" where
  "digits s \<longleftrightarrow> (\<forall>c \<in> set s. is_digit c)"

inductive v0_history :: "string \<Rightarrow> bool" where
  v0_end: "digits ds \<Longrightarrow> v0_history ds"
| v0_comma: "digits ds \<Longrightarrow> v0_history (ds @ '','')"
| v0_line: "digits ds \<Longrightarrow> NL \<notin> set nm \<Longrightarrow> v0_history r \<Longrightarrow>
    v0_history (ds @ '','' @ c # nm @ ''.desktop'' @ NL # r)"

lemma is_v0_digits: "digits ds \<Longrightarrow> is_v0_count (ds @ r) = is_v0_count r"
  by (induction ds) (auto simp: digits_def)

lemma getline_desktop:
  "getline cs = Some (line, rest) \<and> 9 \<le> length line \<and>
     drop (length line - 9) line = ''.desktop'' @ [NL] \<longleftrightarrow>
   (\<exists>nm. NL \<notin> set nm \<and> cs = nm @ ''.desktop'' @ NL # rest \<and> line = nm @ ''.desktop'' @ [NL])"
  (is "?L \<longleftrightarrow> ?R")
proof
  assume l: ?L
  define nm where "nm = take (length line - 9) line"
  have line: "line = nm @ ''.desktop'' @ [NL]"
    using l append_take_drop_id [of "length line - 9" line] by (simp add: nm_def)
  then have last: "last line = NL" by simp
  show ?R
  proof (cases "find_char NL cs")
    case None
    then have "line = cs" "NL \<notin> set cs" using l by (auto simp: getline_def split: if_splits)
    with line show ?thesis by simp
  next
    case (Some i)
    note f = find_char_Some [OF Some]
    with l Some have "line = take (Suc i) cs" "rest = drop (Suc i) cs"
      by (auto simp: getline_def split: if_splits)
    moreover have "take (Suc i) cs = take i cs @ [NL]"
      using f by (metis take_Suc_conv_app_nth append_eq_conv_conj nth_append_length length_take min.absorb2 nless_le)
    ultimately have "take i cs = nm @ ''.desktop''" "cs = line @ rest"
      using line append_take_drop_id [of "Suc i" cs] by (simp_all only:) simp
    moreover from this f have "NL \<notin> set nm" by (metis in_set_conv_decomp_first Un_iff set_append)
    ultimately show ?thesis using line by simp
  qed
next
  assume ?R
  then obtain nm where nm: "NL \<notin> set nm" "cs = (nm @ ''.desktop'') @ NL # rest"
    "line = nm @ ''.desktop'' @ [NL]" by auto
  then have "getline cs = Some ((nm @ ''.desktop'') @ [NL], rest)" by (simp only:) (rule getline_line, simp)
  with nm show ?L by simp
qed

lemma is_v0_filename_Cons:
  "is_v0_filename (c # cs) \<longleftrightarrow>
     (\<exists>nm r. NL \<notin> set nm \<and> cs = nm @ ''.desktop'' @ NL # r \<and> is_v0_count r)"
proof -
  have "is_v0_filename (c # cs) \<longleftrightarrow> (\<exists>line rest. (getline cs = Some (line, rest) \<and> 9 \<le> length line \<and>
     drop (length line - 9) line = ''.desktop'' @ [NL]) \<and> is_v0_count rest)"
    by (auto split: option.splits)
  then show ?thesis unfolding getline_desktop by blast
qed

lemma is_v0_sound:
  "is_v0_count s \<Longrightarrow> v0_history s"
proof -
  have "(is_v0_count s \<longrightarrow> (\<forall>ds. digits ds \<longrightarrow> v0_history (ds @ s)))" if "length s < n" for n s
    using that
  proof (induction n arbitrary: s)
    case (Suc n)
    show ?case
    proof (intro impI allI)
      fix ds assume v: "is_v0_count s" and d: "digits ds"
      show "v0_history (ds @ s)"
      proof (cases s)
        case Nil
        with v0_end [OF d] show ?thesis by simp
      next
        case (Cons c cs)
        show ?thesis
        proof (cases "is_digit c")
          case True
          then have "digits (ds @ [c])" "is_v0_count cs" using d v Cons by (auto simp: digits_def)
          with Suc.IH [of cs] Suc.prems Cons show ?thesis by fastforce
        next
          case False
          then have c: "c = CHR '',''" "is_v0_filename cs" using v Cons by (auto split: if_splits)
          show ?thesis
          proof (cases cs)
            case Nil
            with v0_comma [OF d] c Cons show ?thesis by simp
          next
            case (Cons x xs)
            with c(2) obtain nm r where nm: "NL \<notin> set nm" "xs = nm @ ''.desktop'' @ NL # r" "is_v0_count r"
              using is_v0_filename_Cons by blast
            then have "length r < n" using Suc.prems \<open>s = c # cs\<close> Cons by simp
            then have "v0_history ([] @ r)"
              using Suc.IH [of r, rule_format, of "[]"] nm(3) by (simp add: digits_def)
            then show ?thesis using v0_line [OF d nm(1), of r x] nm(2) c(1) Cons \<open>s = c # cs\<close> by simp
          qed
        qed
      qed
    qed
  qed simp
  from this [of s "Suc (length s)", rule_format, of "[]"] show "is_v0_count s \<Longrightarrow> v0_history s"
    by (simp add: digits_def)
qed


lemma is_v0_complete: "v0_history s \<Longrightarrow> is_v0_count s"
proof (induction rule: v0_history.induct)
  case (v0_end ds)
  then show ?case using is_v0_digits [of ds "[]"] by simp
next
  case (v0_comma ds)
  then show ?case by (simp add: is_v0_digits is_digit_def)
next
  case (v0_line ds nm r c)
  then show ?case by (auto simp: is_v0_digits is_v0_filename_Cons comma_not_digit simp del: is_v0_count.simps(1)
        is_v0_filename.simps)
qed

text \<open>A history file without the header of the new format is taken for one in the old format
  exactly when it is one: lines of a count and the name of a desktop file. Anything else is
  rejected as malformed.\<close>

theorem old_format_recognised:
  assumes "files path = Some content" "\<not> prefix J4DDHIST_HEADER content"
  shows "HistoryManager_ctor err files creatable path =
    Inl (if v0_history content
         then V0_version_error (''History file '' @ quoted path @ '' is outdated!'')
         else Runtime_error (''History file '' @ quoted path @ '' is malformed!''))"
proof -
  have "length content < length J4DDHIST_HEADER \<or> take (length J4DDHIST_HEADER) content \<noteq> J4DDHIST_HEADER"
    using assms(2) by (metis append_take_drop_id prefixI)
  moreover have "is_v0 content \<longleftrightarrow> v0_history content"
    using is_v0_sound is_v0_complete by (auto simp: is_v0_def)
  ultimately show ?thesis using assms(1) by (auto simp: HistoryManager_ctor_def Let_def)
qed

theorem old_format_recognised_witness:
  "HistoryManager_ctor [] [''h'' \<mapsto> ''12,a.desktop'' @ [NL]] (\<lambda>_. False) ''h'' =
     Inl (V0_version_error (''History file '' @ quoted ''h'' @ '' is outdated!''))"
proof -
  have "v0_history (''12'' @ '','' @ CHR ''a'' # [] @ ''.desktop'' @ NL # [])"
    by (intro v0_line v0_end) (simp_all add: digits_def is_digit_def)
  then show ?thesis
    using old_format_recognised [of "[''h'' \<mapsto> ''12,a.desktop'' @ [NL]]" "''h''" "''12,a.desktop'' @ [NL]"
        "[]" "\<lambda>_. False"]
    by (simp add: J4DDHIST_HEADER_def)
qed

section \<open>Conversion\<close>

definition names_of :: "AppManager \<Rightarrow> string set" where
  "names_of appm = {n. \<exists>ID app. lookup_by_ID appm ID = Some app \<and>
     (n = app_name app \<or> n = app_generic_name app \<and> n \<noteq> [])}"

definition conversion_ok :: "AppManager \<Rightarrow> string set \<times> history_mmap \<Rightarrow> bool" where
  "conversion_ok appm acc \<longleftrightarrow>
     (let (seen, h) = acc in seen = snd ` set h \<and> unique_names h \<and> mmap_sorted h \<and> seen \<subseteq> names_of appm)"

lemma convert_name_ok:
  "conversion_ok appm acc \<Longrightarrow> nm \<in> names_of appm \<Longrightarrow> conversion_ok appm (convert_name k nm acc)"
  by (cases acc) (auto simp: conversion_ok_def convert_name_def unique_names_emplace mmap_emplace_sorted)

lemma convert_app_ok:
  assumes "conversion_ok appm acc" "lookup_by_ID appm ID = Some app"
  shows "conversion_ok appm (convert_app k app acc)"
proof -
  have "app_name app \<in> names_of appm"
    "app_generic_name app \<noteq> [] \<Longrightarrow> app_generic_name app \<in> names_of appm"
    using assms(2) by (auto simp: names_of_def)
  with assms(1) show ?thesis by (simp add: convert_app_def Let_def convert_name_ok)
qed

lemma convert_entries_ok:
  "convert_entries err appm s acc = Inr h \<Longrightarrow> conversion_ok appm acc \<Longrightarrow>
     \<exists>seen. conversion_ok appm (seen, h)"
proof (induction err appm s acc rule: convert_entries.induct)
  case (1 err appm s acc)
  show ?case
  proof (cases "scan_u s")
    case None
    with "1.prems" show ?thesis by (cases acc) (auto simp: convert_entries.simps [of err appm s])
  next
    case (Some o1)
    show ?thesis
    proof (cases o1)
      case None
      with Some "1.prems" show ?thesis by (cases acc) (auto simp: convert_entries.simps [of err appm s])
    next
      case (Some p)
      obtain n s1 where p: "p = (n, s1)" by force
      note sc = \<open>scan_u s = Some o1\<close> [unfolded Some p]
      show ?thesis
      proof (cases "getline (scan_lit (CHR '','') s1)")
        case None
        with sc "1.prems" show ?thesis by (simp add: convert_entries.simps [of err appm s])
      next
        case (Some q)
        obtain line rest where q: "q = (line, rest)" by force
        let ?acc = "case lookup_by_ID appm (cstr (butlast line)) of None \<Rightarrow> acc
          | Some app \<Rightarrow> convert_app (int_of_unsigned n) app acc"
        have "convert_entries err appm rest ?acc = Inr h"
          using sc Some q "1.prems"(1) by (simp add: convert_entries.simps [of err appm s])
        moreover have "conversion_ok appm ?acc"
          using "1.prems"(2) by (auto intro: convert_app_ok split: option.splits)
        ultimately show ?thesis using "1.IH" [OF sc refl refl Some q [symmetric]] by blast
      qed
    qed
  qed
qed

lemma conversion_tidy:
  assumes "convert_history_from_v0 err files appendable trunc path appm = Inr hm"
  shows "unique_names (hm_history hm) \<and> mmap_sorted (hm_history hm) \<and>
    snd ` set (hm_history hm) \<subseteq> names_of appm \<and>
    hm_file hm = history_text (hm_history hm) \<and> hm_filename hm = path"
proof -
  from assms obtain content where "convert_entries err appm content ({}, []) = Inr (hm_history hm)"
    and hm: "hm_file hm = history_text (hm_history hm)" "hm_filename hm = path"
    by (auto simp: convert_history_from_v0_def HistoryManager_write_def split: option.splits if_splits)
  moreover have "conversion_ok appm ({}, [])" by (simp add: conversion_ok_def unique_names_def mmap_sorted_def)
  ultimately have c: "unique_names (hm_history hm)" "mmap_sorted (hm_history hm)"
    "snd ` set (hm_history hm) \<subseteq> names_of appm"
    using convert_entries_ok by (fastforce simp: conversion_ok_def)+
  with hm show ?thesis by simp
qed

text \<open>C29: the conversion of an old history yields every name at most once, sorted by count, and only
  names of applications the program knows; a file without the header always becomes one the program
  reads afterwards as exactly that history (for names and counts a line can hold).\<close>

theorem conversion_result:
  assumes "convert_history_from_v0 err files appendable True path appm = Inr hm"
  shows "unique_names (hm_history hm) \<and> mmap_sorted (hm_history hm) \<and>
    snd ` set (hm_history hm) \<subseteq> names_of appm \<and>
    ((\<forall>e \<in> set (hm_history hm). storable e) \<longrightarrow>
       HistoryManager_ctor err (files(path \<mapsto> hm_file hm)) creatable path = Inr hm)"
  using conversion_tidy [OF assms]
    history_file_read [of "hm_history hm" "files(path \<mapsto> hm_file hm)" path err creatable]
  by (auto simp: history_ok_def)

lemma convert_entries_line:
  assumes "0 \<le> k" "k \<le> INT_MAX" "NL \<notin> set nm"
  shows "convert_entries err appm (history_line (k, nm) @ r) acc =
    convert_entries err appm r (case lookup_by_ID appm (cstr nm) of None \<Rightarrow> acc
      | Some app \<Rightarrow> convert_app k app acc)"
proof -
  have "convert_entries err appm (int_to_string k @ CHR '','' # (nm @ NL # r)) acc =
      convert_entries err appm r (case lookup_by_ID appm (cstr nm) of None \<Rightarrow> acc
        | Some app \<Rightarrow> convert_app k app acc)"
    using assms scan_u_int_to_string [of k "nm @ NL # r"]
    by (subst convert_entries.simps)
      (simp add: scan_lit_def getline_line int_of_unsigned_small cong: option.case_cong)
  then show ?thesis by (simp add: history_line_def)
qed

lemma convert_entries_Nil: "convert_entries err appm [] acc = Inr (snd acc)"
  by (subst convert_entries.simps) (simp add: scan_u_def)

definition old_history :: string where
  "old_history = history_line (5, ''y.desktop'') @ history_line (3, ''gone.desktop'') @
     history_line (2, ''x.desktop'') @ []"

theorem conversion_result_witness:
  "\<exists>hm. convert_history_from_v0 [] [''h'' \<mapsto> old_history] (\<lambda>_. True) True ''h'' sample_manager = Inr hm \<and>
     hm_history hm = [(5, ''Y''), (5, ''X'')] \<and>
     HistoryManager_ctor [] [''h'' \<mapsto> hm_file hm] (\<lambda>_. False) ''h'' = Inr hm"
proof -
  have c: "convert_entries [] sample_manager old_history ({}, []) = Inr [(5, ''Y''), (5, ''X'')]"
    unfolding old_history_def
    by (simp add: convert_entries_line convert_entries_Nil INT_MAX_def convert_app_def convert_name_def
        lookup_by_ID_def sample_find sample_app_def del: append_Nil2)
      (simp add: sample_manager_def um_find_def)
  let ?hm = "\<lparr>hm_file = history_text [(5, ''Y''), (5, ''X'')], hm_history = [(5, ''Y''), (5, ''X'')],
    hm_filename = ''h''\<rparr>"
  have r: "convert_history_from_v0 [] [''h'' \<mapsto> old_history] (\<lambda>_. True) True ''h'' sample_manager = Inr ?hm"
    by (simp add: convert_history_from_v0_def c HistoryManager_write_def)
  from conversion_result [OF r, of "\<lambda>_. False"] r show ?thesis
    by (auto simp: storable_def INT_MAX_def)
qed

end
