(* ===== verification/OrderedMap.thy ===== *)
theory OrderedMap
  imports J4Prelude
begin

text \<open>
  \<open>std::map\<close> and \<open>std::set\<close> with a comparator chosen at run time
  (\<open>src/DynamicCompare.hh\<close>): elements in the order of the comparator, keys the comparator does
  not tell apart are the same key. What a comparator owes its container is a locale, of which
  both comparators of the code are instances.
\<close>

section \<open>Containers\<close>

type_synonym comparator = "string \<Rightarrow> string \<Rightarrow> bool"

definition equivalent :: "comparator \<Rightarrow> string \<Rightarrow> string \<Rightarrow> bool" where
  "equivalent lt a b \<longleftrightarrow> \<not> lt a b \<and> \<not> lt b a"

fun om_try_emplace :: "comparator \<Rightarrow> string \<Rightarrow> 'v \<Rightarrow> (string \<times> 'v) list \<Rightarrow> (string \<times> 'v) list \<times> bool" where
  "om_try_emplace lt k v [] = ([(k, v)], True)"
| "om_try_emplace lt k v (e # es) =
     (if lt k (fst e) then ((k, v) # e # es, True)
      else if lt (fst e) k then (let (es', ok) = om_try_emplace lt k v es in (e # es', ok))
      else (e # es, False))"

fun om_find :: "comparator \<Rightarrow> string \<Rightarrow> (string \<times> 'v) list \<Rightarrow> 'v option" where
  "om_find lt k [] = None"
| "om_find lt k (e # es) = (if equivalent lt k (fst e) then Some (snd e) else om_find lt k es)"

text \<open>\<open>erase\<close> by key: the container and whether an element was there.\<close>

definition os_erase :: "comparator \<Rightarrow> string \<Rightarrow> string list \<Rightarrow> string list \<times> bool" where
  "os_erase lt k s = (filter (\<lambda>x. \<not> equivalent lt k x) s, \<exists>x \<in> set s. equivalent lt k x)"

section \<open>Comparators\<close>

locale strict_weak_order =
  fixes lt :: comparator
  assumes asym: "lt x y \<Longrightarrow> \<not> lt y x"
    and neg_trans: "lt x z \<Longrightarrow> lt x y \<or> lt y z"
begin

definition sorted_keys :: "(string \<times> 'v) list \<Rightarrow> bool" where
  "sorted_keys m \<longleftrightarrow> sorted_wrt lt (map fst m)"

lemma irrefl [simp]: "\<not> lt x x"
  using asym by blast

lemma trans: "lt x y \<Longrightarrow> lt y z \<Longrightarrow> lt x z"
  using asym neg_trans by blast

lemma equivalent_refl [simp]: "equivalent lt x x"
  by (simp add: equivalent_def)

lemma equivalent_sym: "equivalent lt x y \<Longrightarrow> equivalent lt y x"
  by (simp add: equivalent_def)

lemma equivalent_trans: "equivalent lt x y \<Longrightarrow> equivalent lt y z \<Longrightarrow> equivalent lt x z"
  using neg_trans unfolding equivalent_def by blast

lemma try_emplace_old:
  assumes "sorted_keys m" "\<exists>e \<in> set m. equivalent lt k (fst e)"
  shows "om_try_emplace lt k v m = (m, False)"
  using assms
proof (induction m)
  case (Cons e es)
  show ?case
  proof (cases "equivalent lt k (fst e)")
    case True
    then show ?thesis by (simp add: equivalent_def)
  next
    case False
    with Cons.prems obtain e' where e': "e' \<in> set es" "equivalent lt k (fst e')" by auto
    with Cons.prems(1) have "lt (fst e) (fst e')" by (simp add: sorted_keys_def)
    with e'(2) have "lt (fst e) k" "\<not> lt k (fst e)"
      using neg_trans [of "fst e" "fst e'" k] asym by (auto simp: equivalent_def)
    moreover have "om_try_emplace lt k v es = (es, False)"
      using Cons e' by (auto simp: sorted_keys_def)
    ultimately show ?thesis by simp
  qed
qed simp

lemma try_emplace_new:
  assumes "sorted_keys m" "\<forall>e \<in> set m. \<not> equivalent lt k (fst e)"
  shows "snd (om_try_emplace lt k v m) \<and> sorted_keys (fst (om_try_emplace lt k v m)) \<and>
    set (fst (om_try_emplace lt k v m)) = insert (k, v) (set m)"
  using assms
proof (induction m)
  case Nil
  then show ?case by (simp add: sorted_keys_def)
next
  case (Cons e es)
  show ?case
  proof (cases "lt k (fst e)")
    case True
    then show ?thesis using Cons.prems(1) by (auto simp: sorted_keys_def intro: trans)
  next
    case False
    with Cons.prems(2) have "lt (fst e) k" by (auto simp: equivalent_def)
    moreover have IH: "snd (om_try_emplace lt k v es)" "sorted_keys (fst (om_try_emplace lt k v es))"
      "set (fst (om_try_emplace lt k v es)) = insert (k, v) (set es)"
      using Cons by (auto simp: sorted_keys_def)
    ultimately show ?thesis
      using False Cons.prems(1) by (auto simp: sorted_keys_def split: prod.splits)
  qed
qed

lemma find_sorted:
  assumes "sorted_keys m" "(k', v) \<in> set m" "equivalent lt k k'"
  shows "om_find lt k m = Some v"
  using assms
proof (induction m)
  case (Cons e es)
  show ?case
  proof (cases "(k', v) = e")
    case True
    then show ?thesis using Cons.prems(3) by auto
  next
    case False
    with Cons.prems have "lt (fst e) k'" by (auto simp: sorted_keys_def)
    then have "\<not> equivalent lt k (fst e)"
      using Cons.prems(3) equivalent_trans [of "fst e" k k'] by (auto simp: equivalent_def)
    with Cons False show ?thesis by (auto simp: sorted_keys_def)
  qed
qed simp

lemma find_None: "om_find lt k m = None \<longleftrightarrow> (\<forall>e \<in> set m. \<not> equivalent lt k (fst e))"
  by (induction m) auto

lemma find_Some: "om_find lt k m = Some v \<Longrightarrow> \<exists>k'. (k', v) \<in> set m \<and> equivalent lt k k'"
  by (induction m) (auto split: if_splits)

end

text \<open>A comparator that tells different strings apart.\<close>

locale strict_total_order = strict_weak_order +
  assumes total: "\<not> lt x y \<Longrightarrow> \<not> lt y x \<Longrightarrow> x = y"
begin

lemma equivalent_eq [simp]: "equivalent lt x y \<longleftrightarrow> x = y"
  using total by (auto simp: equivalent_def)

end

section \<open>The comparators of the code\<close>

fun less_wrapper :: comparator where
  "less_wrapper a [] = False"
| "less_wrapper [] (y # ys) = True"
| "less_wrapper (x # xs) (y # ys) =
     (if chr_val x < chr_val y then True
      else if chr_val y < chr_val x then False
      else less_wrapper xs ys)"

definition tolower :: "char \<Rightarrow> char" where
  "tolower c = (if 65 \<le> chr_val c \<and> chr_val c \<le> 90 then char_of (chr_val c + 32) else c)"

text \<open>\<open>strncasecmp\<close> on views that hold at least \<open>n\<close> bytes.\<close>

fun strncasecmp :: "string \<Rightarrow> string \<Rightarrow> nat \<Rightarrow> int" where
  "strncasecmp (x # xs) (y # ys) (Suc n) =
     (let d = int (chr_val (tolower x)) - int (chr_val (tolower y))
      in if d \<noteq> 0 \<or> x = NUL then d else strncasecmp xs ys n)"
| "strncasecmp _ _ _ = 0"

definition strcasecmp_wrapper :: comparator where
  "strcasecmp_wrapper a b =
     (let mn = min (length a) (length b); result = strncasecmp a b mn
      in if result = 0 then length a < length b else result < 0)"

definition DynamicCompare :: "bool \<Rightarrow> comparator" where
  "DynamicCompare case_insensitive = (if case_insensitive then strcasecmp_wrapper else less_wrapper)"

lemma less_wrapper_irrefl: "\<not> less_wrapper x x"
  by (induction x) auto

lemma less_wrapper_asym: "less_wrapper x y \<Longrightarrow> \<not> less_wrapper y x"
  by (induction x y rule: less_wrapper.induct) (auto split: if_splits)

lemma less_wrapper_total: "\<not> less_wrapper x y \<Longrightarrow> \<not> less_wrapper y x \<Longrightarrow> x = y"
proof (induction x y rule: less_wrapper.induct)
  case (1 a)
  then show ?case by (cases a) auto
qed (auto split: if_splits)

lemma less_wrapper_trans: "less_wrapper x y \<Longrightarrow> less_wrapper y z \<Longrightarrow> less_wrapper x z"
proof (induction x z arbitrary: y rule: less_wrapper.induct)
  case (1 a)
  then show ?case by (cases y) auto
next
  case (2 b bs)
  then show ?case by simp
next
  case (3 x xs z zs)
  then obtain u us where "y = u # us" by (cases y) auto
  with 3 show ?case by (auto split: if_splits)
qed

interpretation less: strict_total_order less_wrapper
proof unfold_locales
  show "less_wrapper x y \<Longrightarrow> \<not> less_wrapper y x" for x y by (rule less_wrapper_asym)
  show "less_wrapper x z \<Longrightarrow> less_wrapper x y \<or> less_wrapper y z" for x y z
    using less_wrapper_total [of x y] less_wrapper_trans [of y x z] by blast
  show "\<not> less_wrapper x y \<Longrightarrow> \<not> less_wrapper y x \<Longrightarrow> x = y" for x y by (rule less_wrapper_total)
qed

text \<open>What the case-insensitive comparator compares: the folded C string, then the length.\<close>

definition fold_case :: "string \<Rightarrow> string" where
  "fold_case s = map tolower (cstr s)"

lemma tolower_NUL [simp]: "tolower c = NUL \<longleftrightarrow> c = NUL"
proof -
  have "chr_val (tolower c) = chr_val NUL \<longleftrightarrow> chr_val c = chr_val NUL"
    by (simp add: tolower_def)
  then show ?thesis by (simp only: of_char_eq_iff)
qed

lemma fold_case_Cons [simp]:
  "fold_case (NUL # s) = []" "c \<noteq> NUL \<Longrightarrow> fold_case (c # s) = tolower c # fold_case s"
  "fold_case [] = []"
  by (simp_all add: fold_case_def cstr_def)

lemma strcasecmp_wrapper_Cons:
  assumes "x \<noteq> NUL" "tolower x = tolower y"
  shows "strcasecmp_wrapper (x # xs) (y # ys) = strcasecmp_wrapper xs ys"
  using assms by (simp add: strcasecmp_wrapper_def)

lemma strcasecmp_wrapper_iff:
  "strcasecmp_wrapper a b \<longleftrightarrow>
     less_wrapper (fold_case a) (fold_case b) \<or> fold_case a = fold_case b \<and> length a < length b"
proof (induction a b rule: list_induct2')
  case 1
  show ?case by (simp add: strcasecmp_wrapper_def)
next
  case (2 x xs)
  show ?case by (simp add: strcasecmp_wrapper_def)
next
  case (3 y ys)
  show ?case by (cases "y = NUL") (simp_all add: strcasecmp_wrapper_def)
next
  case IH: (4 x xs y ys)
  consider "x = NUL" | "y = NUL" "x \<noteq> NUL" | "x \<noteq> NUL" "y \<noteq> NUL" "tolower x = tolower y"
    | "x \<noteq> NUL" "y \<noteq> NUL" "tolower x \<noteq> tolower y" by blast
  then show ?case
  proof cases
    case 1
    have "chr_val (tolower y) > 0" if "y \<noteq> NUL"
      using that of_char_eq_iff [of "tolower y" NUL, where ?'a = nat] by auto
    with 1 show ?thesis
      by (cases "y = NUL") (auto simp: strcasecmp_wrapper_def tolower_def [of NUL])
  next
    case 2
    have "chr_val (tolower x) > 0"
      using 2 of_char_eq_iff [of "tolower x" NUL, where ?'a = nat] by auto
    with 2 show ?thesis by (auto simp: strcasecmp_wrapper_def tolower_def [of NUL])
  next
    case 3
    with IH show ?thesis by (simp add: strcasecmp_wrapper_Cons)
  next
    case 4
    then have "chr_val (tolower x) \<noteq> chr_val (tolower y)" by simp
    with 4 show ?thesis by (auto simp: strcasecmp_wrapper_def)
  qed
qed

interpretation casecmp: strict_weak_order strcasecmp_wrapper
proof unfold_locales
  show "strcasecmp_wrapper x y \<Longrightarrow> \<not> strcasecmp_wrapper y x" for x y
    using less_wrapper_asym less_wrapper_irrefl by (auto simp: strcasecmp_wrapper_iff)
  show "strcasecmp_wrapper x z \<Longrightarrow> strcasecmp_wrapper x y \<or> strcasecmp_wrapper y z" for x y z
    using less.neg_trans [of "fold_case x" "fold_case z" "fold_case y"]
      less_wrapper_total [of "fold_case x" "fold_case y"] less_wrapper_total [of "fold_case y" "fold_case z"]
      less_wrapper_irrefl less_wrapper_trans
    unfolding strcasecmp_wrapper_iff by (metis (no_types) less.asym linorder_neqE_nat order.strict_trans)
qed

text \<open>Both comparators, whichever was chosen.\<close>

interpretation dynamic: strict_weak_order "DynamicCompare ci" for ci
  by (cases ci) (simp_all add: DynamicCompare_def casecmp.strict_weak_order_axioms less.strict_weak_order_axioms)

end
