(* ===== verification/Dmenu.thy ===== *)
theory Dmenu
  imports Utilities
begin

text \<open>
  \<open>src/Dmenu.cc\<close>: the menu program as a child process. What the child makes of its input, its
  exit and what it prints, is a function: the program dmenu is not part of the repository. The
  state is what has been written to its standard input; \<open>writen\<close> on a pipe the child reads
  completes (see \<open>Utilities\<close>), and a child that has gone is the \<open>SIGPIPE\<close> of the caller.
\<close>

datatype wait_status = Wexited nat | Wsignaled

type_synonym dmenu_program = "string \<Rightarrow> wait_status \<times> string"

record Dmenu =
  dmenu_command :: string
  dmenu_outpipe :: string
  dmenu_running :: bool

definition Dmenu_ctor :: "string \<Rightarrow> Dmenu" where
  "Dmenu_ctor command = \<lparr>dmenu_command = command, dmenu_outpipe = [], dmenu_running = False\<rparr>"

text \<open>\<open>run\<close>: \<open>can_start\<close> is whether \<open>pipe\<close> and \<open>fork\<close> succeed.\<close>

definition Dmenu_run :: "bool \<Rightarrow> Dmenu \<Rightarrow> fault + Dmenu" where
  "Dmenu_run can_start d =
     (if can_start then Inr (d\<lparr>dmenu_outpipe := [], dmenu_running := True\<rparr>)
      else Inl (Runtime_error ''Dmenu::create(): fork() failed''))"

definition Dmenu_write :: "string \<Rightarrow> Dmenu \<Rightarrow> Dmenu" where
  "Dmenu_write what d = d\<lparr>dmenu_outpipe := dmenu_outpipe d @ what @ [NL]\<rparr>"

text \<open>The answer: at most one newline is taken off its end.\<close>

definition chop_newline :: "string \<Rightarrow> string" where
  "chop_newline choice = (if choice \<noteq> [] \<and> last choice = NL then butlast choice else choice)"

text \<open>\<open>display\<close> closes the pipe, so the child sees all of its input; \<open>read_choice\<close> waits for it.\<close>

definition Dmenu_read_choice :: "dmenu_program \<Rightarrow> Dmenu \<Rightarrow> fault + string" where
  "Dmenu_read_choice program d =
     (case program (dmenu_outpipe d) of
        (Wsignaled, _) \<Rightarrow> Inl (Exited EXIT_FAILURE)
      | (Wexited n, output) \<Rightarrow> if n \<noteq> 0 then Inr [] else Inr (chop_newline output))"

end
