(* ===== verification/Menu.thy ===== *)
theory Menu
  imports Formatters OrderedMap Dmenu HistoryManager
begin

text \<open>
  The menu in \<open>src/main.cc\<close>: the names shown to the user (\<open>NameToAppMapping\<close>), the history of
  shown names (\<open>FormattedHistoryManager\<close>), the dialogue with dmenu (\<open>do_dmenu\<close>), what the answer
  stands for (\<open>lookup_name\<close>) and the loop body that ties them together
  (\<open>CommandRetrievalLoop\<close>). Pointers to applications are read through the manager they point
  into.
\<close>

section \<open>NameToAppMapping\<close>

type_synonym formatted_name_map = "(string \<times> Resolved_application) list"
type_synonym raw_name_map = "(string \<times> name_element) list"

record NameToAppMapping =
  nm_format :: application_formatter
  nm_case_insensitive :: bool
  nm_mapping :: formatted_name_map
  nm_raw_mapping :: raw_name_map
  nm_exclude_generic :: bool

definition NameToAppMapping_ctor :: "application_formatter \<Rightarrow> bool \<Rightarrow> bool \<Rightarrow> NameToAppMapping" where
  "NameToAppMapping_ctor fmt case_insensitive exclude_generic =
     \<lparr>nm_format = fmt, nm_case_insensitive = case_insensitive, nm_mapping = [], nm_raw_mapping = [],
      nm_exclude_generic = exclude_generic\<rparr>"

fun load_names ::
  "NameToAppMapping \<Rightarrow> AppManager \<Rightarrow> raw_name_map \<Rightarrow> formatted_name_map \<Rightarrow>
     fault + formatted_name_map" where
  "load_names nm appm [] m = Inr m"
| "load_names nm appm ((key, e) # es) m =
     (if nm_exclude_generic nm \<and> ra_is_generic (resolved e) then load_names nm appm es m
      else case deref appm (ra_app (resolved e)) of
        None \<Rightarrow> Inl Undefined
      | Some app \<Rightarrow>
          (let (m', inserted) = om_try_emplace (DynamicCompare (nm_case_insensitive nm))
                 (nm_format nm key app) (resolved e) m
           in if \<not> inserted then Inl Aborted else load_names nm appm es m'))"

definition NameToAppMapping_load :: "AppManager \<Rightarrow> NameToAppMapping \<Rightarrow> fault + NameToAppMapping" where
  "NameToAppMapping_load appm nm =
     bind_sum (load_names nm appm (name_app_mapping appm) [])
       (\<lambda>m. Inr (nm\<lparr>nm_raw_mapping := name_app_mapping appm, nm_mapping := m\<rparr>))"

section \<open>FormattedHistoryManager\<close>

record FormattedHistoryManager =
  fh_hist :: HistoryManager
  fh_formatted :: "string list"
  fh_remove_obsolete :: bool
  fh_exclude_generic :: bool

text \<open>
  The loop of \<open>reload\<close>: \<open>i\<close> is the position of the iterator, \<open>rest\<close> the elements from it on. After
  the removal of an element the iterator already stands on the next one, and the loop moves it on.
\<close>

fun reload_loop ::
  "string \<Rightarrow> bool \<Rightarrow> AppManager \<Rightarrow> NameToAppMapping \<Rightarrow> bool \<Rightarrow> bool \<Rightarrow> nat \<Rightarrow> history_mmap \<Rightarrow>
     HistoryManager \<Rightarrow> string list \<Rightarrow> fault + HistoryManager \<times> string list" where
  "reload_loop err trunc appm nm remove_obsolete exclude_generic i [] hist formatted =
     Inr (hist, formatted)"
| "reload_loop err trunc appm nm remove_obsolete exclude_generic i ((hcount, raw_name) # rest) hist formatted =
     (case um_find (nm_raw_mapping nm) raw_name of
        None \<Rightarrow>
          if remove_obsolete then
            bind_sum (remove_obsolete_entry err trunc i hist) (\<lambda>(_, hist').
              case rest of
                [] \<Rightarrow> Inr (hist', formatted)
              | _ # rest' \<Rightarrow>
                  reload_loop err trunc appm nm remove_obsolete exclude_generic (i + 1) rest' hist' formatted)
          else reload_loop err trunc appm nm remove_obsolete exclude_generic (i + 1) rest hist formatted
      | Some e \<Rightarrow>
          if exclude_generic \<and> ra_is_generic (resolved e) then
            reload_loop err trunc appm nm remove_obsolete exclude_generic (i + 1) rest hist formatted
          else case deref appm (ra_app (resolved e)) of
            None \<Rightarrow> Inl Undefined
          | Some app \<Rightarrow>
              reload_loop err trunc appm nm remove_obsolete exclude_generic (i + 1) rest hist
                (formatted @ [nm_format nm raw_name app]))"

definition FormattedHistoryManager_reload ::
  "string \<Rightarrow> bool \<Rightarrow> AppManager \<Rightarrow> NameToAppMapping \<Rightarrow> FormattedHistoryManager \<Rightarrow>
     fault + FormattedHistoryManager" where
  "FormattedHistoryManager_reload err trunc appm nm fh =
     bind_sum (reload_loop err trunc appm nm (fh_remove_obsolete fh) (fh_exclude_generic fh) 0
         (HistoryManager_view (fh_hist fh)) (fh_hist fh) [])
       (\<lambda>(hist, formatted). Inr (fh\<lparr>fh_hist := hist, fh_formatted := formatted\<rparr>))"

definition FormattedHistoryManager_ctor ::
  "string \<Rightarrow> bool \<Rightarrow> AppManager \<Rightarrow> HistoryManager \<Rightarrow> NameToAppMapping \<Rightarrow> bool \<Rightarrow> bool \<Rightarrow>
     fault + FormattedHistoryManager" where
  "FormattedHistoryManager_ctor err trunc appm hist nm remove_obsolete exclude_generic =
     FormattedHistoryManager_reload err trunc appm nm
       \<lparr>fh_hist = hist, fh_formatted = [], fh_remove_obsolete = remove_obsolete,
        fh_exclude_generic = exclude_generic\<rparr>"

definition FormattedHistoryManager_increment ::
  "string \<Rightarrow> bool \<Rightarrow> string \<Rightarrow> FormattedHistoryManager \<Rightarrow> fault + FormattedHistoryManager" where
  "FormattedHistoryManager_increment err trunc name fh =
     bind_sum (HistoryManager_increment err trunc name (fh_hist fh)) (\<lambda>h. Inr (fh\<lparr>fh_hist := h\<rparr>))"

text \<open>\<open>view\<close>: a debug build ends the program when an entry is there twice.\<close>

definition FormattedHistoryManager_view :: "bool \<Rightarrow> FormattedHistoryManager \<Rightarrow> fault + string list" where
  "FormattedHistoryManager_view debug fh =
     (if debug \<and> \<not> distinct (fh_formatted fh) then Inl (Exited EXIT_FAILURE) else Inr (fh_formatted fh))"

section \<open>The dialogue\<close>

text \<open>
  The names in the order they are written: those of the history, each taken out of the set of
  all names, then what is left of the set.
\<close>

fun write_history :: "comparator \<Rightarrow> string list \<Rightarrow> string list \<Rightarrow> Dmenu \<Rightarrow> fault + string list \<times> Dmenu" where
  "write_history lt names [] d = Inr (names, d)"
| "write_history lt names (h # hs) d =
     (let (names', erased) = os_erase lt h names
      in if erased then write_history lt names' hs (Dmenu_write h d) else Inl Aborted)"

definition write_names :: "comparator \<Rightarrow> formatted_name_map \<Rightarrow> string list \<Rightarrow> Dmenu \<Rightarrow> fault + Dmenu" where
  "write_names lt mapping history d =
     (if history \<noteq> [] then
        bind_sum (write_history lt (map fst mapping) history d)
          (\<lambda>(names, d'). Inr (fold Dmenu_write names d'))
      else Inr (fold Dmenu_write (map fst mapping) d))"

definition do_dmenu ::
  "dmenu_program \<Rightarrow> comparator \<Rightarrow> formatted_name_map \<Rightarrow> string list \<Rightarrow> Dmenu \<Rightarrow> fault + string option" where
  "do_dmenu program lt mapping history d =
     bind_sum (write_names lt mapping history d) (\<lambda>d'.
       bind_sum (Dmenu_read_choice program d')
         (\<lambda>choice. Inr (if choice = [] then None else Some choice)))"

section \<open>Lookup\<close>

datatype lookup_res = ApplicationLookup string bool string | CommandLookup string

fun lookup_prefix :: "string \<Rightarrow> formatted_name_map \<Rightarrow> lookup_res" where
  "lookup_prefix query [] = CommandLookup query"
| "lookup_prefix query ((name, res) # m) =
     (if startswith query name then
        ApplicationLookup (ra_app res) (ra_is_generic res) (drop (length name) query)
      else lookup_prefix query m)"

definition lookup_name :: "comparator \<Rightarrow> string \<Rightarrow> formatted_name_map \<Rightarrow> lookup_res" where
  "lookup_name lt query m =
     (case om_find lt query m of
        Some res \<Rightarrow> ApplicationLookup (ra_app res) (ra_is_generic res) []
      | None \<Rightarrow> lookup_prefix query m)"

section \<open>CommandRetrievalLoop\<close>

datatype command_info = DesktopCommandInfo string string | CustomCommandInfo string

record CommandRetrievalLoop =
  cl_dmenu :: Dmenu
  cl_mapping :: NameToAppMapping
  cl_hist :: "FormattedHistoryManager option"
  cl_no_exec :: bool

definition run_dmenu :: "bool \<Rightarrow> CommandRetrievalLoop \<Rightarrow> fault + CommandRetrievalLoop" where
  "run_dmenu can_start cl =
     bind_sum (Dmenu_run can_start (cl_dmenu cl)) (\<lambda>d. Inr (cl\<lparr>cl_dmenu := d\<rparr>))"

definition prompt_user_for_choice ::
  "string \<Rightarrow> bool \<Rightarrow> dmenu_program \<Rightarrow> AppManager \<Rightarrow> CommandRetrievalLoop \<Rightarrow>
     fault + command_info option \<times> CommandRetrievalLoop" where
  "prompt_user_for_choice err trunc program appm cl =
     (let lt = DynamicCompare (nm_case_insensitive (cl_mapping cl)); m = nm_mapping (cl_mapping cl) in
      bind_sum (do_dmenu program lt m
          (case cl_hist cl of Some fh \<Rightarrow> fh_formatted fh | None \<Rightarrow> []) (cl_dmenu cl)) (\<lambda>q.
        case q of
          None \<Rightarrow> Inr (None, cl)
        | Some query \<Rightarrow>
            (case lookup_name lt query m of
               CommandLookup command \<Rightarrow> Inr (Some (CustomCommandInfo command), cl)
             | ApplicationLookup ptr is_generic args \<Rightarrow>
                 (case (cl_no_exec cl, cl_hist cl) of
                    (False, Some fh) \<Rightarrow>
                      (case deref appm ptr of
                         None \<Rightarrow> Inl Undefined
                       | Some app \<Rightarrow>
                           bind_sum (FormattedHistoryManager_increment err trunc
                               (if is_generic then app_generic_name app else app_name app) fh)
                             (\<lambda>fh'. Inr (Some (DesktopCommandInfo ptr args), cl\<lparr>cl_hist := Some fh'\<rparr>)))
                  | _ \<Rightarrow> Inr (Some (DesktopCommandInfo ptr args), cl)))))"

definition update_mapping ::
  "string \<Rightarrow> bool \<Rightarrow> AppManager \<Rightarrow> CommandRetrievalLoop \<Rightarrow> fault + CommandRetrievalLoop" where
  "update_mapping err trunc appm cl =
     bind_sum (NameToAppMapping_load appm (cl_mapping cl)) (\<lambda>nm.
       case cl_hist cl of
         None \<Rightarrow> Inr (cl\<lparr>cl_mapping := nm\<rparr>)
       | Some fh \<Rightarrow>
           bind_sum (FormattedHistoryManager_reload err trunc appm nm fh)
             (\<lambda>fh'. Inr (cl\<lparr>cl_mapping := nm, cl_hist := Some fh'\<rparr>)))"

end
