(* ===== verification/MenuFacts.thy ===== *)
theory MenuFacts
  imports Menu HistoryManagerFacts
begin

text \<open>
  The menu: what is loaded into it, what dmenu is sent, and what an answer stands for. The
  lemmas on the ordered containers are proved for any comparator that meets the contract of
  \<open>strict_weak_order\<close> and used for both comparators of the code.
\<close>

section \<open>Loading the names\<close>

definition entry_of :: "NameToAppMapping \<Rightarrow> AppManager \<Rightarrow> string \<times> name_element \<Rightarrow> string \<times> Resolved_application" where
  "entry_of nm appm x =
     (case x of (n, e) \<Rightarrow> (nm_format nm n (the (deref appm (ra_app (resolved e)))), resolved e))"

definition shown :: "NameToAppMapping \<Rightarrow> string \<times> name_element \<Rightarrow> bool" where
  "shown nm x \<longleftrightarrow> \<not> (nm_exclude_generic nm \<and> ra_is_generic (resolved (snd x)))"

abbreviation nm_compare :: "NameToAppMapping \<Rightarrow> comparator" where
  "nm_compare nm \<equiv> DynamicCompare (nm_case_insensitive nm)"

definition live_elements :: "AppManager \<Rightarrow> raw_name_map \<Rightarrow> bool" where
  "live_elements appm es \<longleftrightarrow> (\<forall>(n, e) \<in> set es. deref appm (ra_app (resolved e)) \<noteq> None)"

definition apart :: "NameToAppMapping \<Rightarrow> AppManager \<Rightarrow> string \<times> name_element \<Rightarrow> string \<Rightarrow> bool" where
  "apart nm appm x k \<longleftrightarrow> \<not> equivalent (nm_compare nm) (fst (entry_of nm appm x)) k"

lemma load_names_filter:
  "live_elements appm es \<Longrightarrow> load_names nm appm es m = load_names nm appm (filter (shown nm) es) m"
proof (induction nm appm es m rule: load_names.induct)
  case (2 nm appm key e es m)
  then have "live_elements appm es" by (simp add: live_elements_def)
  with 2 show ?case
    by (auto simp: shown_def live_elements_def split: option.splits prod.splits)
qed simp

lemma load_names_step:
  assumes "shown nm x" "live_elements appm (x # es)"
  shows "load_names nm appm (x # es) m =
    (let (m', inserted) = om_try_emplace (nm_compare nm) (fst (entry_of nm appm x)) (snd (entry_of nm appm x)) m
     in if \<not> inserted then Inl Aborted else load_names nm appm es m')"
  using assms by (cases x) (auto simp: shown_def live_elements_def entry_of_def)

lemma load_shown_new:
  assumes "dynamic.sorted_keys (nm_case_insensitive nm) m" "\<forall>k \<in> set m. apart nm appm x (fst k)"
  obtains m1 where
    "om_try_emplace (nm_compare nm) (fst (entry_of nm appm x)) (snd (entry_of nm appm x)) m = (m1, True)"
    "dynamic.sorted_keys (nm_case_insensitive nm) m1" "set m1 = insert (entry_of nm appm x) (set m)"
  using dynamic.try_emplace_new [OF assms(1), of "fst (entry_of nm appm x)" "snd (entry_of nm appm x)"]
    assms(2)
  by (cases "om_try_emplace (nm_compare nm) (fst (entry_of nm appm x)) (snd (entry_of nm appm x)) m")
    (auto simp: apart_def)

lemma load_shown_ok:
  assumes "live_elements appm fs" "dynamic.sorted_keys (nm_case_insensitive nm) m"
    "\<forall>x \<in> set fs. shown nm x"
    "sorted_wrt (\<lambda>a b. apart nm appm a (fst (entry_of nm appm b))) fs"
    "\<forall>x \<in> set fs. \<forall>k \<in> set m. apart nm appm x (fst k)"
  shows "\<exists>m'. load_names nm appm fs m = Inr m' \<and> dynamic.sorted_keys (nm_case_insensitive nm) m' \<and>
    set m' = set m \<union> entry_of nm appm ` set fs"
  using assms
proof (induction fs arbitrary: m)
  case (Cons x fs)
  have nx: "\<forall>k \<in> set m. apart nm appm x (fst k)" using Cons.prems(5) by simp
  obtain m1 where m1:
    "om_try_emplace (nm_compare nm) (fst (entry_of nm appm x)) (snd (entry_of nm appm x)) m = (m1, True)"
    "dynamic.sorted_keys (nm_case_insensitive nm) m1" "set m1 = insert (entry_of nm appm x) (set m)"
    by (rule load_shown_new [OF Cons.prems(2) nx])
  have "\<forall>y \<in> set fs. apart nm appm y (fst (entry_of nm appm x))"
    using Cons.prems(4) by (auto simp: apart_def intro: dynamic.equivalent_sym)
  then have "\<forall>y \<in> set fs. \<forall>k \<in> set m1. apart nm appm y (fst k)" using Cons.prems(5) m1(3) by auto
  moreover have "live_elements appm fs" using Cons.prems(1) by (simp add: live_elements_def)
  ultimately obtain m' where "load_names nm appm fs m1 = Inr m'"
    "dynamic.sorted_keys (nm_case_insensitive nm) m'" "set m' = set m1 \<union> entry_of nm appm ` set fs"
    using Cons.IH [OF _ m1(2)] Cons.prems(3,4) by auto
  then show ?case using load_names_step [of nm x appm fs m] Cons.prems(1,3) m1 by auto
qed simp

lemma load_shown_abort:
  assumes "live_elements appm fs" "dynamic.sorted_keys (nm_case_insensitive nm) m"
    "\<forall>x \<in> set fs. shown nm x"
    "\<not> (sorted_wrt (\<lambda>a b. apart nm appm a (fst (entry_of nm appm b))) fs \<and>
        (\<forall>x \<in> set fs. \<forall>k \<in> set m. apart nm appm x (fst k)))"
  shows "load_names nm appm fs m = Inl Aborted"
  using assms
proof (induction fs arbitrary: m)
  case (Cons x fs)
  have step: "load_names nm appm (x # fs) m =
    (let (m', inserted) = om_try_emplace (nm_compare nm) (fst (entry_of nm appm x)) (snd (entry_of nm appm x)) m
     in if \<not> inserted then Inl Aborted else load_names nm appm fs m')"
    using load_names_step Cons.prems(1,3) by simp
  show ?case
  proof (cases "\<forall>k \<in> set m. apart nm appm x (fst k)")
    case False
    then have "\<exists>k \<in> set m. equivalent (nm_compare nm) (fst (entry_of nm appm x)) (fst k)"
      by (simp add: apart_def)
    from dynamic.try_emplace_old [OF Cons.prems(2) this] step show ?thesis by simp
  next
    case True
    obtain m1 where m1:
      "om_try_emplace (nm_compare nm) (fst (entry_of nm appm x)) (snd (entry_of nm appm x)) m = (m1, True)"
      "dynamic.sorted_keys (nm_case_insensitive nm) m1" "set m1 = insert (entry_of nm appm x) (set m)"
      by (rule load_shown_new [OF Cons.prems(2) True])
    have sym: "apart nm appm y (fst (entry_of nm appm x)) \<longleftrightarrow> apart nm appm x (fst (entry_of nm appm y))" for y
      by (auto simp: apart_def intro: dynamic.equivalent_sym)
    have "\<not> (sorted_wrt (\<lambda>a b. apart nm appm a (fst (entry_of nm appm b))) fs \<and>
        (\<forall>y \<in> set fs. \<forall>k \<in> set m1. apart nm appm y (fst k)))"
      using Cons.prems(4) True sym by (auto simp: m1(3))
    moreover have "live_elements appm fs" using Cons.prems(1) by (simp add: live_elements_def)
    ultimately have "load_names nm appm fs m1 = Inl Aborted" using Cons.IH [OF _ m1(2)] Cons.prems(3) by auto
    with step m1(1) show ?thesis by simp
  qed
qed simp

definition keys_apart :: "NameToAppMapping \<Rightarrow> AppManager \<Rightarrow> raw_name_map \<Rightarrow> bool" where
  "keys_apart nm appm es \<longleftrightarrow>
     sorted_wrt (\<lambda>a b. apart nm appm a (fst (entry_of nm appm b))) (filter (shown nm) es)"

lemma load_names_spec:
  assumes "live_elements appm es"
  shows "if keys_apart nm appm es
    then \<exists>m'. load_names nm appm es [] = Inr m' \<and> dynamic.sorted_keys (nm_case_insensitive nm) m' \<and>
      set m' = entry_of nm appm ` set (filter (shown nm) es)
    else load_names nm appm es [] = Inl Aborted"
proof -
  have l: "live_elements appm (filter (shown nm) es)" using assms by (auto simp: live_elements_def)
  have e: "dynamic.sorted_keys (nm_case_insensitive nm) []" by (simp add: dynamic.sorted_keys_def)
  have s: "\<forall>x \<in> set (filter (shown nm) es). shown nm x" by simp
  show ?thesis
  proof (cases "keys_apart nm appm es")
    case True
    with load_shown_ok [OF l e s] load_names_filter [OF assms, of nm "[]"] show ?thesis
      by (simp add: keys_apart_def del: set_filter)
  next
    case False
    with load_shown_abort [OF l e s] load_names_filter [OF assms, of nm "[]"] show ?thesis
      by (simp add: keys_apart_def del: set_filter)
  qed
qed

text \<open>Without folding of case the formatters keep the names of the manager apart.\<close>

definition keeps_names :: "application_formatter \<Rightarrow> bool" where
  "keeps_names fmt \<longleftrightarrow> (\<forall>n a n' a'. fmt n a = fmt n' a' \<longrightarrow> n = n')"

lemma keeps_namesD: "keeps_names fmt \<Longrightarrow> fmt n a = fmt n' a' \<Longrightarrow> n = n'"
  unfolding keeps_names_def by blast

lemma formatters_keep_names [simp]:
  "keeps_names appformatter_default"
  "keeps_names appformatter_with_binary_name"
  "keeps_names appformatter_with_base_binary_name"
  unfolding keeps_names_def
  by (blast dest: default_format.format_inject binary_format.format_inject base_binary_format.format_inject)+

lemma keys_apart_sensitive:
  assumes "keeps_names (nm_format nm)" "\<not> nm_case_insensitive nm" "um_keys_unique es"
  shows "keys_apart nm appm es"
proof -
  have "sorted_wrt (\<lambda>a b. fst a \<noteq> fst b) (filter (shown nm) es)"
    using assms(3) unfolding um_keys_unique_def
  proof (induction es)
    case (Cons e es)
    then have "\<forall>x \<in> set es. fst e \<noteq> fst x" by (force simp: image_iff)
    with Cons show ?case by simp
  qed simp
  then show ?thesis
    unfolding keys_apart_def
    by (rule sorted_wrt_mono_rel [rotated])
      (use assms(2) in \<open>auto simp: entry_of_def DynamicCompare_def apart_def
         dest: keeps_namesD [OF assms(1)]\<close>)
qed

lemma live_elements_consistent: "consistent {} appm \<Longrightarrow> live_elements appm (name_app_mapping appm)"
  unfolding live_elements_def
  using view_element by (force simp: view_name_app_mapping_def)

section \<open>What is written to dmenu\<close>

definition menu_text :: "string list \<Rightarrow> string" where
  "menu_text ns = concat (map (\<lambda>n. n @ [NL]) ns)"

lemma fold_Dmenu_write:
  "fold Dmenu_write ns d = d\<lparr>dmenu_outpipe := dmenu_outpipe d @ menu_text ns\<rparr>"
  by (induction ns arbitrary: d) (auto simp: menu_text_def Dmenu_write_def)

definition menu_order :: "string list \<Rightarrow> string list \<Rightarrow> string list" where
  "menu_order history names = history @ filter (\<lambda>n. n \<notin> set history) names"

context strict_weak_order
begin

lemma equivalent_members:
  "sorted_wrt lt xs \<Longrightarrow> x \<in> set xs \<Longrightarrow> y \<in> set xs \<Longrightarrow> equivalent lt x y \<Longrightarrow> x = y"
  by (induction xs) (auto simp: equivalent_def)

lemma erase_member:
  assumes "sorted_wrt lt xs" "h \<in> set xs"
  shows "os_erase lt h xs = (filter (\<lambda>x. x \<noteq> h) xs, True)"
proof -
  have "filter (\<lambda>x. \<not> equivalent lt h x) xs = filter (\<lambda>x. x \<noteq> h) xs"
    using assms equivalent_members by (intro filter_cong) auto
  moreover have "\<exists>x \<in> set xs. equivalent lt h x" using assms(2) equivalent_refl by blast
  ultimately show ?thesis by (simp add: os_erase_def)
qed

lemma write_history_spec:
  "sorted_wrt lt xs \<Longrightarrow> distinct hs \<Longrightarrow> set hs \<subseteq> set xs \<Longrightarrow>
     write_history lt xs hs d = Inr (filter (\<lambda>n. n \<notin> set hs) xs, fold Dmenu_write hs d)"
proof (induction hs arbitrary: xs d)
  case (Cons h hs)
  have "write_history lt (filter (\<lambda>x. x \<noteq> h) xs) hs (Dmenu_write h d) =
      Inr (filter (\<lambda>n. n \<notin> set hs) (filter (\<lambda>x. x \<noteq> h) xs), fold Dmenu_write hs (Dmenu_write h d))"
    using Cons.prems by (intro Cons.IH) (auto intro: sorted_wrt_filter)
  moreover have "filter (\<lambda>n. n \<notin> set hs) (filter (\<lambda>x. x \<noteq> h) xs) = filter (\<lambda>n. n \<notin> set (h # hs)) xs"
    by (auto intro: filter_cong)
  ultimately show ?case using erase_member [of xs h] Cons.prems by simp
qed simp

lemma write_names_spec:
  assumes "sorted_keys m" "distinct hs" "set hs \<subseteq> fst ` set m"
  shows "write_names lt m hs d =
    Inr (d\<lparr>dmenu_outpipe := dmenu_outpipe d @ menu_text (menu_order hs (map fst m))\<rparr>)"
  using assms write_history_spec [of "map fst m" hs d]
  by (auto simp: write_names_def sorted_keys_def fold_Dmenu_write menu_order_def menu_text_def)

lemma sorted_keys_distinct: "sorted_keys m \<Longrightarrow> distinct (map fst m)"
  by (induction m) (auto simp: sorted_keys_def)

lemma menu_order_perm:
  assumes "sorted_keys m" "distinct hs" "set hs \<subseteq> fst ` set m"
  shows "distinct (menu_order hs (map fst m)) \<and> set (menu_order hs (map fst m)) = fst ` set m"
  using assms sorted_keys_distinct [OF assms(1)] by (auto simp: menu_order_def)

lemma lookup_member:
  "sorted_keys m \<Longrightarrow> (n, res) \<in> set m \<Longrightarrow>
     lookup_name lt n m = ApplicationLookup (ra_app res) (ra_is_generic res) []"
  using find_sorted [of m n res n] by (simp add: lookup_name_def)

end

text \<open>A name that is a prefix of the query comes before the longer ones.\<close>

lemma less_wrapper_prefix: "strict_prefix a b \<Longrightarrow> less_wrapper a b"
  by (induction a b rule: less_wrapper.induct) (auto simp: strict_prefix_def)

lemma less_prefixes:
  assumes "less_wrapper a b" "prefix a q" "prefix b q"
  shows "length a < length b"
proof -
  have "prefix a b \<or> prefix b a" using assms(2,3) prefix_same_cases by blast
  moreover have "\<not> prefix b a"
    using assms(1) less_wrapper_prefix [of b a] less_wrapper_asym less_wrapper_irrefl
    by (auto simp: strict_prefix_def)
  ultimately have "strict_prefix a b" by (auto simp: strict_prefix_def)
  then show ?thesis by (rule prefix_length_less)
qed

definition shortest_entry ::
  "formatted_name_map \<Rightarrow> string \<Rightarrow> string \<Rightarrow> Resolved_application \<Rightarrow> bool" where
  "shortest_entry m q n res \<longleftrightarrow>
     (n, res) \<in> set m \<and> prefix n q \<and> (\<forall>n' \<in> fst ` set m. prefix n' q \<longrightarrow> length n \<le> length n')"

lemma lookup_prefix_none:
  "\<forall>n \<in> fst ` set m. \<not> prefix n q \<Longrightarrow> lookup_prefix q m = CommandLookup q"
  by (induction q m rule: lookup_prefix.induct) auto

lemma lookup_prefix_some:
  "less.sorted_keys m \<Longrightarrow> \<exists>n \<in> fst ` set m. prefix n q \<Longrightarrow>
     \<exists>n res. shortest_entry m q n res \<and>
       lookup_prefix q m = ApplicationLookup (ra_app res) (ra_is_generic res) (drop (length n) q)"
proof (induction q m rule: lookup_prefix.induct)
  case (2 q n res m)
  have s: "less.sorted_keys m" and lo: "\<And>n'. n' \<in> fst ` set m \<Longrightarrow> less_wrapper n n'"
    using "2.prems"(1) by (auto simp: less.sorted_keys_def)
  show ?case
  proof (cases "prefix n q")
    case True
    have "length n \<le> length n'" if "n' \<in> fst ` set m" "prefix n' q" for n'
      using less_prefixes [OF lo [OF that(1)] True that(2)] by simp
    then have "shortest_entry ((n, res) # m) q n res" using True by (auto simp: shortest_entry_def)
    moreover have "lookup_prefix q ((n, res) # m) =
        ApplicationLookup (ra_app res) (ra_is_generic res) (drop (length n) q)" using True by simp
    ultimately show ?thesis by blast
  next
    case False
    then have "\<exists>n \<in> fst ` set m. prefix n q" using "2.prems"(2) by auto
    with "2.IH" False s obtain n' res' where "shortest_entry m q n' res'"
      "lookup_prefix q m = ApplicationLookup (ra_app res') (ra_is_generic res') (drop (length n') q)"
      by auto
    moreover from this False have "shortest_entry ((n, res) # m) q n' res'" by (auto simp: shortest_entry_def)
    ultimately show ?thesis using False by auto
  qed
qed simp

lemma lookup_meaning:
  assumes "sorted_wrt less_wrapper (map fst m)"
  shows "if q \<in> fst ` set m
    then \<exists>res. (q, res) \<in> set m \<and>
      lookup_name less_wrapper q m = ApplicationLookup (ra_app res) (ra_is_generic res) []
    else if \<exists>n \<in> fst ` set m. prefix n q
    then \<exists>n res args. q = n @ args \<and> shortest_entry m q n res \<and>
      lookup_name less_wrapper q m = ApplicationLookup (ra_app res) (ra_is_generic res) args
    else lookup_name less_wrapper q m = CommandLookup q"
proof -
  have s: "less.sorted_keys m" using assms by (simp add: less.sorted_keys_def)
  show ?thesis
  proof (cases "q \<in> fst ` set m")
    case True
    with less.lookup_member [OF s] show ?thesis by force
  next
    case False
    then have "om_find less_wrapper q m = None" by (auto simp: less.find_None)
    then have l: "lookup_name less_wrapper q m = lookup_prefix q m" by (simp add: lookup_name_def)
    show ?thesis
    proof (cases "\<exists>n \<in> fst ` set m. prefix n q")
      case True
      from lookup_prefix_some [OF s True] obtain n res where e: "shortest_entry m q n res"
        "lookup_prefix q m = ApplicationLookup (ra_app res) (ra_is_generic res) (drop (length n) q)"
        by blast
      from e(1) have "q = n @ drop (length n) q" by (auto simp: shortest_entry_def prefix_def)
      with e True False l show ?thesis by metis
    next
      case n: False
      then have "lookup_prefix q m = CommandLookup q" by (intro lookup_prefix_none) blast
      with n False l show ?thesis by simp
    qed
  qed
qed

text \<open>An answer that is a menu entry stands for exactly that entry. Any other answer stands for
  the entry with the shortest name it begins with, the rest being the arguments, and for a command
  when it begins with the name of no entry.\<close>

theorem lookup_name_meaning:
  assumes "sorted_wrt less_wrapper (map fst m)"
  shows "if q \<in> fst ` set m
    then \<exists>res. (q, res) \<in> set m \<and>
      lookup_name less_wrapper q m = ApplicationLookup (ra_app res) (ra_is_generic res) []
    else if \<exists>n \<in> fst ` set m. prefix n q
    then \<exists>n res args. q = n @ args \<and> shortest_entry m q n res \<and>
      lookup_name less_wrapper q m = ApplicationLookup (ra_app res) (ra_is_generic res) args
    else lookup_name less_wrapper q m = CommandLookup q"
  by (rule lookup_meaning [OF assms])

definition sample_map :: formatted_name_map where
  "sample_map =
     [(''Ed'', \<lparr>ra_app = ''e.desktop'', ra_is_generic = False\<rparr>),
      (''Edit'', \<lparr>ra_app = ''d.desktop'', ra_is_generic = False\<rparr>)]"

theorem lookup_name_meaning_witness:
  "lookup_name less_wrapper ''Edit x'' sample_map = ApplicationLookup ''e.desktop'' False ''it x''"
proof -
  have "sorted_wrt less_wrapper (map fst sample_map)" by (simp add: sample_map_def)
  from lookup_name_meaning [OF this, of "''Edit x''"]
  obtain n res args where "''Edit x'' = n @ args" "shortest_entry sample_map ''Edit x'' n res"
    "lookup_name less_wrapper ''Edit x'' sample_map = ApplicationLookup (ra_app res) (ra_is_generic res) args"
    by (auto simp: sample_map_def split: if_splits)
  then show ?thesis by (auto simp: shortest_entry_def sample_map_def)
qed

section \<open>The history in the menu\<close>

definition label :: "NameToAppMapping \<Rightarrow> AppManager \<Rightarrow> string \<Rightarrow> string" where
  "label nm appm n =
     nm_format nm n (the (deref appm (ra_app (resolved (the (um_find (nm_raw_mapping nm) n))))))"

definition in_menu :: "NameToAppMapping \<Rightarrow> bool \<Rightarrow> string \<Rightarrow> bool" where
  "in_menu nm ex n \<longleftrightarrow>
     (case um_find (nm_raw_mapping nm) n of
        None \<Rightarrow> False
      | Some e \<Rightarrow> \<not> (ex \<and> ra_is_generic (resolved e)))"

definition tidy :: "HistoryManager \<Rightarrow> bool" where
  "tidy hm \<longleftrightarrow> mmap_sorted (hm_history hm) \<and> unique_names (hm_history hm)"

lemma mmap_erase_at_unique: "unique_names h \<Longrightarrow> unique_names (mmap_erase_at i h)"
proof (induction h arbitrary: i)
  case (Cons e es)
  then show ?case
    using mmap_erase_at_subset [of "i - 1" es] by (cases i) (auto simp: unique_names_def)
qed (simp add: unique_names_def)

lemma remove_obsolete_entry_tidy:
  "tidy hm \<Longrightarrow> \<exists>hm'. remove_obsolete_entry err True i hm = Inr (i, hm') \<and> tidy hm'"
  by (auto simp: remove_obsolete_entry_def HistoryManager_write_def tidy_def mmap_erase_at_sorted
      mmap_erase_at_unique)

text \<open>The names the loop of \<open>reload\<close> picks from what is left of the history.\<close>

definition picks :: "NameToAppMapping \<Rightarrow> AppManager \<Rightarrow> bool \<Rightarrow> history_mmap \<Rightarrow> string list \<Rightarrow> string list \<Rightarrow> bool" where
  "picks nm appm ex rest out ns \<longleftrightarrow>
     out = map (label nm appm) ns \<and> distinct ns \<and> set ns \<subseteq> {n \<in> snd ` set rest. in_menu nm ex n}"

lemma picks_more: "picks nm appm ex rest out ns \<Longrightarrow> picks nm appm ex (e # rest) out ns"
  by (auto simp: picks_def)

lemma picks_Cons:
  "picks nm appm ex rest out ns \<Longrightarrow> in_menu nm ex n \<Longrightarrow> n \<notin> snd ` set rest \<Longrightarrow>
     picks nm appm ex ((c, n) # rest) (label nm appm n # out) (n # ns)"
  by (auto simp: picks_def)

lemma reload_loop_spec:
  assumes live: "live_elements appm (nm_raw_mapping nm)" "um_keys_unique (nm_raw_mapping nm)"
  shows "distinct (map snd rest) \<Longrightarrow> tidy hist \<Longrightarrow>
    \<exists>hist' out ns. reload_loop err True appm nm rm ex i rest hist formatted = Inr (hist', formatted @ out) \<and>
      tidy hist' \<and> picks nm appm ex rest out ns \<and>
      (\<not> rm \<longrightarrow> hist' = hist \<and> ns = filter (in_menu nm ex) (map snd rest))"
proof (induction rest arbitrary: i hist formatted rule: length_induct)
  case (1 rest)
  note IH = "1.IH" [rule_format]
  show ?case
  proof (cases rest)
    case Nil
    with "1.prems" show ?thesis by (auto simp: picks_def)
  next
    case (Cons x rest')
    obtain c n where x: "x = (c, n)" by force
    have d: "distinct (map snd rest')" "n \<notin> snd ` set rest'" using "1.prems"(1) Cons x by auto
    have l: "length rest' < length rest" using Cons by simp
    show ?thesis
    proof (cases "um_find (nm_raw_mapping nm) n")
      case None
      then have ni: "\<not> in_menu nm ex n" by (simp add: in_menu_def)
      show ?thesis
      proof (cases rm)
        case False
        with IH [OF l d(1) "1.prems"(2), of "i + 1" formatted] None Cons x ni show ?thesis
          by (auto intro: picks_more)
      next
        case True
        from remove_obsolete_entry_tidy [OF "1.prems"(2), of err i] obtain hm' where
          hm': "remove_obsolete_entry err True i hist = Inr (i, hm')" "tidy hm'" by blast
        show ?thesis
        proof (cases rest')
          case Nil
          with hm' None True Cons x show ?thesis by (auto simp: picks_def)
        next
          case (Cons y rest'')
          have "length rest'' < length rest" "distinct (map snd rest'')"
            using Cons l d(1) by auto
          from IH [OF this hm'(2), of "i + 1" formatted] hm' None True Cons \<open>rest = x # rest'\<close> x
          show ?thesis by auto (blast intro: picks_more)
        qed
      qed
    next
      case (Some e)
      show ?thesis
      proof (cases "ex \<and> ra_is_generic (resolved e)")
        case True
        then have "\<not> in_menu nm ex n" using Some by (simp add: in_menu_def)
        with IH [OF l d(1) "1.prems"(2), of "i + 1" formatted] True Some Cons x show ?thesis
          by (auto intro: picks_more)
      next
        case False
        then have im: "in_menu nm ex n" using Some by (simp add: in_menu_def)
        have "(n, e) \<in> set (nm_raw_mapping nm)" using Some live(2) by (simp add: um_find_in_set)
        then obtain app where app: "deref appm (ra_app (resolved e)) = Some app"
          using live(1) by (force simp: live_elements_def)
        then have lab: "label nm appm n = nm_format nm n app" using Some by (simp add: label_def)
        from IH [OF l d(1) "1.prems"(2), of "i + 1" "formatted @ [nm_format nm n app]"]
        obtain hist' out ns where r: "reload_loop err True appm nm rm ex (i + 1) rest' hist
            (formatted @ [nm_format nm n app]) = Inr (hist', formatted @ nm_format nm n app # out)"
          "tidy hist'" "picks nm appm ex rest' out ns"
          "\<not> rm \<longrightarrow> hist' = hist \<and> ns = filter (in_menu nm ex) (map snd rest')" by auto
        from picks_Cons [OF r(3) im d(2), of c] r lab im False Some app Cons x show ?thesis by auto
      qed
    qed
  qed
qed

section \<open>The whole menu\<close>

text \<open>The settings under which two names of the manager never become the same menu entry.\<close>

definition exact_names :: "CommandRetrievalLoop \<Rightarrow> bool" where
  "exact_names cl \<longleftrightarrow> keeps_names (nm_format (cl_mapping cl)) \<and> \<not> nm_case_insensitive (cl_mapping cl)"

definition history_tidy :: "CommandRetrievalLoop \<Rightarrow> bool" where
  "history_tidy cl \<longleftrightarrow>
     (case cl_hist cl of
        None \<Rightarrow> True
      | Some fh \<Rightarrow> tidy (fh_hist fh) \<and> fh_exclude_generic fh = nm_exclude_generic (cl_mapping cl))"

definition history_lines :: "CommandRetrievalLoop \<Rightarrow> string list" where
  "history_lines cl = (case cl_hist cl of Some fh \<Rightarrow> fh_formatted fh | None \<Rightarrow> [])"

definition entries :: "CommandRetrievalLoop \<Rightarrow> AppManager \<Rightarrow> (string \<times> Resolved_application) set" where
  "entries cl appm = entry_of (cl_mapping cl) appm ` set (filter (shown (cl_mapping cl)) (name_app_mapping appm))"

lemma NameToAppMapping_load_exact:
  assumes "consistent {} appm" "keeps_names (nm_format nm)" "\<not> nm_case_insensitive nm"
  shows "\<exists>m. NameToAppMapping_load appm nm = Inr (nm\<lparr>nm_raw_mapping := name_app_mapping appm, nm_mapping := m\<rparr>) \<and>
    less.sorted_keys m \<and> set m = entry_of nm appm ` set (filter (shown nm) (name_app_mapping appm))"
proof -
  have "um_keys_unique (name_app_mapping appm)" using assms(1) by (simp add: consistent_def)
  from keys_apart_sensitive [OF assms(2,3) this]
    load_names_spec [OF live_elements_consistent [OF assms(1)], of nm] assms(3)
  show ?thesis by (auto simp: NameToAppMapping_load_def DynamicCompare_def)
qed

lemma picks_entries:
  assumes p: "picks nm appm (nm_exclude_generic nm) rest out ns" and k: "keeps_names (nm_format nm)"
    and u: "um_keys_unique (nm_raw_mapping nm)"
  shows "distinct out \<and> set out \<subseteq> fst ` entry_of nm appm ` set (filter (shown nm) (nm_raw_mapping nm))"
proof
  from p have ns: "distinct ns" "out = map (label nm appm) ns"
    "\<And>n. n \<in> set ns \<Longrightarrow> in_menu nm (nm_exclude_generic nm) n" by (auto simp: picks_def)
  have "inj_on (label nm appm) (set ns)" using keeps_namesD [OF k] by (auto simp: inj_on_def label_def)
  with ns show "distinct out" by (simp add: distinct_map)
  show "set out \<subseteq> fst ` entry_of nm appm ` set (filter (shown nm) (nm_raw_mapping nm))"
  proof
    fix l assume "l \<in> set out"
    then obtain n where n: "l = label nm appm n" "in_menu nm (nm_exclude_generic nm) n" using ns by auto
    then obtain e where e: "um_find (nm_raw_mapping nm) n = Some e" "shown nm (n, e)"
      by (auto simp: in_menu_def shown_def split: option.splits)
    have m: "(n, e) \<in> set (filter (shown nm) (nm_raw_mapping nm))" using e u by (simp add: um_find_in_set)
    have "l = fst (entry_of nm appm (n, e))" using n(1) e(1) by (simp add: label_def entry_of_def)
    with m show "l \<in> fst ` entry_of nm appm ` set (filter (shown nm) (nm_raw_mapping nm))" by blast
  qed
qed

lemma update_mapping_spec:
  assumes c: "consistent {} appm" and e: "exact_names cl" and h: "history_tidy cl"
  shows "\<exists>cl'. update_mapping err True appm cl = Inr cl' \<and> exact_names cl' \<and> history_tidy cl' \<and>
    less.sorted_keys (nm_mapping (cl_mapping cl')) \<and> set (nm_mapping (cl_mapping cl')) = entries cl appm \<and>
    distinct (history_lines cl') \<and> set (history_lines cl') \<subseteq> fst ` entries cl appm"
proof -
  let ?nm = "cl_mapping cl"
  obtain m where m: "NameToAppMapping_load appm ?nm =
      Inr (?nm\<lparr>nm_raw_mapping := name_app_mapping appm, nm_mapping := m\<rparr>)" "less.sorted_keys m"
    "set m = entries cl appm"
    using NameToAppMapping_load_exact [OF c, of ?nm] e by (auto simp: exact_names_def entries_def)
  let ?nm' = "?nm\<lparr>nm_raw_mapping := name_app_mapping appm, nm_mapping := m\<rparr>"
  show ?thesis
  proof (cases "cl_hist cl")
    case None
    with m e show ?thesis
      by (auto simp: update_mapping_def exact_names_def history_tidy_def history_lines_def)
  next
    case (Some fh)
    have live: "live_elements appm (nm_raw_mapping ?nm')" "um_keys_unique (nm_raw_mapping ?nm')"
      using live_elements_consistent [OF c] c by (simp_all add: consistent_def)
    have "distinct (map snd (HistoryManager_view (fh_hist fh)))" "tidy (fh_hist fh)"
      and ex: "fh_exclude_generic fh = nm_exclude_generic ?nm'"
      using h Some by (auto simp: history_tidy_def tidy_def unique_names_def HistoryManager_view_def)
    from reload_loop_spec [OF live this(1,2), of err "fh_remove_obsolete fh" "nm_exclude_generic ?nm'" 0 "[]"]
    obtain hist' out ns where r: "reload_loop err True appm ?nm' (fh_remove_obsolete fh)
        (nm_exclude_generic ?nm') 0 (HistoryManager_view (fh_hist fh)) (fh_hist fh) [] = Inr (hist', out)"
      "tidy hist'" "picks ?nm' appm (nm_exclude_generic ?nm') (HistoryManager_view (fh_hist fh)) out ns" by auto
    have "entry_of ?nm' appm = entry_of ?nm appm" "shown ?nm' = shown ?nm"
      by (simp_all add: fun_eq_iff entry_of_def shown_def)
    then have "distinct out" "set out \<subseteq> fst ` entries cl appm"
      using picks_entries [OF r(3) _ live(2)] e by (simp_all add: exact_names_def entries_def)
    with m e r(1,2) ex Some show ?thesis
      by (simp add: update_mapping_def FormattedHistoryManager_reload_def exact_names_def
          history_tidy_def history_lines_def)
  qed
qed

text \<open>The lines the manager stands for, as the client of the manager sees it.\<close>

definition shown_lines :: "CommandRetrievalLoop \<Rightarrow> AppManager \<Rightarrow> string set" where
  "shown_lines cl appm =
     {nm_format (cl_mapping cl) n app | n app g.
        (n, Some app, g) \<in> set (view_name_app_mapping appm) \<and> \<not> (nm_exclude_generic (cl_mapping cl) \<and> g)}"

lemma entries_element:
  assumes c: "consistent {} appm"
  shows "(l, res) \<in> entries cl appm \<longleftrightarrow>
    (\<exists>n app g. (n, Some app, g) \<in> set (view_name_app_mapping appm) \<and>
       \<not> (nm_exclude_generic (cl_mapping cl) \<and> g) \<and> l = nm_format (cl_mapping cl) n app \<and>
       deref appm (ra_app res) = Some app \<and> ra_is_generic res = g \<and>
       (n, res) \<in> (\<lambda>(n, e). (n, resolved e)) ` set (name_app_mapping appm))"
    (is "?L \<longleftrightarrow> ?R")
proof
  assume ?L
  then obtain n e where e: "(n, e) \<in> set (name_app_mapping appm)" "shown (cl_mapping cl) (n, e)"
    "l = nm_format (cl_mapping cl) n (the (deref appm (ra_app (resolved e))))" "res = resolved e"
    by (auto simp: entries_def entry_of_def)
  moreover obtain app where "deref appm (ra_app (resolved e)) = Some app"
    using live_elements_consistent [OF c] e(1) by (fastforce simp: live_elements_def)
  ultimately show ?R
    by (force simp: shown_def view_name_app_mapping_def)
next
  assume ?R
  then obtain n app g e where "\<not> (nm_exclude_generic (cl_mapping cl) \<and> g)"
    "l = nm_format (cl_mapping cl) n app" "deref appm (ra_app res) = Some app" "ra_is_generic res = g"
    "(n, e) \<in> set (name_app_mapping appm)" "res = resolved e" by auto
  then show ?L by (force simp: entries_def entry_of_def shown_def)
qed

lemma entries_lines:
  assumes c: "consistent {} appm"
  shows "fst ` entries cl appm = shown_lines cl appm"
proof
  show "fst ` entries cl appm \<subseteq> shown_lines cl appm"
    using entries_element [OF c] by (fastforce simp: shown_lines_def)
  show "shown_lines cl appm \<subseteq> fst ` entries cl appm"
  proof
    fix l assume "l \<in> shown_lines cl appm"
    then obtain n app g where l: "l = nm_format (cl_mapping cl) n app"
      "(n, Some app, g) \<in> set (view_name_app_mapping appm)"
      "\<not> (nm_exclude_generic (cl_mapping cl) \<and> g)" by (auto simp: shown_lines_def)
    then obtain e where e: "(n, e) \<in> set (name_app_mapping appm)"
      "deref appm (ra_app (resolved e)) = Some app" "g = ra_is_generic (resolved e)"
      by (auto simp: view_name_app_mapping_def)
    have "(l, resolved e) = entry_of (cl_mapping cl) appm (n, e)" using l(1) e(2) by (simp add: entry_of_def)
    moreover have "(n, e) \<in> set (filter (shown (cl_mapping cl)) (name_app_mapping appm))"
      using e l(3) by (simp add: shown_def)
    ultimately show "l \<in> fst ` entries cl appm"
      unfolding entries_def by (metis fst_conv image_eqI)
  qed
qed

text \<open>C16: whenever the set of applications has changed, the menu can be rebuilt (in case-sensitive
  mode, with any of the formatters and a history without duplicates), and dmenu is then sent every
  shown name exactly once: the history first, in its order, then the other names in alphabetical
  order.\<close>

theorem menu_complete:
  assumes "reachable appm" "exact_names cl" "history_tidy cl"
  shows "\<exists>cl' ns. update_mapping err True appm cl = Inr cl' \<and>
    distinct ns \<and> set ns = shown_lines cl appm \<and> prefix (history_lines cl') ns \<and>
    sorted_wrt less_wrapper (drop (length (history_lines cl')) ns) \<and>
    (\<forall>d. write_names less_wrapper (nm_mapping (cl_mapping cl')) (history_lines cl') d =
       Inr (d\<lparr>dmenu_outpipe := dmenu_outpipe d @ menu_text ns\<rparr>))"
proof -
  note c = reachable_consistent [OF assms(1)]
  from update_mapping_spec [OF c assms(2,3), of err] obtain cl' where u: "update_mapping err True appm cl = Inr cl'"
    "less.sorted_keys (nm_mapping (cl_mapping cl'))" "set (nm_mapping (cl_mapping cl')) = entries cl appm"
    "distinct (history_lines cl')" "set (history_lines cl') \<subseteq> fst ` entries cl appm" by blast
  let ?m = "nm_mapping (cl_mapping cl')" let ?h = "history_lines cl'"
  have sub: "set ?h \<subseteq> fst ` set ?m" using u(3,5) by simp
  have "sorted_wrt less_wrapper (drop (length ?h) (menu_order ?h (map fst ?m)))"
    using u(2) by (simp add: menu_order_def less.sorted_keys_def sorted_wrt_filter)
  moreover have "prefix ?h (menu_order ?h (map fst ?m))" by (simp add: menu_order_def)
  ultimately show ?thesis
    using u(1,3) less.write_names_spec [OF u(2,4) sub] less.menu_order_perm [OF u(2,4) sub]
      entries_lines [OF c, of cl] by metis
qed

definition sample_loop :: CommandRetrievalLoop where
  "sample_loop =
     \<lparr>cl_dmenu = Dmenu_ctor ''dmenu'', cl_mapping = NameToAppMapping_ctor appformatter_default False False,
      cl_hist = Some \<lparr>fh_hist = \<lparr>hm_file = [], hm_history = [(2, ''Y''), (1, ''gone'')], hm_filename = ''h''\<rparr>,
        fh_formatted = [], fh_remove_obsolete = True, fh_exclude_generic = False\<rparr>,
      cl_no_exec = False\<rparr>"

lemma sample_loop_ok: "exact_names sample_loop" "history_tidy sample_loop"
  by (simp_all add: sample_loop_def exact_names_def history_tidy_def NameToAppMapping_ctor_def tidy_def
      mmap_sorted_def unique_names_def)

theorem menu_complete_witness:
  "\<exists>cl' ns. update_mapping [] True sample_manager sample_loop = Inr cl' \<and> set ns = {''X'', ''Y''} \<and>
     (\<forall>d. write_names less_wrapper (nm_mapping (cl_mapping cl')) (history_lines cl') d =
       Inr (d\<lparr>dmenu_outpipe := dmenu_outpipe d @ menu_text ns\<rparr>))"
proof -
  have "shown_lines sample_loop sample_manager = {''X'', ''Y''}"
    by (auto simp: shown_lines_def sample_loop_def NameToAppMapping_ctor_def appformatter_default_def
        view_name_app_mapping_def sample_manager_def deref_def lookup_by_ID_def um_find_def)
  with menu_complete [OF sample_reachable sample_loop_ok, of "[]"] show ?thesis by metis
qed

lemma entries_cong:
  "nm_format (cl_mapping cl') = nm_format (cl_mapping cl) \<Longrightarrow>
     nm_exclude_generic (cl_mapping cl') = nm_exclude_generic (cl_mapping cl) \<Longrightarrow>
     entries cl' appm = entries cl appm"
  by (simp add: entries_def entry_of_def [abs_def] shown_def [abs_def])

lemma update_mapping_settings:
  "update_mapping err trunc appm cl = Inr cl' \<Longrightarrow>
     nm_format (cl_mapping cl') = nm_format (cl_mapping cl) \<and>
     nm_exclude_generic (cl_mapping cl') = nm_exclude_generic (cl_mapping cl)"
  by (auto simp: update_mapping_def NameToAppMapping_load_def split: option.splits)

lemma formatted_increment_total:
  assumes "history_tidy cl" "cl_hist cl = Some fh" "count_of n (hm_history (fh_hist fh)) < INT_MAX"
  shows "\<exists>fh'. FormattedHistoryManager_increment err True n fh = Inr fh'"
proof -
  have "mmap_sorted (hm_history (fh_hist fh))" "unique_names (hm_history (fh_hist fh))"
    using assms(1,2) by (auto simp: history_tidy_def tidy_def)
  with increment_entry_spec [OF this(2) assms(3)] show ?thesis
    by (simp add: FormattedHistoryManager_increment_def HistoryManager_increment_def HistoryManager_write_def)
qed

text \<open>The line of a name stands for the application the name belongs to, and no other.\<close>

lemma line_entry:
  assumes "consistent {} appm" "exact_names cl"
    and "(n, Some app, g) \<in> set (view_name_app_mapping appm)" "\<not> (nm_exclude_generic (cl_mapping cl) \<and> g)"
  shows "\<exists>res. (nm_format (cl_mapping cl) n app, res) \<in> entries cl appm \<and>
    deref appm (ra_app res) = Some app \<and> ra_is_generic res = g"
proof -
  let ?l = "nm_format (cl_mapping cl) n app"
  have "?l \<in> fst ` entries cl appm"
    unfolding entries_lines [OF assms(1)] using assms(3,4) by (auto simp: shown_lines_def)
  then obtain res where res: "(?l, res) \<in> entries cl appm" by auto
  then obtain n' app' where r: "(n', Some app', ra_is_generic res) \<in> set (view_name_app_mapping appm)"
    "?l = nm_format (cl_mapping cl) n' app'" "deref appm (ra_app res) = Some app'"
    using entries_element [OF assms(1)] by blast
  have n': "n' = n" using keeps_namesD [of "nm_format (cl_mapping cl)" n app n' app'] assms(2) r(2)
    by (simp add: exact_names_def)
  have "app' = app \<and> ra_is_generic res = g"
    using view_distinct [OF assms(1)] r(1) assms(3) n' by (auto dest: eq_key_imp_eq_value)
  with res r(3) show ?thesis by blast
qed

lemma prompt_picks:
  assumes "reachable appm" "exact_names cl" "history_tidy cl"
    and "less.sorted_keys (nm_mapping (cl_mapping cl))" "set (nm_mapping (cl_mapping cl)) = entries cl appm"
    and "distinct (history_lines cl)" "set (history_lines cl) \<subseteq> fst ` entries cl appm"
    and "(n, Some app, g) \<in> set (view_name_app_mapping appm)" "\<not> (nm_exclude_generic (cl_mapping cl) \<and> g)"
    and "\<And>menu. program menu = (Wexited 0, nm_format (cl_mapping cl) n app @ [NL])"
    and "nm_format (cl_mapping cl) n app \<noteq> []"
    and "\<And>fh. cl_hist cl = Some fh \<Longrightarrow> count_of n (hm_history (fh_hist fh)) < INT_MAX"
  shows "\<exists>ptr cl'. prompt_user_for_choice err True program appm cl = Inr (Some (DesktopCommandInfo ptr []), cl') \<and>
    deref appm ptr = Some app \<and>
    (if cl_no_exec cl then cl' = cl
     else case cl_hist cl of
       None \<Rightarrow> cl' = cl
     | Some fh \<Rightarrow> \<exists>fh'. FormattedHistoryManager_increment err True n fh = Inr fh' \<and>
         cl' = cl\<lparr>cl_hist := Some fh'\<rparr>)"
proof -
  note c = reachable_consistent [OF assms(1)]
  let ?l = "nm_format (cl_mapping cl) n app" let ?m = "nm_mapping (cl_mapping cl)"
  have u: "exact_names cl" "history_tidy cl" "less.sorted_keys ?m" "set ?m = entries cl appm"
    "distinct (history_lines cl)" "set (history_lines cl) \<subseteq> fst ` set ?m" using assms(2-7) by auto
  have lt: "DynamicCompare (nm_case_insensitive (cl_mapping cl)) = less_wrapper"
    using u(1) by (simp add: exact_names_def DynamicCompare_def)
  obtain res where r: "(?l, res) \<in> entries cl appm" "deref appm (ra_app res) = Some app" "ra_is_generic res = g"
    using line_entry [OF c assms(2,8,9)] by blast
  have raw: "n = (if g then app_generic_name app else app_name app)"
    using view_element [OF c assms(8)] by auto
  have dm: "do_dmenu program less_wrapper ?m (history_lines cl) d = Inr (Some ?l)" for d
    using less.write_names_spec [OF u(3,5,6), of d] assms(10,11)
    by (simp add: do_dmenu_def Dmenu_read_choice_def chop_newline_def)
  have lk: "lookup_name less_wrapper ?l ?m = ApplicationLookup (ra_app res) g []"
    using less.lookup_member [OF u(3), of ?l res] r u(4) by simp
  have hl: "(case cl_hist cl of Some fh \<Rightarrow> fh_formatted fh | None \<Rightarrow> []) = history_lines cl"
    by (simp add: history_lines_def)
  have inc: "\<exists>fh'. FormattedHistoryManager_increment err True n fh = Inr fh'" if "cl_hist cl = Some fh" for fh
    using formatted_increment_total [OF u(2) that assms(12) [OF that]] .
  have p: "prompt_user_for_choice err True program appm cl =
      (case (cl_no_exec cl, cl_hist cl) of
         (False, Some fh) \<Rightarrow>
           bind_sum (FormattedHistoryManager_increment err True n fh)
             (\<lambda>fh'. Inr (Some (DesktopCommandInfo (ra_app res) []), cl\<lparr>cl_hist := Some fh'\<rparr>))
       | _ \<Rightarrow> Inr (Some (DesktopCommandInfo (ra_app res) []), cl))"
    unfolding prompt_user_for_choice_def Let_def lt hl dm
    using lk r(2,3) raw by (simp cong: option.case_cong bool.case_cong)
  show ?thesis
  proof (cases "cl_no_exec cl \<or> cl_hist cl = None")
    case True
    then have "prompt_user_for_choice err True program appm cl =
        Inr (Some (DesktopCommandInfo (ra_app res) []), cl)"
      unfolding p by (auto split: bool.splits)
    with True r(2) show ?thesis by auto
  next
    case False
    then obtain fh where fh: "cl_hist cl = Some fh" "\<not> cl_no_exec cl" by auto
    with inc obtain fh' where "FormattedHistoryManager_increment err True n fh = Inr fh'" by blast
    with p fh r(2) show ?thesis by auto
  qed
qed

text \<open>When the user picks a line of the menu, the program runs the application that line was made
  from, without arguments, and counts the name it was listed under (its \<open>Name\<close> or \<open>GenericName\<close>);
  with \<open>--no-exec\<close>, or without a history, nothing is counted.\<close>

theorem picked_entry:
  assumes "reachable appm" "exact_names cl" "history_tidy cl" "update_mapping err True appm cl = Inr cl'"
    and "(n, Some app, g) \<in> set (view_name_app_mapping appm)" "\<not> (nm_exclude_generic (cl_mapping cl) \<and> g)"
    and "\<And>menu. program menu = (Wexited 0, nm_format (cl_mapping cl) n app @ [NL])"
    and "nm_format (cl_mapping cl) n app \<noteq> []"
    and "\<And>fh. cl_hist cl' = Some fh \<Longrightarrow> count_of n (hm_history (fh_hist fh)) < INT_MAX"
  shows "\<exists>ptr cl''. prompt_user_for_choice err True program appm cl' = Inr (Some (DesktopCommandInfo ptr []), cl'') \<and>
    deref appm ptr = Some app \<and>
    (if cl_no_exec cl' then cl'' = cl'
     else case cl_hist cl' of
       None \<Rightarrow> cl'' = cl'
     | Some fh \<Rightarrow> \<exists>fh'. FormattedHistoryManager_increment err True n fh = Inr fh' \<and>
         cl'' = cl'\<lparr>cl_hist := Some fh'\<rparr>)"
proof -
  obtain u: "exact_names cl'" "history_tidy cl'" "less.sorted_keys (nm_mapping (cl_mapping cl'))"
    "set (nm_mapping (cl_mapping cl')) = entries cl appm"
    "distinct (history_lines cl')" "set (history_lines cl') \<subseteq> fst ` entries cl appm"
    using update_mapping_spec [OF reachable_consistent [OF assms(1)] assms(2,3), of err] assms(4) by auto
  have s: "nm_format (cl_mapping cl') = nm_format (cl_mapping cl)"
    "nm_exclude_generic (cl_mapping cl') = nm_exclude_generic (cl_mapping cl)" "entries cl' appm = entries cl appm"
    using update_mapping_settings [OF assms(4)] entries_cong [of cl' cl] by auto
  show ?thesis
    by (rule prompt_picks) (use assms u s in auto)
qed

text \<open>The sample loop, its menu rebuilt and the entry \<open>Y\<close> picked.\<close>

theorem picked_entry_witness:
  "\<exists>cl' ptr cl''. update_mapping [] True sample_manager sample_loop = Inr cl' \<and>
     prompt_user_for_choice [] True (\<lambda>_. (Wexited 0, ''Y'' @ [NL])) sample_manager cl' =
       Inr (Some (DesktopCommandInfo ptr []), cl'') \<and>
     deref sample_manager ptr = Some (sample_app ''Y'' ''X'' ''y'' ''/b/y.desktop'')"
proof -
  obtain cl' where u: "update_mapping [] True sample_manager sample_loop = Inr cl'"
    "history_tidy cl'"
    using update_mapping_spec [OF reachable_consistent [OF sample_reachable] sample_loop_ok] by blast
  have v: "(''Y'', Some (sample_app ''Y'' ''X'' ''y'' ''/b/y.desktop''), False)
      \<in> set (view_name_app_mapping sample_manager)"
    by (simp add: view_name_app_mapping_def sample_manager_def deref_def lookup_by_ID_def um_find_def)
  have lab: "nm_format (cl_mapping sample_loop) ''Y'' a = ''Y''" for a
    by (simp add: sample_loop_def NameToAppMapping_ctor_def appformatter_default_def)
  have cnt: "count_of ''Y'' (hm_history (fh_hist fh)) < INT_MAX" if "cl_hist cl' = Some fh" for fh
    using u(1) that
    by (auto simp: update_mapping_def sample_loop_def NameToAppMapping_ctor_def NameToAppMapping_load_def
        sample_manager_def deref_def lookup_by_ID_def um_find_def DynamicCompare_def
        appformatter_default_def FormattedHistoryManager_reload_def HistoryManager_view_def
        remove_obsolete_entry_def HistoryManager_write_def mmap_erase_at_def INT_MAX_def)
  from picked_entry [OF sample_reachable sample_loop_ok u(1) v, of "\<lambda>_. (Wexited 0, ''Y'' @ [NL])"] cnt lab
  show ?thesis using u(1) by fastforce
qed

section \<open>How it fails\<close>

text \<open>The menu can be built exactly when no two shown names are one key of the ordered map, that is
  always in case-sensitive mode with the formatters of the program, and in case-insensitive mode
  when no two shown names differ by case alone; otherwise the program aborts.\<close>

theorem load_aborts_on_collision:
  assumes "reachable appm"
  shows "NameToAppMapping_load appm nm =
    (if keys_apart nm appm (name_app_mapping appm)
     then Inr (nm\<lparr>nm_raw_mapping := name_app_mapping appm,
       nm_mapping := projr (load_names nm appm (name_app_mapping appm) [])\<rparr>)
     else Inl Aborted)"
proof -
  note c = reachable_consistent [OF assms]
  from load_names_spec [OF live_elements_consistent [OF c], of nm] show ?thesis
    by (auto simp: NameToAppMapping_load_def split: if_splits)
qed

definition case_manager :: AppManager where
  "case_manager =
     \<lparr>applications =
        [(''x.desktop'', \<lparr>ma_app = Some (sample_app ''Ab'' ''aB'' ''x'' ''/a/x.desktop''), ma_rank = 0\<rparr>)],
      name_app_mapping =
        [(''Ab'', name_element_of ''x.desktop'' Name), (''aB'', name_element_of ''x.desktop'' Generic_name)]\<rparr>"

lemma case_reachable: "reachable case_manager"
proof (rule reachable_ctor)
  show "AppManager_ctor \<lparr>env_files = [''/a/x.desktop'' \<mapsto> ''[Desktop Entry]'' @ [NL] @ ''Name=Ab'' @ [NL] @
      ''GenericName=aB'' @ [NL] @ ''Exec=x'' @ [NL]], env_suffixes = C_locale, env_desktops = []\<rparr> False
      [\<lparr>base_path = ''/a/'', rank_files = [''/a/x.desktop'']\<rparr>] = Inr case_manager"
    by code_simp
qed simp

theorem load_aborts_on_collision_witness:
  "NameToAppMapping_load case_manager (NameToAppMapping_ctor appformatter_default True False) = Inl Aborted"
proof -
  have "\<not> keys_apart (NameToAppMapping_ctor appformatter_default True False) case_manager
      (name_app_mapping case_manager)"
    by code_simp
  with load_aborts_on_collision [OF case_reachable] show ?thesis by simp
qed

text \<open>A history file that lists a shown name twice (the program never writes one, but reads any)
  makes the program abort instead of showing the menu.\<close>

theorem duplicate_history_aborts:
  assumes "sorted_wrt less_wrapper (map fst m)" "set hs \<subseteq> fst ` set m" "\<not> distinct hs"
  shows "write_names less_wrapper m hs d = Inl Aborted"
proof -
  have "write_history less_wrapper xs hs d = Inl Aborted"
    if "sorted_wrt less_wrapper xs" "\<not> distinct hs \<or> \<not> set hs \<subseteq> set xs" for xs
    using that
  proof (induction hs arbitrary: xs d)
    case (Cons h hs)
    show ?case
    proof (cases "h \<in> set xs")
      case True
      have "sorted_wrt less_wrapper (filter (\<lambda>x. x \<noteq> h) xs)"
        using Cons.prems(1) by (rule sorted_wrt_filter)
      moreover have "\<not> distinct hs \<or> \<not> set hs \<subseteq> set (filter (\<lambda>x. x \<noteq> h) xs)"
        using Cons.prems(2) True by auto
      ultimately show ?thesis
        using Cons.IH less.erase_member [OF Cons.prems(1) True] by simp
    next
      case False
      then show ?thesis by (auto simp: os_erase_def)
    qed
  qed simp
  from this [of "map fst m"] assms show ?thesis by (auto simp: write_names_def)
qed

theorem duplicate_history_aborts_witness:
  "write_names less_wrapper sample_map [''Ed'', ''Ed''] (Dmenu_ctor ''dmenu'') = Inl Aborted"
  by (rule duplicate_history_aborts) (simp_all add: sample_map_def)

end
