(* ===== verification/CMDLineTerm.thy ===== *)
theory CMDLineTerm
  imports CMDLineAssembler
begin

text \<open>
  \<open>src/CMDLineTerm.cc\<close>: running a command in a terminal emulator. What \<open>mkstemp\<close> and
  \<open>fclose\<close> answer is the argument \<open>temp_env\<close>; the script an assembler writes is part of its
  result.
\<close>

section \<open>The temporary script\<close>

record temp_env =
  te_name :: "string option"
  te_close_ok :: bool
  te_err :: string

type_synonym script = "string \<times> string"

definition printf_title :: string where
  "printf_title = ''printf '' @ [SQUOTE, BACKSLASH] @ ''033]2;%s'' @ [BACKSLASH] @ ''007'' @ [SQUOTE] @ '' ''"

definition script_text :: "string \<Rightarrow> string list \<Rightarrow> string \<Rightarrow> string" where
  "script_text scriptname commandline app_name =
     ''#!/bin/sh'' @ [NL] @
     ''rm '' @ scriptname @ [NL] @
     printf_title @ sq_quote app_name @ [NL] @
     ''exec '' @ convert_argv_to_string commandline @ [NL]"

definition create_term_emulator_temp_script ::
  "temp_env \<Rightarrow> string list \<Rightarrow> string \<Rightarrow> fault + script" where
  "create_term_emulator_temp_script env commandline app_name =
     (case te_name env of
        None \<Rightarrow> Inl (Initialization_error
          (''Coudldn't create temporary file '' @ quoted ''/tmp/j4-dmenu-XXXXXX'' @ '': '' @ te_err env))
      | Some scriptname \<Rightarrow>
          if te_close_ok env then Inr (scriptname, script_text scriptname commandline app_name)
          else Inl (Initialization_error
            (''Couldn't close temporary file '' @ quoted scriptname @ '': '' @ te_err env @
             ''; The file will not be deleted automatically'')))"

section \<open>The assemblers with fixed arguments\<close>

type_synonym term_assembler =
  "temp_env \<Rightarrow> string list \<Rightarrow> string \<Rightarrow> string \<Rightarrow> fault + string list \<times> script option"

definition default_term_assembler :: term_assembler where
  "default_term_assembler env commandline terminal_emulator app_name =
     bind_sum (create_term_emulator_temp_script env commandline app_name) (\<lambda>script.
       Inr ([terminal_emulator, ''-e'', fst script], Some script))"

definition xterm_term_assembler :: term_assembler where
  "xterm_term_assembler env commandline terminal_emulator app_name =
     Inr ([terminal_emulator, ''-title'', app_name, ''-e''] @ commandline, None)"

definition alacritty_term_assembler :: term_assembler where
  "alacritty_term_assembler env commandline terminal_emulator app_name =
     Inr ([terminal_emulator, ''-T'', app_name, ''-e''] @ commandline, None)"

definition kitty_term_assembler :: term_assembler where
  "kitty_term_assembler env commandline terminal_emulator app_name =
     Inr ([terminal_emulator, ''-T'', app_name] @ commandline, None)"

definition terminator_term_assembler :: term_assembler where
  "terminator_term_assembler env commandline terminal_emulator app_name =
     Inr ([terminal_emulator, ''-T'', app_name, ''-x''] @ commandline, None)"

definition gnome_terminal_term_assembler :: term_assembler where
  "gnome_terminal_term_assembler env commandline terminal_emulator app_name =
     Inr ([terminal_emulator, ''--title'', app_name, ''--''] @ commandline, None)"

section \<open>The custom assembler\<close>

abbreviation LBRACE :: char where "LBRACE \<equiv> CHR 0x7B"
abbreviation RBRACE :: char where "RBRACE \<equiv> CHR 0x7D"

abbreviation ph_name :: string where "ph_name \<equiv> ''{name}''"
abbreviation ph_cmdline_at :: string where "ph_cmdline_at \<equiv> ''{cmdline@}''"
abbreviation ph_cmdline_star :: string where "ph_cmdline_star \<equiv> ''{cmdline*}''"
abbreviation ph_script :: string where "ph_script \<equiv> ''{script}''"

definition term_escapable :: "char \<Rightarrow> bool" where
  "term_escapable ch \<longleftrightarrow> ch = BACKSLASH \<or> ch = LBRACE \<or> ch = SPACE"

text \<open>
  The first loop of \<open>validate_custom_term\<close>: the placeholders with their positions, the views
  from them on, and whether an unescaped space stands before them.
\<close>

fun collect_placeholders ::
  "nat \<Rightarrow> string \<Rightarrow> bool \<Rightarrow> bool \<Rightarrow> (nat \<times> string \<times> bool) list \<Rightarrow>
     fault + (nat \<times> string \<times> bool) list" where
  "collect_placeholders i [] escaped had_space acc = Inr acc"
| "collect_placeholders i (ch # cs) escaped had_space acc =
     (if escaped then
        (if term_escapable ch then collect_placeholders (i + 1) cs False False acc
         else Inl (Exited EXIT_FAILURE))
      else collect_placeholders (i + 1) cs (ch = BACKSLASH) (ch = SPACE)
             (if ch = LBRACE then acc @ [(i, ch # cs, had_space)] else acc))"

fun check_placeholders :: "(nat \<times> string \<times> bool) list \<Rightarrow> fault + unit" where
  "check_placeholders [] = Inr ()"
| "check_placeholders ((i, placeholder, had_space) # ps) =
     (if \<not> startswith placeholder ph_name \<and> \<not> startswith placeholder ph_cmdline_at \<and>
         \<not> startswith placeholder ph_cmdline_star \<and> \<not> startswith placeholder ph_script
      then Inl (Exited EXIT_FAILURE)
      else if startswith placeholder ph_cmdline_at \<and>
          ((i \<noteq> 0 \<and> \<not> had_space) \<or>
           (placeholder \<noteq> ph_cmdline_at \<and> \<not> startswith placeholder (ph_cmdline_at @ '' '')))
      then Inl (Exited EXIT_FAILURE)
      else check_placeholders ps)"

definition validate_custom_term :: "string \<Rightarrow> fault + unit" where
  "validate_custom_term term_arg =
     (if term_arg = [] then Inl (Exited EXIT_FAILURE)
      else bind_sum (collect_placeholders 0 term_arg False False []) check_placeholders)"

text \<open>\<open>parse_escaped_term\<close>: the arguments, and where in them the placeholders stand.\<close>

function parse_term_loop ::
  "string \<Rightarrow> bool \<Rightarrow> string \<Rightarrow> string list \<Rightarrow> (nat \<times> nat) list \<Rightarrow>
     fault + (nat \<times> nat) list \<times> string list" where
  "parse_term_loop [] escaped cur args phs =
     Inr (phs, if cur \<noteq> [] then args @ [cur] else args)"
| "parse_term_loop (ch # cs) True cur args phs =
     (if term_escapable ch then parse_term_loop cs False (cur @ [ch]) args phs else Inl Aborted)"
| "parse_term_loop (ch # cs) False cur args phs =
     (if ch = BACKSLASH then parse_term_loop cs True cur args phs
      else if ch = SPACE then
        (if cur \<noteq> [] then parse_term_loop cs False [] (args @ [cur]) phs
         else parse_term_loop cs False cur args phs)
      else if ch = LBRACE then
        (case find_char RBRACE cs of
           None \<Rightarrow> Inl Aborted
         | Some j \<Rightarrow>
             parse_term_loop (drop (Suc j) cs) False (cur @ ch # take (Suc j) cs) args
               (phs @ [(length args, length cur)]))
      else parse_term_loop cs False (cur @ [ch]) args phs)"
  by pat_completeness auto
termination
  by (relation "measure (\<lambda>(s, escaped, cur, args, phs). length s)") auto

definition parse_escaped_term :: "string \<Rightarrow> fault + (nat \<times> nat) list \<times> string list" where
  "parse_escaped_term to_split = parse_term_loop to_split False [] [] []"

definition replace_at :: "nat \<Rightarrow> nat \<Rightarrow> string \<Rightarrow> string \<Rightarrow> string" where
  "replace_at pos n s arg = take pos arg @ s @ drop (pos + n) arg"

text \<open>The loop over the placeholders, given in reverse; \<open>script\<close> is the script made so far.\<close>

fun expand_placeholders ::
  "temp_env \<Rightarrow> string list \<Rightarrow> string \<Rightarrow> (nat \<times> nat) list \<Rightarrow> string list \<Rightarrow> script option \<Rightarrow>
     fault + string list \<times> script option" where
  "expand_placeholders env commandline app_name [] args script = Inr (args, script)"
| "expand_placeholders env commandline app_name ((arg_pos, pos) # phs) args script =
     (let arg = args ! arg_pos; placeholder = drop pos arg in
      if startswith placeholder ph_name then
        expand_placeholders env commandline app_name phs
          (args[arg_pos := replace_at pos (length ph_name) app_name arg]) script
      else if startswith placeholder ph_cmdline_at then
        expand_placeholders env commandline app_name phs
          (take arg_pos args @ commandline @ drop (Suc arg_pos) args) script
      else if startswith placeholder ph_cmdline_star then
        expand_placeholders env commandline app_name phs
          (args[arg_pos := replace_at pos (length ph_cmdline_star)
             (convert_argv_to_string commandline) arg]) script
      else if startswith placeholder ph_script then
        bind_sum
          (case script of
             Some s \<Rightarrow> Inr s
           | None \<Rightarrow> create_term_emulator_temp_script env commandline app_name)
          (\<lambda>s. expand_placeholders env commandline app_name phs
             (args[arg_pos := replace_at pos (length ph_script) (fst s) arg]) (Some s))
      else Inl Aborted)"

definition custom_term_assembler :: term_assembler where
  "custom_term_assembler env commandline terminal_emulator app_name =
     bind_sum (parse_escaped_term terminal_emulator) (\<lambda>(placeholders, args).
       expand_placeholders env commandline app_name (rev placeholders) args None)"

end
