(* ===== verification/CMDLineTermFacts.thy ===== *)
theory CMDLineTermFacts
  imports CMDLineTerm
begin

text \<open>
  The custom terminal command line: what the check accepts the assembler can always expand,
  and the right-to-left replacement at recorded positions, with a vector of arguments that
  grows meanwhile, is the expansion of every placeholder in its place.
\<close>

section \<open>Pieces\<close>

datatype piece = Chr char | Hole string

fun piece_text :: "piece \<Rightarrow> string" where
  "piece_text (Chr c) = [c]"
| "piece_text (Hole h) = h"

definition render :: "piece list \<Rightarrow> string" where
  "render ps = concat (map piece_text ps)"

text \<open>The arguments of a custom terminal command as lists of pieces.\<close>

function term_pieces :: "string \<Rightarrow> bool \<Rightarrow> piece list \<Rightarrow> piece list list \<Rightarrow> fault + piece list list" where
  "term_pieces [] escaped cur args = Inr (if cur \<noteq> [] then args @ [cur] else args)"
| "term_pieces (ch # cs) True cur args =
     (if term_escapable ch then term_pieces cs False (cur @ [Chr ch]) args else Inl Aborted)"
| "term_pieces (ch # cs) False cur args =
     (if ch = BACKSLASH then term_pieces cs True cur args
      else if ch = SPACE then
        (if cur \<noteq> [] then term_pieces cs False [] (args @ [cur]) else term_pieces cs False cur args)
      else if ch = LBRACE then
        (case find_char RBRACE cs of
           None \<Rightarrow> Inl Aborted
         | Some j \<Rightarrow> term_pieces (drop (Suc j) cs) False (cur @ [Hole (ch # take (Suc j) cs)]) args)
      else term_pieces cs False (cur @ [Chr ch]) args)"
  by pat_completeness auto
termination
  by (relation "measure (\<lambda>(s, escaped, cur, args). length s)") auto

fun holes_at :: "nat \<Rightarrow> piece list \<Rightarrow> nat list" where
  "holes_at k [] = []"
| "holes_at k (Chr c # ps) = holes_at (k + 1) ps"
| "holes_at k (Hole h # ps) = k # holes_at (k + length h) ps"

fun positions :: "nat \<Rightarrow> piece list list \<Rightarrow> (nat \<times> nat) list" where
  "positions k [] = []"
| "positions k (a # as) = map (Pair k) (holes_at 0 a) @ positions (k + 1) as"

definition real_holes :: "piece list \<Rightarrow> bool" where
  "real_holes ps \<longleftrightarrow> Hole [] \<notin> set ps"

lemma render_simps [simp]:
  "render [] = []" "render (ps @ qs) = render ps @ render qs" "render (p # ps) = piece_text p @ render ps"
  by (simp_all add: render_def)

lemma render_eq_Nil: "real_holes ps \<Longrightarrow> render ps = [] \<longleftrightarrow> ps = []"
proof (cases ps)
  case (Cons p qs)
  then show "real_holes ps \<Longrightarrow> ?thesis" by (cases p) (auto simp: real_holes_def)
qed simp

lemma real_holes_simps [simp]:
  "real_holes []" "real_holes (ps @ [Chr c]) = real_holes ps"
  "real_holes (ps @ [Hole (c # h)]) = real_holes ps"
  by (auto simp: real_holes_def)

lemma holes_at_append: "holes_at k (ps @ qs) = holes_at k ps @ holes_at (k + length (render ps)) qs"
  by (induction k ps rule: holes_at.induct) (auto simp: add.assoc)

lemma positions_append: "positions k (as @ bs) = positions k as @ positions (k + length as) bs"
  by (induction as arbitrary: k) auto

text \<open>The parser of the code keeps the text of the pieces and the positions of the holes.\<close>

lemma parse_term_pieces:
  "real_holes cur \<Longrightarrow>
     parse_term_loop s escaped (render cur) (map render args)
         (positions 0 args @ map (Pair (length args)) (holes_at 0 cur)) =
       bind_sum (term_pieces s escaped cur args) (\<lambda>r. Inr (positions 0 r, map render r))"
proof (induction s escaped cur args rule: term_pieces.induct)
  case (1 escaped cur args)
  then show ?case by (auto simp: render_eq_Nil positions_append)
next
  case (2 ch cs cur args)
  then show ?case by (auto simp: holes_at_append)
next
  case (3 ch cs cur args)
  have flush: "cur \<noteq> [] \<Longrightarrow> positions 0 args @ map (Pair (length args)) (holes_at 0 cur) =
      positions 0 (args @ [cur]) @ map (Pair (length (args @ [cur]))) (holes_at 0 [])"
    by (simp add: positions_append)
  consider "ch = BACKSLASH" | "ch = SPACE" | "ch = LBRACE" | "ch \<notin> {BACKSLASH, SPACE, LBRACE}" by blast
  then show ?case
  proof cases
    case 1
    with 3 show ?thesis by simp
  next
    case 2
    then show ?thesis
    proof (cases "cur = []")
      case True
      with 2 3 show ?thesis by simp
    next
      case False
      with 2 "3.IH"(2) flush "3.prems" show ?thesis by (simp add: render_eq_Nil)
    qed
  next
    case 3
    then show ?thesis
    proof (cases "find_char RBRACE cs")
      case (Some j)
      then show ?thesis
        using 3 "3.IH"(4) [OF _ _ 3 Some] "3.prems"
        by (simp add: holes_at_append)
    qed (simp add: 3)
  next
    case 4
    with "3.IH"(5) "3.prems" show ?thesis by (simp add: holes_at_append)
  qed
qed

lemma parse_escaped_term_pieces:
  "parse_escaped_term s =
     bind_sum (term_pieces s False [] []) (\<lambda>r. Inr (positions 0 r, map render r))"
  using parse_term_pieces [of "[]" s False "[]"] by (simp add: parse_escaped_term_def)

section \<open>Expansion\<close>

definition known_hole :: "string \<Rightarrow> bool" where
  "known_hole h \<longleftrightarrow> h \<in> {ph_name, ph_cmdline_at, ph_cmdline_star, ph_script}"

definition inline_hole :: "piece \<Rightarrow> bool" where
  "inline_hole p \<longleftrightarrow> (case p of Chr _ \<Rightarrow> True | Hole h \<Rightarrow> h \<in> {ph_name, ph_cmdline_star, ph_script})"

text \<open>Every argument is the placeholder for the command line, or has other placeholders only.\<close>

definition good_arg :: "piece list \<Rightarrow> bool" where
  "good_arg a \<longleftrightarrow> a = [Hole ph_cmdline_at] \<or> (\<forall>p \<in> set a. inline_hole p)"

fun expand_piece :: "string list \<Rightarrow> string \<Rightarrow> string \<Rightarrow> piece \<Rightarrow> string" where
  "expand_piece commandline app_name script_name (Chr c) = [c]"
| "expand_piece commandline app_name script_name (Hole h) =
     (if h = ph_name then app_name
      else if h = ph_cmdline_star then convert_argv_to_string commandline
      else script_name)"

definition expand_arg_pieces :: "string list \<Rightarrow> string \<Rightarrow> string \<Rightarrow> piece list \<Rightarrow> string list" where
  "expand_arg_pieces commandline app_name script_name a =
     (if a = [Hole ph_cmdline_at] then commandline
      else [concat (map (expand_piece commandline app_name script_name) a)])"

definition uses_script :: "piece list list \<Rightarrow> bool" where
  "uses_script as \<longleftrightarrow> (\<exists>a \<in> set as. Hole ph_script \<in> set a)"

text \<open>The script a run ends with, given the one it starts with.\<close>

definition script_after :: "script \<Rightarrow> bool \<Rightarrow> script option \<Rightarrow> script option" where
  "script_after s used sc = (if used then Some s else sc)"

lemma replace_at_tail: "replace_at (length a) (length h) x (a @ h @ t) = a @ x @ t"
  by (simp add: replace_at_def)

lemma expand_one_inline:
  assumes mk: "create_term_emulator_temp_script env cmd app = Inr s"
    and h: "h \<in> {ph_name, ph_cmdline_star, ph_script}" and sc: "sc = None \<or> sc = Some s"
  shows "expand_placeholders env cmd app ((length pre, length a) # phs) (pre @ [a @ h @ t] @ post) sc =
    expand_placeholders env cmd app phs (pre @ [a @ expand_piece cmd app (fst s) (Hole h) @ t] @ post)
      (script_after s (h = ph_script) sc)"
proof -
  have nth: "(pre @ [x] @ post) ! length pre = x" for x by simp
  have upd: "(pre @ [x] @ post)[length pre := y] = pre @ [y] @ post" for x y by simp
  have sw: "drop (length a) (a @ h @ t) = h @ t" by simp
  have mk': "(case sc of None \<Rightarrow> create_term_emulator_temp_script env cmd app | Some s \<Rightarrow> Inr s) = Inr s"
    using mk sc by auto
  consider "h = ph_name" | "h = ph_cmdline_star" | "h = ph_script" using h by blast
  then show ?thesis
  proof cases
    case 1
    then show ?thesis
      by (simp only: expand_placeholders.simps Let_def nth upd sw replace_at_tail)
        (simp add: script_after_def replace_at_def)
  next
    case 2
    then show ?thesis
      by (simp only: expand_placeholders.simps Let_def nth upd sw replace_at_tail)
        (simp add: script_after_def replace_at_def)
  next
    case 3
    then show ?thesis
      by (simp only: expand_placeholders.simps Let_def nth upd sw replace_at_tail mk')
        (simp add: script_after_def replace_at_def)
  qed
qed

lemma expand_inline:
  assumes mk: "create_term_emulator_temp_script env cmd app = Inr s"
  shows "\<forall>p \<in> set ps. inline_hole p \<Longrightarrow> sc = None \<or> sc = Some s \<Longrightarrow>
    expand_placeholders env cmd app (rev (map (Pair (length pre)) (holes_at 0 ps)) @ phs)
        (pre @ [render ps @ t] @ post) sc =
      expand_placeholders env cmd app phs
        (pre @ [concat (map (expand_piece cmd app (fst s)) ps) @ t] @ post)
        (script_after s (Hole ph_script \<in> set ps) sc)"
proof (induction ps arbitrary: t sc rule: rev_induct)
  case Nil
  then show ?case by (simp add: script_after_def)
next
  case (snoc p ps)
  show ?case
  proof (cases p)
    case (Chr c)
    with snoc.prems snoc.IH [of sc "c # t"] show ?thesis by (simp add: holes_at_append)
  next
    case (Hole h)
    have h: "h \<in> {ph_name, ph_cmdline_star, ph_script}" using snoc.prems(1) Hole by (simp add: inline_hole_def)
    let ?x = "expand_piece cmd app (fst s) (Hole h)"
    let ?sc = "script_after s (h = ph_script) sc"
    have "expand_placeholders env cmd app (rev (map (Pair (length pre)) (holes_at 0 (ps @ [p]))) @ phs)
        (pre @ [render (ps @ [p]) @ t] @ post) sc =
      expand_placeholders env cmd app (rev (map (Pair (length pre)) (holes_at 0 ps)) @ phs)
        (pre @ [render ps @ ?x @ t] @ post) ?sc"
      using expand_one_inline [OF mk h snoc.prems(2), of pre "render ps" _ t post] Hole
      by (simp add: holes_at_append del: expand_placeholders.simps expand_piece.simps)
    also have "\<dots> = expand_placeholders env cmd app phs
        (pre @ [concat (map (expand_piece cmd app (fst s)) ps) @ ?x @ t] @ post)
        (script_after s (Hole ph_script \<in> set ps) ?sc)"
      using snoc.prems by (intro snoc.IH) (auto simp: script_after_def)
    also have "script_after s (Hole ph_script \<in> set ps) ?sc = script_after s (Hole ph_script \<in> set (ps @ [p])) sc"
      using Hole by (auto simp: script_after_def)
    finally show ?thesis using Hole by (simp del: expand_piece.simps)
  qed
qed

lemma expand_good_arg:
  assumes mk: "create_term_emulator_temp_script env cmd app = Inr s"
    and a: "good_arg a" and sc: "sc = None \<or> sc = Some s"
  shows "expand_placeholders env cmd app (rev (map (Pair (length pre)) (holes_at 0 a)) @ phs)
      (pre @ [render a] @ post) sc =
    expand_placeholders env cmd app phs (pre @ expand_arg_pieces cmd app (fst s) a @ post)
      (script_after s (Hole ph_script \<in> set a) sc)"
proof (cases "a = [Hole ph_cmdline_at]")
  case True
  then show ?thesis by (simp add: Let_def expand_arg_pieces_def nth_append script_after_def)
next
  case False
  with a have "\<forall>p \<in> set a. inline_hole p" by (simp add: good_arg_def)
  from expand_inline [OF mk this sc, of pre phs "[]" post] False show ?thesis
    by (simp add: expand_arg_pieces_def)
qed

lemma expand_good_args:
  assumes mk: "create_term_emulator_temp_script env cmd app = Inr s"
  shows "\<forall>a \<in> set as. good_arg a \<Longrightarrow> sc = None \<or> sc = Some s \<Longrightarrow>
    expand_placeholders env cmd app (rev (positions 0 as)) (map render as @ post) sc =
      Inr (concat (map (expand_arg_pieces cmd app (fst s)) as) @ post, script_after s (uses_script as) sc)"
proof (induction as arbitrary: post sc rule: rev_induct)
  case Nil
  then show ?case by (simp add: script_after_def uses_script_def)
next
  case (snoc a as)
  let ?sc = "script_after s (Hole ph_script \<in> set a) sc"
  have "expand_placeholders env cmd app (rev (positions 0 (as @ [a]))) (map render (as @ [a]) @ post) sc =
      expand_placeholders env cmd app (rev (positions 0 as))
        (map render as @ expand_arg_pieces cmd app (fst s) a @ post) ?sc"
    using expand_good_arg [OF mk, of a sc "map render as" "rev (positions 0 as)" post] snoc.prems
    by (simp add: positions_append)
  also have "\<dots> = Inr (concat (map (expand_arg_pieces cmd app (fst s)) as) @
      expand_arg_pieces cmd app (fst s) a @ post, script_after s (uses_script as) ?sc)"
    using snoc.prems by (intro snoc.IH) (auto simp: script_after_def)
  finally show ?case by (auto simp: script_after_def uses_script_def)
qed

section \<open>What the check guarantees\<close>

definition valid_term :: "nat \<Rightarrow> string \<Rightarrow> bool \<Rightarrow> bool \<Rightarrow> bool" where
  "valid_term i s escaped had_space \<longleftrightarrow>
     bind_sum (collect_placeholders i s escaped had_space []) check_placeholders = Inr ()"

lemma collect_placeholders_acc:
  "collect_placeholders i s escaped hs acc =
     bind_sum (collect_placeholders i s escaped hs []) (\<lambda>r. Inr (acc @ r))"
proof (induction s arbitrary: i escaped hs acc)
  case (Cons ch cs)
  show ?case
    using Cons [of "i + 1" "ch = BACKSLASH" "ch = SPACE" "acc @ [(i, ch # cs, hs)]"]
      Cons [of "i + 1" "ch = BACKSLASH" "ch = SPACE" "[(i, ch # cs, hs)]"]
      Cons [of "i + 1" "ch = BACKSLASH" "ch = SPACE" acc] Cons [of "i + 1" False False acc]
    by (auto simp: bind_sum_assoc)
qed simp

lemma check_placeholders_Cons:
  "check_placeholders (p # ps) = bind_sum (check_placeholders [p]) (\<lambda>_. check_placeholders ps)"
  by (cases p) (auto simp only: check_placeholders.simps bind_sum_simps split: if_splits)

lemma valid_term_escaped:
  "valid_term i (ch # cs) True hs \<longleftrightarrow> term_escapable ch \<and> valid_term (i + 1) cs False False"
  by (simp add: valid_term_def)

lemma valid_term_plain:
  assumes "valid_term i (ch # cs) False hs"
  shows "valid_term (i + 1) cs (ch = BACKSLASH) (ch = SPACE)"
    and "ch = LBRACE \<Longrightarrow> check_placeholders [(i, ch # cs, hs)] = Inr ()"
proof -
  let ?r = "collect_placeholders (i + 1) cs (ch = BACKSLASH) (ch = SPACE) []"
  have c: "collect_placeholders i (ch # cs) False hs [] =
      bind_sum ?r (\<lambda>r. Inr ((if ch = LBRACE then [(i, ch # cs, hs)] else []) @ r))"
    using collect_placeholders_acc [of "i + 1" cs "ch = BACKSLASH" "ch = SPACE" "[(i, ch # cs, hs)]"]
    by (cases ?r) auto
  from assms obtain r where r: "?r = Inr r"
    "check_placeholders ((if ch = LBRACE then [(i, ch # cs, hs)] else []) @ r) = Inr ()"
    unfolding valid_term_def c by auto
  have split: "check_placeholders [(i, ch # cs, hs)] = Inr () \<and> check_placeholders r = Inr ()"
    if "ch = LBRACE"
  proof -
    have "bind_sum (check_placeholders [(i, ch # cs, hs)]) (\<lambda>_. check_placeholders r) = Inr ()"
      using r(2) unfolding if_P [OF that] append_Cons append_Nil check_placeholders_Cons [of "(i, ch # cs, hs)" r] .
    then show ?thesis unfolding bind_sum_eq_Inr by auto
  qed
  then show "ch = LBRACE \<Longrightarrow> check_placeholders [(i, ch # cs, hs)] = Inr ()" by blast
  have "check_placeholders r = Inr ()"
    using split r(2) by (cases "ch = LBRACE") (simp_all del: check_placeholders.simps(2))
  with r(1) show "valid_term (i + 1) cs (ch = BACKSLASH) (ch = SPACE)" by (simp add: valid_term_def)
qed

lemma valid_term_skip:
  "valid_term i (x @ r) False hs \<Longrightarrow> BACKSLASH \<notin> set x \<Longrightarrow>
     valid_term (i + length x) r False (if x = [] then hs else last x = SPACE)"
proof (induction x arbitrary: i hs)
  case (Cons c x)
  have "c \<noteq> BACKSLASH" using Cons.prems(2) by auto
  with valid_term_plain(1) [of i c "x @ r" hs] Cons.prems(1)
  have "valid_term (i + 1) (x @ r) False (c = SPACE)" by simp
  from Cons.IH [OF this] Cons.prems(2) show ?case by (auto split: if_splits)
qed simp

lemma checked_placeholder:
  assumes "check_placeholders [(i, p, hs)] = Inr ()"
  obtains h r where "known_hole h" "p = h @ r"
    "h = ph_cmdline_at \<longrightarrow> (i = 0 \<or> hs) \<and> (r = [] \<or> (\<exists>r'. r = SPACE # r'))"
proof -
  have k: "prefix ph_name p \<or> prefix ph_cmdline_at p \<or> prefix ph_cmdline_star p \<or> prefix ph_script p"
    and at: "prefix ph_cmdline_at p \<longrightarrow>
      (i = 0 \<or> hs) \<and> (p = ph_cmdline_at \<or> prefix (ph_cmdline_at @ '' '') p)"
    using assms by (auto split: if_splits)
  show thesis
  proof (cases "prefix ph_cmdline_at p")
    case True
    with at have "p = ph_cmdline_at @ [] \<or> (\<exists>r'. p = ph_cmdline_at @ SPACE # r')" "i = 0 \<or> hs"
      by (auto simp: prefix_def)
    then show thesis using that [of ph_cmdline_at] by (auto simp: known_hole_def)
  next
    case False
    with k show thesis using that [of ph_name] that [of ph_cmdline_star] that [of ph_script]
      by (auto simp: known_hole_def prefix_def)
  qed
qed

lemma known_hole_shape:
  assumes "known_hole h"
  obtains t where "h = LBRACE # t @ [RBRACE]" "RBRACE \<notin> set t" "BACKSLASH \<notin> set h" "last h \<noteq> SPACE"
  using assms that [of "butlast (tl h)"] unfolding known_hole_def by auto

lemma term_pieces_hole:
  assumes "known_hole h"
  shows "term_pieces (h @ r) False cur args = term_pieces r False (cur @ [Hole h]) args"
proof -
  obtain t where t: "h = LBRACE # t @ [RBRACE]" "RBRACE \<notin> set t" using assms by (rule known_hole_shape)
  then have "find_char RBRACE (t @ RBRACE # r) = Some (length t)" by simp
  then show ?thesis using t(1) by simp
qed

lemma valid_term_pieces:
  "valid_term i s escaped hs \<Longrightarrow> \<forall>a \<in> set args. good_arg a \<Longrightarrow> \<forall>p \<in> set cur. inline_hole p \<Longrightarrow>
     (\<not> escaped \<longrightarrow> hs \<or> i = 0 \<longrightarrow> cur = []) \<Longrightarrow>
     \<exists>as. term_pieces s escaped cur args = Inr as \<and> (\<forall>a \<in> set as. good_arg a)"
proof (induction s arbitrary: i escaped hs cur args rule: length_induct)
  case (1 s)
  note IH = "1.IH" [rule_format]
  have gc: "good_arg cur" using "1.prems"(3) by (simp add: good_arg_def)
  show ?case
  proof (cases s)
    case Nil
    with "1.prems"(2) gc show ?thesis by auto
  next
    case (Cons ch cs)
    note v = "1.prems"(1) [unfolded Cons]
    show ?thesis
    proof (cases escaped)
      case True
      have "\<forall>p \<in> set (cur @ [Chr ch]). inline_hole p" using "1.prems"(3) by (simp add: inline_hole_def)
      with IH [of cs "i + 1" False False args "cur @ [Chr ch]"] v True Cons "1.prems"(2)
      show ?thesis by (simp add: valid_term_escaped)
    next
      case ne: False
      note v' = v [unfolded ne [THEN eq_False [THEN iffD2]]]
      note v1 = valid_term_plain [OF v']
      consider "ch = BACKSLASH" | "ch = SPACE" | "ch = LBRACE" | "ch \<notin> {BACKSLASH, SPACE, LBRACE}" by blast
      then show ?thesis
      proof cases
        case 1
        with IH [of cs "i + 1" True False args cur] v1(1) Cons ne "1.prems"(2,3) show ?thesis by simp
      next
        case 2
        have "\<forall>a \<in> set (args @ [cur]). good_arg a" using gc "1.prems"(2) by simp
        with 2 IH [of cs "i + 1" False True "args @ [cur]" "[]"] IH [of cs "i + 1" False True args "[]"]
          v1(1) Cons ne "1.prems"(2) show ?thesis by simp
      next
        case 3
        from checked_placeholder [OF v1(2) [OF 3]] obtain h r where h: "known_hole h" "ch # cs = h @ r"
          "h = ph_cmdline_at \<longrightarrow> (i = 0 \<or> hs) \<and> (r = [] \<or> (\<exists>r'. r = SPACE # r'))" .
        obtain t where t: "h = LBRACE # t @ [RBRACE]" "BACKSLASH \<notin> set h" "last h \<noteq> SPACE"
          using h(1) by (rule known_hole_shape)
        have vr: "valid_term (i + length h) r False False"
          using valid_term_skip [of i h r hs] v' h(2) t by simp
        have len: "length r < length s" using Cons h(2) t(1) by simp
        have step: "term_pieces s escaped cur args = term_pieces r False (cur @ [Hole h]) args"
          using term_pieces_hole [OF h(1), of r cur args] Cons h(2) ne by simp
        show ?thesis
        proof (cases "h = ph_cmdline_at")
          case False
          then have "\<forall>p \<in> set (cur @ [Hole h]). inline_hole p"
            using "1.prems"(3) h(1) by (auto simp: inline_hole_def known_hole_def)
          with IH [OF len vr, of args "cur @ [Hole h]"] "1.prems"(2) t(1) step show ?thesis by simp
        next
          case True
          with h(3) "1.prems"(4) ne have cur: "cur = []" by blast
          have ga: "\<forall>a \<in> set (args @ [[Hole ph_cmdline_at]]). good_arg a"
            using "1.prems"(2) by (simp add: good_arg_def)
          from h(3) True consider "r = []" | r' where "r = SPACE # r'" by blast
          then show ?thesis
          proof cases
            case 1
            with step cur True ga show ?thesis by simp
          next
            case 2
            have "valid_term (i + length h + 1) r' False True"
              using valid_term_plain(1) [of "i + length h" SPACE r' False] vr 2 by simp
            with IH [of r' _ False True "args @ [[Hole ph_cmdline_at]]" "[]"] len 2 ga step cur True
            show ?thesis by simp
          qed
        qed
      next
        case 4
        have "\<forall>p \<in> set (cur @ [Chr ch]). inline_hole p" using "1.prems"(3) by (simp add: inline_hole_def)
        with 4 IH [of cs "i + 1" False False args "cur @ [Chr ch]"] v1(1) Cons ne "1.prems"(2)
        show ?thesis by simp
      qed
    qed
  qed
qed

section \<open>Properties\<close>

text \<open>C27: a custom terminal command the check accepts never makes the assembler abort; the result is
  the command's arguments with every placeholder replaced in its place, \<open>{cmdline@}\<close> by the words
  of the command line and \<open>{script}\<close> by the name of one script that runs it, however many times it
  occurs.\<close>

theorem custom_term_expansion:
  assumes "validate_custom_term term_arg = Inr ()"
    and "create_term_emulator_temp_script env commandline app_name = Inr s"
  shows "\<exists>as. term_pieces term_arg False [] [] = Inr as \<and>
    custom_term_assembler env commandline term_arg app_name =
      Inr (concat (map (expand_arg_pieces commandline app_name (fst s)) as),
           if uses_script as then Some s else None)"
proof -
  have "valid_term 0 term_arg False False"
    using assms(1) by (simp add: valid_term_def validate_custom_term_def split: if_splits)
  from valid_term_pieces [OF this, of "[]" "[]"] obtain as where
    "term_pieces term_arg False [] [] = Inr as" "\<forall>a \<in> set as. good_arg a" by auto
  with expand_good_args [OF assms(2) this(2), of None "[]"] show ?thesis
    by (simp add: custom_term_assembler_def parse_escaped_term_pieces script_after_def)
qed

definition sample_temp :: temp_env where
  "sample_temp = \<lparr>te_name = Some ''/tmp/j4-dmenu-abcdef'', te_close_ok = True, te_err = []\<rparr>"

theorem custom_term_expansion_witness:
  "custom_term_assembler sample_temp [''top'', ''-d 1''] ''st -t x{name} {cmdline@} {script}'' ''Top'' =
     Inr ([''st'', ''-t'', ''xTop'', ''top'', ''-d 1'', ''/tmp/j4-dmenu-abcdef''],
          Some (''/tmp/j4-dmenu-abcdef'', script_text ''/tmp/j4-dmenu-abcdef'' [''top'', ''-d 1''] ''Top''))"
proof -
  let ?t = "''st -t x{name} {cmdline@} {script}''"
  have v: "validate_custom_term ?t = Inr ()" by code_simp
  have m: "create_term_emulator_temp_script sample_temp [''top'', ''-d 1''] ''Top'' =
      Inr (''/tmp/j4-dmenu-abcdef'', script_text ''/tmp/j4-dmenu-abcdef'' [''top'', ''-d 1''] ''Top'')"
    by (simp add: create_term_emulator_temp_script_def sample_temp_def)
  have p: "term_pieces ?t False [] [] = Inr [[Chr (CHR ''s''), Chr (CHR ''t'')], [Chr (CHR ''-''), Chr (CHR ''t'')],
      [Chr (CHR ''x''), Hole ph_name], [Hole ph_cmdline_at], [Hole ph_script]]"
    by code_simp
  from custom_term_expansion [OF v m] p show ?thesis
    by (simp add: expand_arg_pieces_def uses_script_def)
qed

text \<open>The terminals that take the words of the command as arguments of their own.\<close>

locale direct_terminal =
  fixes assembler :: term_assembler and flags :: "string \<Rightarrow> string list"
  assumes assembled: "assembler env commandline terminal app_name =
    Inr (terminal # flags app_name @ commandline, None)"
begin

lemma command_kept:
  "assembler env commandline terminal app_name = Inr (argv, sc) \<Longrightarrow>
     sc = None \<and> suffix commandline argv \<and> argv \<noteq> commandline"
  by (auto simp: assembled suffix_def)

lemma shell_words:
  "assembler env commandline terminal app_name = Inr (argv, sc) \<Longrightarrow>
     sh_words (convert_argv_to_string argv) = Some (terminal # flags app_name @ commandline)"
  by (auto simp: assembled convert_argv_words)

end

interpretation xterm: direct_terminal xterm_term_assembler "\<lambda>n. [''-title'', n, ''-e'']"
  by unfold_locales (simp add: xterm_term_assembler_def)

interpretation alacritty: direct_terminal alacritty_term_assembler "\<lambda>n. [''-T'', n, ''-e'']"
  by unfold_locales (simp add: alacritty_term_assembler_def)

interpretation kitty: direct_terminal kitty_term_assembler "\<lambda>n. [''-T'', n]"
  by unfold_locales (simp add: kitty_term_assembler_def)

interpretation terminator: direct_terminal terminator_term_assembler "\<lambda>n. [''-T'', n, ''-x'']"
  by unfold_locales (simp add: terminator_term_assembler_def)

interpretation gnome_terminal: direct_terminal gnome_terminal_term_assembler "\<lambda>n. [''--title'', n, ''--'']"
  by unfold_locales (simp add: gnome_terminal_term_assembler_def)

lemma sh_words_exec:
  "sh_words (''exec '' @ convert_argv_to_string commandline) = Some (''exec'' # commandline)"
  by (simp add: sh_words_def sh_plain_def convert_argv_scan)

text \<open>The script behind the \<open>-e\<close> of the default mode removes itself, sets the window title to the
  application's name and runs exactly the words of the command line, whatever bytes they hold.\<close>

theorem default_terminal_script:
  assumes "default_term_assembler env commandline terminal app_name = Inr (argv, sc)"
  shows "\<exists>name title. argv = [terminal, ''-e'', name] \<and>
    sc = Some (name, ''#!/bin/sh'' @ [NL] @ ''rm '' @ name @ [NL] @ title @ [NL] @
      (''exec '' @ convert_argv_to_string commandline) @ [NL]) \<and>
    sh_words title = Some [''printf'', [BACKSLASH] @ ''033]2;%s'' @ [BACKSLASH] @ ''007'', app_name] \<and>
    sh_words (''exec '' @ convert_argv_to_string commandline) = Some (''exec'' # commandline)"
proof -
  from assms obtain name where "argv = [terminal, ''-e'', name]"
    "sc = Some (name, script_text name commandline app_name)"
    by (auto simp: default_term_assembler_def create_term_emulator_temp_script_def
        split: option.splits if_splits)
  moreover have "sh_words (printf_title @ sq_quote app_name) =
      Some [''printf'', [BACKSLASH] @ ''033]2;%s'' @ [BACKSLASH] @ ''007'', app_name]"
    using sh_words_sq_quote [of app_name "[]"]
    by (simp add: sh_words_def printf_title_def sh_plain_def)
  ultimately show ?thesis using sh_words_exec by (auto simp: script_text_def)
qed

theorem default_terminal_script_witness:
  "\<exists>argv script. default_term_assembler sample_temp [''a b''] ''xterm'' ''N'' = Inr (argv, Some script) \<and>
     (\<exists>name. argv = [''xterm'', ''-e'', name])"
proof -
  obtain argv sc where r: "default_term_assembler sample_temp [''a b''] ''xterm'' ''N'' = Inr (argv, sc)"
    by (simp add: default_term_assembler_def create_term_emulator_temp_script_def sample_temp_def)
  from default_terminal_script [OF r] r show ?thesis by auto
qed

end
