(* ===== verification/I3Exec.thy ===== *)
theory I3Exec
  imports Dmenu "HOL-Library.Word"
begin

text \<open>
  \<open>src/I3Exec.cc\<close>: sending a command to i3 over its IPC socket and reading the reply. What the
  other side sends back for the bytes it gets is a function; the byte order is little endian.
\<close>

section \<open>The socket path\<close>

text \<open>\<open>get_ipc_socket_path\<close> from the exit status and the output of \<open>i3 --get-socketpath\<close>.\<close>

definition get_ipc_socket_path :: "wait_status \<times> string \<Rightarrow> fault + string" where
  "get_ipc_socket_path child =
     (case child of
        (Wsignaled, _) \<Rightarrow> Inl (Exited EXIT_FAILURE)
      | (Wexited status, result) \<Rightarrow>
          if status \<noteq> 0 then Inl (Exited EXIT_FAILURE)
          else if result = [] then Inl (Exited EXIT_FAILURE)
          else if last result \<noteq> NL then Inl (Exited EXIT_FAILURE)
          else Inr (butlast result))"

section \<open>The poor man's JSON parser\<close>

datatype json_result = JSONError | JSON_string string | JSON_abort

text \<open>What a character after a backslash stands for; an unknown one is dropped.\<close>

definition json_unescape :: "char \<Rightarrow> string" where
  "json_unescape ch =
     (if ch = DQUOTE then [DQUOTE]
      else if ch = BACKSLASH then [BACKSLASH]
      else if ch = CHR ''/'' then ''/''
      else if ch = CHR ''b'' then [CHR 0x08]
      else if ch = CHR ''f'' then [CHR 0x0C]
      else if ch = CHR ''n'' then [NL]
      else if ch = CHR ''r'' then [CR]
      else if ch = CHR ''t'' then [TAB]
      else [])"

fun read_JSON_loop :: "string \<Rightarrow> bool \<Rightarrow> string \<Rightarrow> json_result" where
  "read_JSON_loop [] escaping result = JSONError"
| "read_JSON_loop (ch # cs) escaping result =
     (if escaping then
        (if ch = CHR ''u'' then JSONError
         else read_JSON_loop cs False (result @ json_unescape ch))
      else if ch = BACKSLASH then read_JSON_loop cs True result
      else if ch = DQUOTE then JSON_string result
      else read_JSON_loop cs False (result @ [ch]))"

definition read_JSON_string :: "string \<Rightarrow> json_result" where
  "read_JSON_string s = (if s = [] then JSON_abort else read_JSON_loop s False [])"

fun trim_loop :: "string \<Rightarrow> bool \<Rightarrow> bool \<Rightarrow> string \<Rightarrow> string" where
  "trim_loop [] is_in_quotes is_escaped result = result"
| "trim_loop (ch # cs) is_in_quotes is_escaped result =
     (if is_in_quotes then
        (if is_escaped then trim_loop cs True False (result @ [ch])
         else trim_loop cs (ch \<noteq> DQUOTE) (ch = BACKSLASH) (result @ [ch]))
      else if ch = SPACE then trim_loop cs False is_escaped result
      else trim_loop cs (ch = DQUOTE) is_escaped (result @ [ch]))"

definition trim_spaces :: "string \<Rightarrow> string" where
  "trim_spaces orig = trim_loop orig False False []"

section \<open>The message\<close>

fun nat_bytes :: "nat \<Rightarrow> nat \<Rightarrow> string" where
  "nat_bytes 0 n = []"
| "nat_bytes (Suc k) n = char_of (n mod 256) # nat_bytes k (n div 256)"

fun bytes_nat :: "string \<Rightarrow> nat" where
  "bytes_nat [] = 0"
| "bytes_nat (c # cs) = chr_val c + 256 * bytes_nat cs"

definition le32 :: "32 word \<Rightarrow> string" where
  "le32 w = nat_bytes 4 (unat w)"

definition of_le32 :: "string \<Rightarrow> 32 word" where
  "of_le32 s = word_of_nat (bytes_nat (take 4 s))"

definition message_base_header_length :: nat where
  "message_base_header_length = length ''i3-ipc'' + 4 * 2"

definition message_base_command_length :: nat where
  "message_base_command_length = length ''exec ''"

definition max_message_length :: nat where
  "max_message_length = 2 ^ 32 - 1 - message_base_command_length"

definition sun_path_size :: nat where "sun_path_size = 108"

text \<open>
  The payload. Its size is computed in 32 bits; where the sum wraps, the copies run past the
  end of the buffer.
\<close>

definition payload_size :: "string \<Rightarrow> 32 word" where
  "payload_size command =
     word_of_nat message_base_header_length +
     word_of_nat (length command + message_base_command_length)"

definition i3_payload :: "string \<Rightarrow> fault + string" where
  "i3_payload command =
     (let command_size = word_of_nat (length command + message_base_command_length) :: 32 word;
          contents = ''i3-ipc'' @ le32 command_size @ replicate 4 NUL @ ''exec '' @ command
      in if length contents \<noteq> unat (payload_size command) then Inl Undefined else Inr contents)"

section \<open>exec\<close>

text \<open>
  The reply: \<open>readn\<close> fills as much as comes before the end of the stream, and the code only
  tests for errors. A length that was not read is an uninitialised variable.
\<close>

definition read_reply :: "string \<Rightarrow> fault + string" where
  "read_reply stream =
     (let after_magic = drop 6 stream in
      if length after_magic < 4 then Inl Undefined
      else
        let message_length = unat (of_le32 (take 4 after_magic));
            body = take message_length (drop 8 after_magic)
        in Inr (body @ replicate (message_length - length body) NUL))"

definition success_false :: string where
  "success_false = [DQUOTE] @ ''success'' @ [DQUOTE] @ '':false''"

definition success_true :: string where
  "success_true = [DQUOTE] @ ''success'' @ [DQUOTE] @ '':true''"

definition error_key :: string where
  "error_key = [DQUOTE] @ ''error'' @ [DQUOTE] @ '':''"

text \<open>
  What \<open>SPDLOG_ERROR\<close> reports besides how \<open>exec\<close> ends: the text i3 sent, or one of the fixed
  messages.
\<close>

datatype i3_report =
    No_report
  | I3_error string
  | Invalid_response
  | Unknown_error
  | Parsing_error
  | Command_too_long
  | Socket_path_too_long
  | No_connection

type_synonym i3_outcome = "i3_report \<times> (fault + unit)"

definition handle_reply :: "string \<Rightarrow> i3_outcome" where
  "handle_reply response =
     (let trimmed_response = trim_spaces response in
      if find_str success_false trimmed_response \<noteq> None then
        (case find_str error_key trimmed_response of
           Some where_ \<Rightarrow>
             if where_ + 9 > length trimmed_response then (No_report, Inl Undefined)
             else (case read_JSON_string (drop (where_ + 9) trimmed_response) of
                     JSON_abort \<Rightarrow> (No_report, Inl Aborted)
                   | JSON_string error \<Rightarrow> (I3_error error, Inl (Exited EXIT_FAILURE))
                   | JSONError \<Rightarrow> (Invalid_response, Inl (Exited EXIT_FAILURE)))
         | None \<Rightarrow> (Unknown_error, Inl (Exited EXIT_FAILURE)))
      else if find_str success_true trimmed_response \<noteq> None then (No_report, Inr ())
      else (Parsing_error, Inl Aborted))"

definition I3_exec :: "(string \<Rightarrow> string) \<Rightarrow> bool \<Rightarrow> string \<Rightarrow> string \<Rightarrow> i3_outcome" where
  "I3_exec i3 connected command socket_path =
     (if length command > max_message_length then (Command_too_long, Inl (Exited EXIT_FAILURE))
      else if length socket_path \<ge> sun_path_size then
        (Socket_path_too_long, Inl (Exited EXIT_FAILURE))
      else if \<not> connected then (No_connection, Inl (Exited EXIT_FAILURE))
      else
        case bind_sum (i3_payload command) (\<lambda>payload. read_reply (i3 payload)) of
          Inl e \<Rightarrow> (No_report, Inl e)
        | Inr response \<Rightarrow> handle_reply response)"

section \<open>Framing\<close>

lemma length_nat_bytes [simp]: "length (nat_bytes k n) = k"
  by (induction k arbitrary: n) auto

lemma bytes_nat_nat_bytes: "bytes_nat (nat_bytes k n) = n mod 256 ^ k"
proof (induction k arbitrary: n)
  case (Suc k)
  then show ?case by (simp add: mod_mult2_eq)
qed simp

lemma nat_bytes_0: "nat_bytes k 0 = replicate k NUL"
  by (induction k) (auto simp: char_of_def)

lemma length_le32 [simp]: "length (le32 w) = 4"
  by (simp add: le32_def)

lemma of_le32_le32 [simp]: "of_le32 (le32 w) = w"
proof -
  have "unat w < 2 ^ LENGTH(32)" by (rule unsigned_less)
  then have "unat w mod 256 ^ 4 = unat w" by simp
  then show ?thesis by (simp add: of_le32_def le32_def bytes_nat_nat_bytes)
qed

lemma le32_0: "le32 0 = replicate 4 NUL"
  by (simp add: le32_def nat_bytes_0)

text \<open>
  A message of the protocol as the other side takes it apart: the magic string, the length of the
  body, the type, the body.
\<close>

definition i3_message :: "32 word \<Rightarrow> string \<Rightarrow> string" where
  "i3_message message_type body =
     ''i3-ipc'' @ le32 (word_of_nat (length body)) @ le32 message_type @ body"

definition i3_decode :: "string \<Rightarrow> (32 word \<times> string) option" where
  "i3_decode s =
     (if take 6 s = ''i3-ipc'' \<and> length s \<ge> 14 \<and>
         length s = 14 + unat (of_le32 (take 4 (drop 6 s)))
      then Some (of_le32 (take 4 (drop 10 s)), drop 14 s) else None)"

lemma i3_decode_message:
  assumes "length body < 2 ^ 32"
  shows "i3_decode (i3_message t body) = Some (t, body)"
proof -
  have "unat (word_of_nat (length body) :: 32 word) = length body"
    using assms by (simp add: unat_of_nat)
  then show ?thesis by (simp add: i3_decode_def i3_message_def)
qed

lemma payload_size_cases:
  assumes "length command \<le> max_message_length"
  shows "unat (payload_size command) =
    (if length command + 19 < 2 ^ 32 then length command + 19 else length command + 19 - 2 ^ 32)"
proof -
  have "payload_size command = word_of_nat (length command + 19)"
    by (simp add: payload_size_def message_base_header_length_def message_base_command_length_def)
  then have "unat (payload_size command) = (length command + 19) mod 2 ^ 32"
    by (simp add: unat_of_nat del: of_nat_add)
  moreover have "length command + 19 < 2 ^ 32 + 2 ^ 32"
    using assms by (simp add: max_message_length_def message_base_command_length_def)
  ultimately show ?thesis by (auto simp: le_mod_geq)
qed

lemma i3_payload_cases:
  assumes "length command \<le> max_message_length"
  shows "i3_payload command =
    (if length command + 19 < 2 ^ 32 then Inr (i3_message 0 (''exec '' @ command))
     else Inl Undefined)"
proof -
  let ?body = "''exec '' @ command"
  have body: "length ?body = length command + message_base_command_length"
    by (simp add: message_base_command_length_def)
  have len: "length (i3_message 0 ?body) = length command + 19"
    by (simp add: i3_message_def)
  have payload: "i3_payload command =
      (if length (i3_message 0 ?body) \<noteq> unat (payload_size command) then Inl Undefined
       else Inr (i3_message 0 ?body))"
    unfolding i3_payload_def i3_message_def Let_def body le32_0 by (rule refl)
  show ?thesis
    unfolding payload len payload_size_cases [OF assms] by auto
qed

lemma read_reply_message:
  assumes "length body < 2 ^ 32"
  shows "read_reply (i3_message t body @ rest) = Inr body"
proof -
  have "unat (word_of_nat (length body) :: 32 word) = length body"
    using assms by (simp add: unat_of_nat)
  then show ?thesis by (simp add: read_reply_def i3_message_def Let_def)
qed

end
