(* ===== verification/I3ExecFacts.thy ===== *)
theory I3ExecFacts
  imports I3Exec
begin

text \<open>
  What \<open>src/I3Exec.cc\<close> guarantees: the payload is the message of the protocol unless its 32-bit
  length wraps around, blanks between the tokens of the answer do not matter, a string of the
  answer is read back, and the outcome of \<open>exec\<close> for the answers i3 gives to a command.
\<close>

section \<open>Tokens of the answer\<close>

text \<open>
  The answer as a list of tokens: what stands outside of strings, a string, blanks. A string is
  written with the escapes of JSON that the code knows.
\<close>

datatype json_token = Mark string | Str string | Blank nat

definition json_escape_char :: "char \<Rightarrow> string" where
  "json_escape_char c =
     (if c = DQUOTE then [BACKSLASH, DQUOTE]
      else if c = BACKSLASH then [BACKSLASH, BACKSLASH]
      else if c = CHR 0x08 then [BACKSLASH, CHR ''b'']
      else if c = CHR 0x0C then [BACKSLASH, CHR ''f'']
      else if c = NL then [BACKSLASH, CHR ''n'']
      else if c = CR then [BACKSLASH, CHR ''r'']
      else if c = TAB then [BACKSLASH, CHR ''t'']
      else [c])"

definition json_escape :: "string \<Rightarrow> string" where
  "json_escape s = concat (map json_escape_char s)"

fun print_token :: "json_token \<Rightarrow> string" where
  "print_token (Mark m) = m"
| "print_token (Str s) = DQUOTE # json_escape s @ [DQUOTE]"
| "print_token (Blank n) = replicate n SPACE"

definition print_json :: "json_token list \<Rightarrow> string" where
  "print_json ts = concat (map print_token ts)"

fun token_ok :: "json_token \<Rightarrow> bool" where
  "token_ok (Mark m) \<longleftrightarrow> DQUOTE \<notin> set m \<and> SPACE \<notin> set m"
| "token_ok (Str s) \<longleftrightarrow> True"
| "token_ok (Blank n) \<longleftrightarrow> True"

fun is_blank :: "json_token \<Rightarrow> bool" where
  "is_blank (Blank n) \<longleftrightarrow> True"
| "is_blank _ \<longleftrightarrow> False"

lemma print_json_simps [simp]:
  "print_json [] = []"
  "print_json (t # ts) = print_token t @ print_json ts"
  "print_json (ts @ us) = print_json ts @ print_json us"
  by (simp_all add: print_json_def)

lemma json_escape_simps [simp]:
  "json_escape [] = []"
  "json_escape (c # cs) = json_escape_char c @ json_escape cs"
  by (simp_all add: json_escape_def)

lemma read_JSON_escape:
  "read_JSON_loop (json_escape s @ DQUOTE # rest) False r = JSON_string (r @ s)"
proof (induction s arbitrary: r)
  case (Cons c cs)
  then show ?case by (simp add: json_escape_char_def json_unescape_def)
qed simp

lemma read_JSON_string_escape:
  "read_JSON_string (json_escape s @ DQUOTE # rest) = JSON_string s"
  by (simp add: read_JSON_string_def read_JSON_escape)

lemma trim_loop_escape:
  "trim_loop (json_escape s @ rest) True False r = trim_loop rest True False (r @ json_escape s)"
proof (induction s arbitrary: r)
  case (Cons c cs)
  then show ?case by (simp add: json_escape_char_def)
qed simp

lemma trim_loop_mark:
  "DQUOTE \<notin> set m \<Longrightarrow> SPACE \<notin> set m \<Longrightarrow>
     trim_loop (m @ rest) False False r = trim_loop rest False False (r @ m)"
proof (induction m arbitrary: r)
  case (Cons c cs)
  then have "c \<noteq> DQUOTE" "c \<noteq> SPACE" by auto
  with Cons show ?case by simp
qed simp

lemma trim_loop_blanks:
  "trim_loop (replicate n SPACE @ rest) False False r = trim_loop rest False False r"
  by (induction n) auto

lemma trim_loop_tokens:
  "\<forall>t \<in> set ts. token_ok t \<Longrightarrow>
     trim_loop (print_json ts) False False r = r @ print_json (filter (\<lambda>t. \<not> is_blank t) ts)"
proof (induction ts arbitrary: r)
  case (Cons t ts)
  then show ?case
    by (cases t) (simp_all add: trim_loop_escape trim_loop_mark trim_loop_blanks)
qed simp

lemma trim_spaces_tokens:
  "\<forall>t \<in> set ts. token_ok t \<Longrightarrow>
     trim_spaces (print_json ts) = print_json (filter (\<lambda>t. \<not> is_blank t) ts)"
  by (simp add: trim_spaces_def trim_loop_tokens)

section \<open>The outcome\<close>

lemma I3_exec_reply:
  assumes "length command + 19 < 2 ^ 32" "length socket_path < sun_path_size"
    and "length reply < 2 ^ 32"
    and "i3 (i3_message 0 (''exec '' @ command)) = i3_message t reply @ rest"
  shows "I3_exec i3 True command socket_path = handle_reply reply"
proof -
  have small: "length command \<le> max_message_length"
    using assms(1) by (simp add: max_message_length_def message_base_command_length_def)
  have "i3_payload command = Inr (i3_message 0 (''exec '' @ command))"
    using i3_payload_cases [OF small] assms(1) by (simp only: if_True)
  then show ?thesis
    using small assms(2) read_reply_message [OF assms(3)]
    by (simp only: I3_exec_def bind_sum_simps assms(4) not_less [symmetric] if_False
        not_True_eq_False sum.case)
qed

abbreviation failure_fields :: "json_token list set" where
  "failure_fields \<equiv> {[], [Str ''parse_error'', Mark '':true,'']}"

lemma handle_reply_failure:
  assumes "\<forall>t \<in> set ts. token_ok t" and "extra \<in> failure_fields"
    and "filter (\<lambda>t. \<not> is_blank t) ts =
      [Mark ''[{'', Str ''success'', Mark '':false,''] @ extra @
      [Str ''error'', Mark '':'', Str message] @ rest"
  shows "handle_reply (print_json ts) = (I3_error message, Inl (Exited EXIT_FAILURE))"
proof -
  let ?tail = "json_escape message @ DQUOTE # print_json rest"
  have trim: "trim_spaces (print_json ts) =
      print_json ([Mark ''[{'', Str ''success'', Mark '':false,''] @ extra @ [Str ''error'', Mark '':'']) @
      DQUOTE # ?tail"
    using trim_spaces_tokens [OF assms(1)] assms(3) by simp
  have "find_str success_false (trim_spaces (print_json ts)) = Some 2"
    unfolding trim by (simp add: success_false_def json_escape_char_def)
  moreover have "\<exists>k. find_str error_key (trim_spaces (print_json ts)) = Some k \<and>
      drop (k + 9) (trim_spaces (print_json ts)) = ?tail \<and>
      k + 9 \<le> length (trim_spaces (print_json ts))"
    using assms(2) unfolding trim
    by (auto simp: error_key_def json_escape_char_def)
  ultimately show ?thesis
    by (auto simp: handle_reply_def Let_def read_JSON_string_escape)
qed

lemma handle_reply_success:
  assumes "\<forall>t \<in> set ts. token_ok t"
    and "filter (\<lambda>t. \<not> is_blank t) ts = [Mark ''[{'', Str ''success'', Mark '':true}]'']"
  shows "handle_reply (print_json ts) = (No_report, Inr ())"
  using trim_spaces_tokens [OF assms(1)] assms(2)
  by (simp add: handle_reply_def success_false_def success_true_def json_escape_char_def)

section \<open>Properties\<close>

text \<open>C31: The message for i3 is the magic string, the length of the body in four bytes, a zero type
  and the body \<open>exec\<close> with the command; the protocol decodes it to just that. A command so long
  that the 32-bit size of the whole message wraps around, which the length check lets through, is
  copied beyond the end of the buffer.\<close>

theorem i3_payload_framing:
  assumes "length command \<le> max_message_length"
  shows "map_sum id i3_decode (i3_payload command) =
    (if length command + 19 < 2 ^ 32 then Inr (Some (0, ''exec '' @ command)) else Inl Undefined)"
proof (cases "length command + 19 < 2 ^ 32")
  case True
  then have "length (''exec '' @ command) < 2 ^ 32" by simp
  then have "i3_decode (i3_message 0 (''exec '' @ command)) = Some (0, ''exec '' @ command)"
    by (rule i3_decode_message)
  then show ?thesis unfolding i3_payload_cases [OF assms] if_P [OF True] by simp
next
  case False
  then show ?thesis unfolding i3_payload_cases [OF assms] if_not_P [OF False] by simp
qed

theorem i3_payload_framing_witness:
  "map_sum id i3_decode (i3_payload ''xterm'') = Inr (Some (0, ''exec xterm''))"
  using i3_payload_framing [of "''xterm''"]
  by (simp add: max_message_length_def message_base_command_length_def)



text \<open>When i3 answers that the command succeeded, with blanks wherever the format allows them,
  \<open>exec\<close> returns.\<close>

theorem I3_exec_success:
  assumes "length command + 19 < 2 ^ 32" "length socket_path < sun_path_size"
    and "\<forall>t \<in> set ts. token_ok t" "length (print_json ts) < 2 ^ 32"
    and "i3 (i3_message 0 (''exec '' @ command)) = i3_message 0 (print_json ts)"
    and "filter (\<lambda>t. \<not> is_blank t) ts = [Mark ''[{'', Str ''success'', Mark '':true}]'']"
  shows "I3_exec i3 True command socket_path = (No_report, Inr ())"
proof -
  have "i3 (i3_message 0 (''exec '' @ command)) = i3_message 0 (print_json ts) @ []"
    using assms(5) by simp
  from I3_exec_reply [of command socket_path "print_json ts" i3 0 "[]", OF assms(1,2,4) this]
  show ?thesis by (simp only: handle_reply_success [OF assms(3,6)])
qed

theorem I3_exec_success_witness:
  "I3_exec (\<lambda>_. i3_message 0 (print_json
      [Mark ''[{'', Str ''success'', Blank 1, Mark '':true}]'', Blank 2]))
    True ''xterm'' ''/run/i3'' = (No_report, Inr ())"
  by (rule I3_exec_success [where
      ts = "[Mark ''[{'', Str ''success'', Blank 1, Mark '':true}]'', Blank 2]"])
    (simp_all add: sun_path_size_def json_escape_char_def)

end
