(* ===== verification/Execute.thy ===== *)
theory Execute
  imports Menu FieldCodes CMDLineTerm I3Exec
begin

text \<open>
  The execution of the user's choice in \<open>src/main.cc\<close> (\<open>ExecutePhase\<close>): the argument vector of a
  desktop file or of a typed command, and the three ways it is used. What a run does to the
  outside, up to the \<open>execvp\<close> that replaces the process, is the list of its effects.
\<close>

datatype effect =
    Chdir string
  | Script_file string string
  | Execvp "string list"
  | Printed string
  | I3_command string

record executable =
  ex_terminal :: string
  ex_wrapper :: string
  ex_assembler :: term_assembler
  ex_wine :: bool

text \<open>What the system answers: the files of terminal scripts, and whether \<open>chdir\<close> works.\<close>

record exec_env =
  ee_temp :: temp_env
  ee_chdir :: "string \<Rightarrow> bool"

type_synonym prepared = "string list \<times> script option"

section \<open>Preparing the command\<close>

text \<open>The \<open>catch\<close> around the split of the \<open>Exec\<close> key: the location is put before the message.\<close>

definition rethrow_escape :: "Application \<Rightarrow> fault \<Rightarrow> fault" where
  "rethrow_escape app e =
     (case e of
        Exec_invalid_escape what \<Rightarrow>
          Exec_invalid_escape
            (''Error while processing selected desktop file '' @ quoted (app_location app) @ '': '' @ what)
      | _ \<Rightarrow> e)"

definition desktop_command :: "bool \<Rightarrow> Application \<Rightarrow> string \<Rightarrow> fault + string list" where
  "desktop_command wine app args =
     (case convert_exec_to_command (app_exec app) wine of
        Inl e \<Rightarrow> Inl (rethrow_escape app e)
      | Inr command_array \<Rightarrow> expand_field_codes command_array app args)"

definition wrapped :: "string \<Rightarrow> string list \<Rightarrow> string list" where
  "wrapped wrapper command_array =
     (if wrapper \<noteq> [] then wrap_command_in_wrapper command_array wrapper else command_array)"

definition prepare_processed_argv ::
  "temp_env \<Rightarrow> AppManager \<Rightarrow> command_info \<Rightarrow> executable \<Rightarrow> fault + prepared" where
  "prepare_processed_argv env appm info ex =
     (case info of
        CustomCommandInfo raw_command \<Rightarrow>
          Inr (wrapped (ex_wrapper ex) (wrap_cmdstring_in_shell raw_command), None)
      | DesktopCommandInfo ptr args \<Rightarrow>
          (case deref appm ptr of
             None \<Rightarrow> Inl Undefined
           | Some app \<Rightarrow>
               bind_sum (desktop_command (ex_wine ex) app args) (\<lambda>command_array.
                 bind_sum
                   (if app_terminal app
                    then ex_assembler ex env command_array (ex_terminal ex) (app_name app)
                    else Inr (command_array, None))
                   (\<lambda>(command_array, script). Inr (wrapped (ex_wrapper ex) command_array, script)))))"

definition script_effects :: "script option \<Rightarrow> effect list" where
  "script_effects sc = (case sc of None \<Rightarrow> [] | Some (name, contents) \<Rightarrow> [Script_file name contents])"

section \<open>The executables\<close>

text \<open>
  \<open>execute_app\<close>: \<open>execvp\<close> does not return when it works, and when it fails the program exits;
  either way the effect is the call. The pointers are read as C strings, as the path of \<open>chdir\<close> is.
\<close>

definition execute_app :: "string list \<Rightarrow> fault + effect list" where
  "execute_app args =
     (case create_argv args of
        Inl e \<Rightarrow> Inl e
      | Inr argv \<Rightarrow> Inr [Execvp (map (\<lambda>p. cstr (the p)) (butlast argv))])"

definition path_of :: "AppManager \<Rightarrow> command_info \<Rightarrow> fault + string" where
  "path_of appm info =
     (case info of
        CustomCommandInfo _ \<Rightarrow> Inr []
      | DesktopCommandInfo ptr _ \<Rightarrow>
          (case deref appm ptr of None \<Rightarrow> Inl Undefined | Some app \<Rightarrow> Inr (app_path app)))"

definition NormalExecutable_execute ::
  "exec_env \<Rightarrow> AppManager \<Rightarrow> command_info \<Rightarrow> executable \<Rightarrow> fault + effect list" where
  "NormalExecutable_execute env appm info ex =
     bind_sum (path_of appm info) (\<lambda>path.
       if path \<noteq> [] \<and> \<not> ee_chdir env (cstr path) then Inl (Exited EXIT_FAILURE)
       else
         bind_sum (prepare_processed_argv (ee_temp env) appm info ex) (\<lambda>(argv, script).
           bind_sum (execute_app argv) (\<lambda>effects.
             Inr ((if path \<noteq> [] then [Chdir (cstr path)] else []) @ script_effects script @ effects))))"

definition FakeExecutable_execute ::
  "exec_env \<Rightarrow> AppManager \<Rightarrow> command_info \<Rightarrow> executable \<Rightarrow> fault + effect list" where
  "FakeExecutable_execute env appm info ex =
     bind_sum (prepare_processed_argv (ee_temp env) appm info ex) (\<lambda>(argv, script).
       Inr (script_effects script @ [Printed (convert_argv_to_string argv @ [NL])]))"

text \<open>The command for i3: a wrapper is not used, the \<open>Path\<close> key becomes a \<open>cd\<close>.\<close>

definition i3_command :: "temp_env \<Rightarrow> AppManager \<Rightarrow> command_info \<Rightarrow> executable \<Rightarrow> fault + string \<times> script option" where
  "i3_command env appm info ex =
     (case info of
        CustomCommandInfo raw_command \<Rightarrow> Inr (raw_command, None)
      | DesktopCommandInfo ptr args \<Rightarrow>
          (case deref appm ptr of
             None \<Rightarrow> Inl Undefined
           | Some app \<Rightarrow>
               bind_sum (desktop_command (ex_wine ex) app args) (\<lambda>command_array.
                 if app_path app \<noteq> [] then
                   (let result = ''cd '' @ sq_quote (app_path app) @ '' && '' @
                          convert_argv_to_string command_array
                    in if app_terminal app then
                         bind_sum (ex_assembler ex env (wrap_cmdstring_in_shell result)
                             (ex_terminal ex) (app_name app))
                           (\<lambda>(new_command_array, script).
                             Inr (convert_argv_to_string new_command_array, script))
                       else Inr (result, None))
                 else if app_terminal app then
                   bind_sum (ex_assembler ex env command_array (ex_terminal ex) (app_name app))
                     (\<lambda>(new_command_array, script).
                       Inr (convert_argv_to_string new_command_array, script))
                 else Inr (convert_argv_to_string command_array, None))))"

definition I3Executable_execute ::
  "(string \<Rightarrow> string) \<Rightarrow> bool \<Rightarrow> string \<Rightarrow> exec_env \<Rightarrow> AppManager \<Rightarrow> command_info \<Rightarrow> executable \<Rightarrow>
     fault + effect list \<times> i3_outcome" where
  "I3Executable_execute i3 connected i3_ipc_path env appm info ex =
     bind_sum (i3_command (ee_temp env) appm info ex) (\<lambda>(result, script).
       Inr (script_effects script @ [I3_command result], I3_exec i3 connected result i3_ipc_path))"

end
