(* ===== verification/ExecuteFacts.thy ===== *)
theory ExecuteFacts
  imports Execute
begin

text \<open>
  What the three executables agree on: \<open>--no-exec\<close> prints, and i3 is sent, exactly the words a
  normal run executes; and when a normal run has nothing to execute.
\<close>

section \<open>The command of a desktop file\<close>

lemma convert_exec_loop_fault:
  "convert_exec_loop wine s q e cur ws = Inl err \<Longrightarrow> \<exists>what. err = Exec_invalid_escape what"
  by (induction s arbitrary: q e cur ws) (auto split: if_splits)

lemma expand_field_codes_loop_step:
  assumes "\<And>what. P (Inl (Runtime_error what))" "\<And>r. P (Inr r)"
    and "\<And>b r. length r \<le> length rest \<Longrightarrow> P (expand_field_codes_loop app ua b r)"
  shows "P (expand_field_codes_loop app ua before (arg # rest))"
proof -
  have ifs: "P (if c then x else y)" if "P x" "P y" for c x y using that by simp
  have options: "P (case v of None \<Rightarrow> x | Some p \<Rightarrow> f p)" if "P x" "\<And>p. P (f p)" for v :: "nat option" and x f
    using that by (cases v) simp_all
  have lists: "P (case rest of [] \<Rightarrow> x | r # rs \<Rightarrow> f r rs)"
    if "P x" "\<And>r rs. rest = r # rs \<Longrightarrow> P (f r rs)" for x f
    using that by (cases rest) simp_all
  show ?thesis
    unfolding expand_field_codes_loop.simps Let_def by (intro options ifs lists assms) simp_all
qed

lemma expand_field_codes_loop_fault:
  "expand_field_codes_loop app ua b args = Inl err \<Longrightarrow> \<exists>what. err = Runtime_error what"
proof (induction args arbitrary: b rule: length_induct)
  case (1 args)
  show ?case
  proof (cases args)
    case (Cons arg rest)
    have "expand_field_codes_loop app ua b (arg # rest) = Inl err \<longrightarrow> (\<exists>what. err = Runtime_error what)"
    proof (rule expand_field_codes_loop_step)
      fix b and r :: "string list"
      assume "length r \<le> length rest"
      then have "length r < length args" using Cons by simp
      then show "expand_field_codes_loop app ua b r = Inl err \<longrightarrow> (\<exists>what. err = Runtime_error what)"
        using "1.IH" by blast
    qed auto
    then show ?thesis using "1.prems" unfolding Cons by blast
  qed (use "1.prems" in simp)
qed

lemma desktop_command_fault:
  assumes "desktop_command wine app args = Inl err"
  shows "(\<exists>what. err = Exec_invalid_escape what) \<or> (\<exists>what. err = Runtime_error what)"
proof (cases "convert_exec_to_command (app_exec app) wine")
  case (Inl e)
  then obtain what where "e = Exec_invalid_escape what"
    using convert_exec_loop_fault unfolding convert_exec_to_command_def by blast
  with Inl assms show ?thesis by (auto simp: desktop_command_def rethrow_escape_def)
next
  case (Inr r)
  with assms have "expand_field_codes_loop app args [] r = Inl err"
    by (simp add: desktop_command_def expand_field_codes_def)
  then show ?thesis using expand_field_codes_loop_fault by blast
qed

lemma expand_args_no_code:
  "\<forall>a \<in> set args. CHR ''%'' \<notin> set a \<Longrightarrow> expand_args app words args = Inr args"
  by (induction args) (simp_all add: expand_arg_def)

lemma desktop_command_quoted:
  assumes "app_exec app = join (map exec_quote ws) SPACE" "ws \<noteq> []" "last ws \<noteq> []"
    and "\<forall>w \<in> set ws. CHR ''%'' \<notin> set w"
  shows "desktop_command wine app args = Inr ws"
proof -
  have "convert_exec_to_command (app_exec app) wine = Inr ws"
    unfolding assms(1) convert_exec_to_command_def using exec_key.scan_words [OF assms(2,3), of wine "[]"]
    by simp
  moreover have "\<forall>a \<in> set ws. \<not> takes_input a" using assms(4) by (simp add: takes_input_def)
  from expand_field_codes_loop_prefix [OF this, of app args "[]" "[]" "[]"]
  have "expand_field_codes ws app args = Inr ws"
    by (simp add: expand_field_codes_def expand_args_no_code [OF assms(4)])
  ultimately show ?thesis by (simp add: desktop_command_def)
qed

section \<open>The executables\<close>

lemma execute_app_eq:
  "execute_app args = (if args = [] then Inl Aborted else Inr [Execvp (map cstr args)])"
  by (simp add: execute_app_def create_argv_def comp_def)

fun is_chdir :: "effect \<Rightarrow> bool" where
  "is_chdir (Chdir _) \<longleftrightarrow> True"
| "is_chdir _ \<longleftrightarrow> False"

lemma script_effects_no_chdir: "filter (\<lambda>e. \<not> is_chdir e) (script_effects sc) = script_effects sc"
  by (auto simp: script_effects_def split: option.splits)

text \<open>A manager with one application, and an executable, for concrete runs.\<close>

definition sample_app :: Application where
  "sample_app = (empty_application ''/a/e.desktop'')\<lparr>app_name := ''Echo'',
     app_exec := join (map exec_quote [''echo'', ''a  b'']) SPACE, app_path := ''/tmp''\<rparr>"

definition manager_with :: "Application \<Rightarrow> AppManager" where
  "manager_with app =
     \<lparr>applications = [(''e'', \<lparr>ma_app = Some app, ma_rank = 0\<rparr>)], name_app_mapping = []\<rparr>"

definition sample_executable :: executable where
  "sample_executable =
     \<lparr>ex_terminal = ''xterm'', ex_wrapper = [], ex_assembler = xterm_term_assembler, ex_wine = False\<rparr>"

definition sample_exec_env :: exec_env where
  "sample_exec_env =
     \<lparr>ee_temp = \<lparr>te_name = None, te_close_ok = True, te_err = []\<rparr>, ee_chdir = (\<lambda>_. True)\<rparr>"

lemma deref_manager_with [simp]: "deref (manager_with app) ''e'' = Some app"
  by (simp add: manager_with_def deref_def lookup_by_ID_def um_find_def)

lemmas samples = sample_app_def sample_executable_def sample_exec_env_def

lemma sample_command: "desktop_command wine sample_app args = Inr [''echo'', ''a  b'']"
  by (rule desktop_command_quoted) (simp_all add: sample_app_def)

text \<open>C21: with \<open>--no-exec\<close> the program writes the same script files and prints one line, from which the
  shell makes exactly the words a normal run passes to \<open>execvp\<close> (there cut at a NUL byte, which no
  argument can hold).\<close>

theorem no_exec_prints_command:
  assumes "NormalExecutable_execute env appm info ex = Inr effects"
  shows "\<exists>pre argv line. effects = pre @ [Execvp (map cstr argv)] \<and>
    FakeExecutable_execute env appm info ex =
      Inr (filter (\<lambda>e. \<not> is_chdir e) pre @ [Printed (line @ [NL])]) \<and>
    sh_words line = Some argv"
proof -
  obtain path where path: "path_of appm info = Inr path"
    using assms by (auto simp: NormalExecutable_execute_def)
  with assms obtain argv script es where
    p: "prepare_processed_argv (ee_temp env) appm info ex = Inr (argv, script)"
    and e: "execute_app argv = Inr es"
    and effects: "effects = (if path \<noteq> [] then [Chdir (cstr path)] else []) @ script_effects script @ es"
    unfolding NormalExecutable_execute_def by (auto split: if_split_asm)
  let ?pre = "(if path \<noteq> [] then [Chdir (cstr path)] else []) @ script_effects script"
  have "effects = ?pre @ [Execvp (map cstr argv)]"
    using e effects by (simp add: execute_app_eq split: if_splits)
  moreover have "filter (\<lambda>e. \<not> is_chdir e) ?pre = script_effects script"
    using script_effects_no_chdir [of script] by simp
  ultimately show ?thesis
    using p convert_argv_words [of argv] by (fastforce simp: FakeExecutable_execute_def)
qed

theorem no_exec_prints_command_witness:
  "\<exists>line. FakeExecutable_execute sample_exec_env (manager_with sample_app) (DesktopCommandInfo ''e'' [])
      sample_executable = Inr [Printed (line @ [NL])] \<and> sh_words line = Some [''echo'', ''a  b'']"
proof -
  have "NormalExecutable_execute sample_exec_env (manager_with sample_app) (DesktopCommandInfo ''e'' [])
      sample_executable = Inr [Chdir ''/tmp'', Execvp [''echo'', ''a  b'']]"
    by (simp add: NormalExecutable_execute_def path_of_def prepare_processed_argv_def sample_command
        execute_app_eq wrapped_def script_effects_def) (simp add: samples empty_application_def)
  from no_exec_prints_command [OF this] obtain pre argv line where
    r: "[Chdir ''/tmp'', Execvp [''echo'', ''a  b'']] = pre @ [Execvp (map cstr argv)]"
      "FakeExecutable_execute sample_exec_env (manager_with sample_app) (DesktopCommandInfo ''e'' [])
        sample_executable = Inr (filter (\<lambda>e. \<not> is_chdir e) pre @ [Printed (line @ [NL])])"
      "sh_words line = Some argv"
    by blast
  moreover have "pre = [Chdir ''/tmp'']" using r(1) by (cases pre) auto
  moreover have "prepare_processed_argv (ee_temp sample_exec_env) (manager_with sample_app)
      (DesktopCommandInfo ''e'' []) sample_executable = Inr ([''echo'', ''a  b''], None)"
    by (simp add: prepare_processed_argv_def sample_command wrapped_def) (simp add: samples empty_application_def)
  then have "line = convert_argv_to_string [''echo'', ''a  b'']"
    using r(2) by (simp add: FakeExecutable_execute_def script_effects_def \<open>pre = [Chdir ''/tmp'']\<close>)
  ultimately show ?thesis using convert_argv_words by auto
qed

text \<open>A desktop file without a terminal, and without a wrapper, makes the program abort exactly when
  nothing is left of its command line, as with an empty \<open>Exec\<close> key or one that is a removed field code;
  any other command line is executed or rejected with a message.\<close>

theorem empty_command_aborts:
  assumes "deref appm ptr = Some app" "\<not> app_terminal app" "ex_wrapper ex = []"
    and "app_path app = [] \<or> ee_chdir env (cstr (app_path app))"
  shows "NormalExecutable_execute env appm (DesktopCommandInfo ptr args) ex = Inl Aborted \<longleftrightarrow>
    desktop_command (ex_wine ex) app args = Inr []"
proof (cases "desktop_command (ex_wine ex) app args")
  case (Inl err)
  with desktop_command_fault [OF Inl] assms show ?thesis
    by (auto simp: NormalExecutable_execute_def prepare_processed_argv_def path_of_def)
next
  case (Inr argv)
  with assms show ?thesis
    by (auto simp: NormalExecutable_execute_def prepare_processed_argv_def path_of_def execute_app_eq
        wrapped_def)
qed

theorem empty_command_aborts_witness:
  "NormalExecutable_execute sample_exec_env (manager_with (sample_app\<lparr>app_exec := ''%U''\<rparr>))
     (DesktopCommandInfo ''e'' []) sample_executable = Inl Aborted"
proof -
  have "desktop_command False (sample_app\<lparr>app_exec := ''%U''\<rparr>) [] = Inr []"
    by code_simp
  then show ?thesis
    by (subst empty_command_aborts [where app = "sample_app\<lparr>app_exec := ''%U''\<rparr>"])
      (simp_all add: samples empty_application_def)
qed

lemma quoted_exec_run:
  assumes "deref appm ptr = Some app" "\<not> app_terminal app" "ex_wrapper ex = []"
    and "app_path app = [] \<or> ee_chdir env (cstr (app_path app))"
    and "app_exec app = join (map exec_quote ws) SPACE" "ws \<noteq> []" "last ws \<noteq> []"
    and "\<forall>w \<in> set ws. CHR ''%'' \<notin> set w \<and> NUL \<notin> set w"
  shows "NormalExecutable_execute env appm (DesktopCommandInfo ptr args) ex =
    Inr ((if app_path app = [] then [] else [Chdir (cstr (app_path app))]) @ [Execvp ws])"
proof -
  have "desktop_command (ex_wine ex) app args = Inr ws"
    using desktop_command_quoted assms(5-8) by blast
  moreover have "map cstr ws = ws" using assms(8) by (simp add: map_idI)
  ultimately show ?thesis using assms(1-4,6)
    by (auto simp: NormalExecutable_execute_def prepare_processed_argv_def path_of_def execute_app_eq
        wrapped_def script_effects_def)
qed

text \<open>C11: an \<open>Exec\<close> key that quotes words without field codes as the specification says is executed as
  exactly these words, whatever characters they hold, after a change to the directory of the \<open>Path\<close>
  key; the user's arguments and Wine mode make no difference.\<close>

theorem quoted_exec_executed:
  assumes "deref appm ptr = Some app" "\<not> app_terminal app" "ex_wrapper ex = []"
    and "app_path app = [] \<or> ee_chdir env (cstr (app_path app))"
    and "app_exec app = join (map exec_quote ws) SPACE" "ws \<noteq> []" "last ws \<noteq> []"
    and "\<forall>w \<in> set ws. CHR ''%'' \<notin> set w \<and> NUL \<notin> set w"
  shows "NormalExecutable_execute env appm (DesktopCommandInfo ptr args) ex =
    Inr ((if app_path app = [] then [] else [Chdir (cstr (app_path app))]) @ [Execvp ws])"
  using assms by (rule quoted_exec_run)

theorem quoted_exec_executed_witness:
  "NormalExecutable_execute sample_exec_env (manager_with sample_app) (DesktopCommandInfo ''e'' ''x'')
     sample_executable = Inr [Chdir ''/tmp'', Execvp [''echo'', ''a  b'']]"
  by (subst quoted_exec_executed [where app = sample_app and ws = "[''echo'', ''a  b'']"])
    (simp_all add: samples empty_application_def)

text \<open>A shell line that changes the directory and then runs the words.\<close>

definition cd_line :: "string \<Rightarrow> string list \<Rightarrow> string \<Rightarrow> bool" where
  "cd_line path argv line \<longleftrightarrow>
     (\<exists>change run. line = change @ '' && '' @ run \<and> sh_words change = Some [''cd'', path] \<and>
        sh_words run = Some argv)"

lemma sh_words_cd: "sh_words (''cd '' @ sq_quote path) = Some [''cd'', path]"
  using sh_words_sq_quote [of path "[]"] by (simp add: sh_words_def sh_plain_def)

lemma cd_line_intro:
  "cd_line path argv (''cd '' @ sq_quote path @ '' && '' @ convert_argv_to_string argv)"
proof -
  have "''cd '' @ sq_quote path @ '' && '' @ convert_argv_to_string argv =
      (''cd '' @ sq_quote path) @ '' && '' @ convert_argv_to_string argv" by simp
  with sh_words_cd convert_argv_words show ?thesis unfolding cd_line_def by metis
qed

text \<open>C22: the line sent to i3 for a desktop file is one from which the shell makes exactly the words a
  normal run without wrapper would execute; with a \<open>Path\<close> key it first changes the directory, inside
  the terminal where the application wants one.\<close>

theorem i3_command_words:
  assumes "deref appm ptr = Some app" "desktop_command (ex_wine ex) app args = Inr argv"
    and "i3_command env appm (DesktopCommandInfo ptr args) ex = Inr (result, script)"
  shows "if app_path app = [] then
      \<exists>full. prepare_processed_argv env appm (DesktopCommandInfo ptr args) (ex\<lparr>ex_wrapper := []\<rparr>) =
        Inr (full, script) \<and> sh_words result = Some full
    else if app_terminal app then
      \<exists>full inner. ex_assembler ex env [''/bin/sh'', ''-c'', inner] (ex_terminal ex) (app_name app) =
        Inr (full, script) \<and> cd_line (app_path app) argv inner \<and> sh_words result = Some full
    else cd_line (app_path app) argv result \<and> script = None"
proof -
  consider "app_path app = []" | "app_path app \<noteq> []" "app_terminal app" | "app_path app \<noteq> []" "\<not> app_terminal app"
    by blast
  then show ?thesis
  proof cases
    case 1
    with assms show ?thesis
      by (auto simp: i3_command_def prepare_processed_argv_def wrapped_def convert_argv_words split: if_splits)
  next
    case 2
    let ?inner = "''cd '' @ sq_quote (app_path app) @ '' && '' @ convert_argv_to_string argv"
    from assms 2 obtain full where
      "ex_assembler ex env (wrap_cmdstring_in_shell ?inner) (ex_terminal ex) (app_name app) = Inr (full, script)"
      "result = convert_argv_to_string full"
      by (auto simp: i3_command_def Let_def)
    with cd_line_intro [of "app_path app" argv] 2 convert_argv_words [of full] show ?thesis
      unfolding wrap_cmdstring_in_shell_def by auto
  next
    case 3
    with assms cd_line_intro [of "app_path app" argv] show ?thesis
      by (auto simp: i3_command_def Let_def)
  qed
qed

theorem i3_command_words_witness:
  "\<exists>result. i3_command (ee_temp sample_exec_env) (manager_with sample_app) (DesktopCommandInfo ''e'' [])
      sample_executable = Inr (result, None) \<and> cd_line ''/tmp'' [''echo'', ''a  b''] result"
proof -
  obtain result where r: "i3_command (ee_temp sample_exec_env) (manager_with sample_app)
      (DesktopCommandInfo ''e'' []) sample_executable = Inr (result, None)"
    by (simp add: i3_command_def sample_command) (simp add: samples empty_application_def)
  have "app_path sample_app = ''/tmp''" "\<not> app_terminal sample_app"
    by (simp_all add: samples empty_application_def)
  with i3_command_words [OF deref_manager_with sample_command r] r show ?thesis by auto
qed

end
