(* ===== verification/Options.thy ===== *)
theory Options
  imports Formatters CMDLineTerm I3Exec SearchPath
begin

text \<open>
  The options of \<open>main\<close> in \<open>src/main.cc\<close>: the loop over what \<open>getopt_long\<close> returns, the log
  levels, and the checks made before anything is read. An option is the character the table of
  the code gives it, with its argument (empty where it takes none).
\<close>

section \<open>Log levels\<close>

datatype log_level = Debug | Info | Warn | Err

fun level_number :: "log_level \<Rightarrow> nat" where
  "level_number Debug = 1"
| "level_number Info = 2"
| "level_number Warn = 3"
| "level_number Err = 4"

lemma level_number_inject [simp]: "level_number a = level_number b \<longleftrightarrow> a = b"
  by (cases a; cases b) simp_all

instantiation log_level :: linorder
begin

definition less_eq_log_level_def: "a \<le> b \<longleftrightarrow> level_number a \<le> level_number b"

definition less_log_level_def: "a < b \<longleftrightarrow> level_number a < level_number b"

instance
  by standard (auto simp: less_eq_log_level_def less_log_level_def)

end

fun parse_level :: "string \<Rightarrow> log_level option" where
  "parse_level arg =
     (if arg = ''DEBUG'' then Some Debug
      else if arg = ''INFO'' then Some Info
      else if arg = ''WARNING'' then Some Warn
      else if arg = ''ERROR'' then Some Err
      else None)"

section \<open>The options\<close>

datatype term_mode =
    Default_mode | Xterm_mode | Alacritty_mode | Kitty_mode | Terminator_mode
  | Gnome_terminal_mode | Custom_mode

datatype parsing_mode = STRICT | NONE | QUIRKS

record options =
  op_dmenu_command :: string
  op_terminal :: string
  op_wrapper :: string
  op_wait_on :: "string option"
  op_use_xdg_de :: bool
  op_exclude_generic :: bool
  op_no_exec :: bool
  op_case_insensitive :: bool
  op_use_i3_ipc :: bool
  op_skip_i3_check :: bool
  op_prune :: bool
  op_wine :: bool
  op_parsing_mode :: parsing_mode
  op_verbose :: nat
  op_level :: log_level
  op_level_overridden :: bool
  op_log_file :: "string option"
  op_log_file_level :: log_level
  op_formatter :: application_formatter
  op_term_mode :: term_mode
  op_usage_log :: "string option"

definition default_options :: options where
  "default_options =
     \<lparr>op_dmenu_command = ''dmenu -i'', op_terminal = [], op_wrapper = [], op_wait_on = None,
      op_use_xdg_de = False, op_exclude_generic = False, op_no_exec = False,
      op_case_insensitive = False, op_use_i3_ipc = False, op_skip_i3_check = False,
      op_prune = False, op_wine = True, op_parsing_mode = NONE, op_verbose = 0, op_level = Warn,
      op_level_overridden = False, op_log_file = None, op_log_file_level = Info,
      op_formatter = appformatter_default, op_term_mode = Default_mode, op_usage_log = None\<rparr>"

fun parse_term_mode :: "string \<Rightarrow> term_mode option" where
  "parse_term_mode arg =
     (if arg = ''default'' then Some Default_mode
      else if arg = ''xterm'' then Some Xterm_mode
      else if arg = ''alacritty'' then Some Alacritty_mode
      else if arg = ''kitty'' then Some Kitty_mode
      else if arg = ''terminator'' then Some Terminator_mode
      else if arg = ''gnome-terminal'' then Some Gnome_terminal_mode
      else if arg = ''custom'' then Some Custom_mode
      else None)"

text \<open>One turn of the loop; the usage and the version are printed before the exit.\<close>

definition handle_option :: "char \<Rightarrow> string \<Rightarrow> options \<Rightarrow> fault + options" where
  "handle_option c optarg opts =
     (if c = CHR ''d'' then Inr (opts\<lparr>op_dmenu_command := optarg\<rparr>)
      else if c = CHR ''x'' then Inr (opts\<lparr>op_use_xdg_de := True\<rparr>)
      else if c = CHR ''t'' then Inr (opts\<lparr>op_terminal := optarg\<rparr>)
      else if c = CHR ''T'' then
        (case parse_term_mode optarg of
           None \<Rightarrow> Inl (Exited EXIT_FAILURE)
         | Some mode \<Rightarrow> Inr (opts\<lparr>op_term_mode := mode\<rparr>))
      else if c = CHR ''h'' then Inl (Exited EXIT_SUCCESS)
      else if c = CHR ''b'' then Inr (opts\<lparr>op_formatter := appformatter_with_binary_name\<rparr>)
      else if c = CHR ''f'' then Inr (opts\<lparr>op_formatter := appformatter_with_base_binary_name\<rparr>)
      else if c = CHR ''n'' then Inr (opts\<lparr>op_exclude_generic := True\<rparr>)
      else if c = CHR ''l'' then Inr (opts\<lparr>op_usage_log := Some optarg\<rparr>)
      else if c = CHR ''p'' then Inr (opts\<lparr>op_prune := True\<rparr>)
      else if c = CHR ''w'' then Inr (opts\<lparr>op_wait_on := Some optarg\<rparr>)
      else if c = CHR ''e'' then Inr (opts\<lparr>op_no_exec := True\<rparr>)
      else if c = CHR ''W'' then Inr (opts\<lparr>op_wrapper := optarg\<rparr>)
      else if c = CHR ''i'' then Inr (opts\<lparr>op_case_insensitive := True\<rparr>)
      else if c = CHR ''I'' then Inr (opts\<lparr>op_use_i3_ipc := True\<rparr>)
      else if c = CHR ''v'' then Inr (opts\<lparr>op_verbose := op_verbose opts + 1\<rparr>)
      else if c = CHR ''o'' then
        (case parse_level optarg of
           None \<Rightarrow> Inl (Exited EXIT_FAILURE)
         | Some level \<Rightarrow> Inr (opts\<lparr>op_level := level, op_level_overridden := True\<rparr>))
      else if c = CHR ''O'' then Inr (opts\<lparr>op_log_file := Some optarg\<rparr>)
      else if c = CHR ''V'' then
        (case parse_level optarg of
           None \<Rightarrow> Inl (Exited 1)
         | Some level \<Rightarrow> Inr (opts\<lparr>op_log_file_level := level\<rparr>))
      else if c = CHR ''S'' then Inr (opts\<lparr>op_skip_i3_check := True\<rparr>)
      else if c = CHR ''D'' then
        (if op_parsing_mode opts = STRICT then Inl (Exited 1)
         else if optarg = ''wine'' then Inr (opts\<lparr>op_parsing_mode := QUIRKS, op_wine := True\<rparr>)
         else Inl (Exited 1))
      else if c = CHR ''R'' then
        (if op_parsing_mode opts = QUIRKS then Inl (Exited 1)
         else Inr (opts\<lparr>op_parsing_mode := STRICT, op_wine := False\<rparr>))
      else if c = CHR ''E'' then Inl (Exited EXIT_SUCCESS)
      else Inl (Exited 1))"

fun parse_options :: "(char \<times> string) list \<Rightarrow> options \<Rightarrow> fault + options" where
  "parse_options [] opts = Inr opts"
| "parse_options ((c, optarg) # rest) opts = bind_sum (handle_option c optarg opts) (parse_options rest)"

section \<open>Logging\<close>

text \<open>A sink lets everything pass until it is given a level.\<close>

record logging =
  lg_logger :: log_level
  lg_stderr :: "log_level option"
  lg_file :: "(string \<times> log_level) option"

definition stderr_level :: "options \<Rightarrow> log_level" where
  "stderr_level opts =
     (if op_level_overridden opts then op_level opts
      else if op_verbose opts = 0 then op_level opts
      else if op_verbose opts = 1 then Info
      else Debug)"

definition configure_logging :: "options \<Rightarrow> logging" where
  "configure_logging opts =
     (case op_log_file opts of
        None \<Rightarrow> \<lparr>lg_logger = stderr_level opts, lg_stderr = None, lg_file = None\<rparr>
      | Some path \<Rightarrow>
          \<lparr>lg_logger = min (stderr_level opts) (op_log_file_level opts),
           lg_stderr = Some (stderr_level opts), lg_file = Some (path, op_log_file_level opts)\<rparr>)"

section \<open>Checks\<close>

text \<open>\<open>child\<close> is what \<open>i3 --get-socketpath\<close> answers.\<close>

definition find_i3_socket ::
  "(string \<Rightarrow> string option) \<Rightarrow> wait_status \<times> string \<Rightarrow> options \<Rightarrow> fault + string" where
  "find_i3_socket getenv child opts =
     (if op_use_i3_ipc opts then
        (if op_wrapper opts \<noteq> [] then Inl (Exited EXIT_FAILURE)
         else
           (let path = get_variable getenv ''I3SOCK'' in
            if path = [] then get_ipc_socket_path child else Inr path))
      else Inr [])"

definition check_wrapper :: "options \<Rightarrow> fault + unit" where
  "check_wrapper opts =
     (if \<not> op_skip_i3_check opts \<and>
         (find_str ''sway'' (op_wrapper opts) \<noteq> None \<or> find_str ''i3'' (op_wrapper opts) \<noteq> None)
      then Inl (Exited EXIT_FAILURE) else Inr ())"

definition desktop_envs :: "(string \<Rightarrow> string option) \<Rightarrow> options \<Rightarrow> string list" where
  "desktop_envs getenv opts =
     (if op_use_xdg_de opts then split (get_variable getenv ''XDG_CURRENT_DESKTOP'') (CHR '':'') else [])"

fun assembler_of :: "term_mode \<Rightarrow> term_assembler" where
  "assembler_of Default_mode = default_term_assembler"
| "assembler_of Xterm_mode = xterm_term_assembler"
| "assembler_of Alacritty_mode = alacritty_term_assembler"
| "assembler_of Kitty_mode = kitty_term_assembler"
| "assembler_of Terminator_mode = terminator_term_assembler"
| "assembler_of Gnome_terminal_mode = gnome_terminal_term_assembler"
| "assembler_of Custom_mode = custom_term_assembler"

fun default_terminal :: "term_mode \<Rightarrow> string" where
  "default_terminal Default_mode = ''i3-sensible-terminal''"
| "default_terminal Xterm_mode = ''xterm''"
| "default_terminal Alacritty_mode = ''alacritty''"
| "default_terminal Kitty_mode = ''kitty''"
| "default_terminal Terminator_mode = ''terminator''"
| "default_terminal Gnome_terminal_mode = ''gnome-terminal''"
| "default_terminal Custom_mode = []"

definition choose_terminal :: "options \<Rightarrow> fault + string" where
  "choose_terminal opts =
     bind_sum (if op_term_mode opts = Custom_mode then validate_custom_term (op_terminal opts) else Inr ())
       (\<lambda>_. Inr (if op_terminal opts = [] then default_terminal (op_term_mode opts) else op_terminal opts))"

end
