(* ===== verification/OptionsFacts.thy ===== *)
theory OptionsFacts
  imports Options
begin

text \<open>
  The options as a whole: which command lines are accepted, and the meaning of one that is,
  read off the list of options instead of from a run over it.
\<close>

type_synonym command_line = "(char \<times> string) list"

definition given :: "char \<Rightarrow> command_line \<Rightarrow> bool" where
  "given c args \<longleftrightarrow> c \<in> fst ` set args"

definition last_of :: "char set \<Rightarrow> command_line \<Rightarrow> (char \<times> string) option" where
  "last_of cs args = find (\<lambda>e. fst e \<in> cs) (rev args)"

definition last_arg :: "char \<Rightarrow> command_line \<Rightarrow> string option" where
  "last_arg c args = map_option snd (last_of {c} args)"

definition or_else :: "'a option \<Rightarrow> 'a \<Rightarrow> 'a" where
  "or_else v d = (case v of None \<Rightarrow> d | Some x \<Rightarrow> x)"

lemma or_else_simps [simp]: "or_else None d = d" "or_else (Some x) d = x"
  by (simp_all add: or_else_def)

lemma snoc_simps [simp]:
  "given c [] = False" "given c (args @ [e]) \<longleftrightarrow> fst e = c \<or> given c args"
  "last_of cs [] = None" "last_of cs (args @ [e]) = (if fst e \<in> cs then Some e else last_of cs args)"
  "last_arg c [] = None" "last_arg c (args @ [e]) = (if fst e = c then Some (snd e) else last_arg c args)"
  by (auto simp: given_def last_of_def last_arg_def)

text \<open>The meaning: an option with an argument counts as it is given last.\<close>

definition meaning :: "command_line \<Rightarrow> options" where
  "meaning args =
     \<lparr>op_dmenu_command = or_else (last_arg (CHR ''d'') args) ''dmenu -i'',
      op_terminal = or_else (last_arg (CHR ''t'') args) [],
      op_wrapper = or_else (last_arg (CHR ''W'') args) [],
      op_wait_on = last_arg (CHR ''w'') args,
      op_use_xdg_de = given (CHR ''x'') args,
      op_exclude_generic = given (CHR ''n'') args,
      op_no_exec = given (CHR ''e'') args,
      op_case_insensitive = given (CHR ''i'') args,
      op_use_i3_ipc = given (CHR ''I'') args,
      op_skip_i3_check = given (CHR ''S'') args,
      op_prune = given (CHR ''p'') args,
      op_wine = (\<not> given (CHR ''R'') args),
      op_parsing_mode = (if given (CHR ''R'') args then STRICT else if given (CHR ''D'') args then QUIRKS else NONE),
      op_verbose = length (filter (\<lambda>e. fst e = CHR ''v'') args),
      op_level = or_else (Option.bind (last_arg (CHR ''o'') args) parse_level) Warn,
      op_level_overridden = given (CHR ''o'') args,
      op_log_file = last_arg (CHR ''O'') args,
      op_log_file_level = or_else (Option.bind (last_arg (CHR ''V'') args) parse_level) Info,
      op_formatter = (case last_of {CHR ''b'', CHR ''f''} args of
          None \<Rightarrow> appformatter_default
        | Some e \<Rightarrow> if fst e = CHR ''b'' then appformatter_with_binary_name
                   else appformatter_with_base_binary_name),
      op_term_mode = or_else (Option.bind (last_arg (CHR ''T'') args) parse_term_mode) Default_mode,
      op_usage_log = last_arg (CHR ''l'') args\<rparr>"

definition acceptable :: "char \<times> string \<Rightarrow> bool" where
  "acceptable e \<longleftrightarrow>
     (if fst e = CHR ''T'' then parse_term_mode (snd e) \<noteq> None
      else if fst e = CHR ''o'' \<or> fst e = CHR ''V'' then parse_level (snd e) \<noteq> None
      else if fst e = CHR ''D'' then snd e = ''wine''
      else fst e \<in> set ''dxtbfnlpweWiIvOSR'')"

definition accepted :: "command_line \<Rightarrow> bool" where
  "accepted args \<longleftrightarrow> (\<forall>e \<in> set args. acceptable e) \<and> \<not> (given (CHR ''D'') args \<and> given (CHR ''R'') args)"

lemma meaning_Nil: "meaning [] = default_options"
  by (simp add: meaning_def default_options_def)

lemma parse_options_snoc:
  "parse_options (args @ [(c, a)]) opts = bind_sum (parse_options args opts) (handle_option c a)"
proof (induction args arbitrary: opts)
  case Nil
  then show ?case by (cases "handle_option c a opts") simp_all
next
  case (Cons e args)
  then show ?case by (cases e; cases "handle_option (fst e) (snd e) opts") simp_all
qed

text \<open>The branches of the switch, one by one.\<close>

lemma handle_option_branches:
  "handle_option (CHR ''d'') a opts = Inr (opts\<lparr>op_dmenu_command := a\<rparr>)"
  "handle_option (CHR ''x'') a opts = Inr (opts\<lparr>op_use_xdg_de := True\<rparr>)"
  "handle_option (CHR ''t'') a opts = Inr (opts\<lparr>op_terminal := a\<rparr>)"
  "handle_option (CHR ''T'') a opts =
     (case parse_term_mode a of None \<Rightarrow> Inl (Exited EXIT_FAILURE) | Some m \<Rightarrow> Inr (opts\<lparr>op_term_mode := m\<rparr>))"
  "handle_option (CHR ''h'') a opts = Inl (Exited EXIT_SUCCESS)"
  "handle_option (CHR ''b'') a opts = Inr (opts\<lparr>op_formatter := appformatter_with_binary_name\<rparr>)"
  "handle_option (CHR ''f'') a opts = Inr (opts\<lparr>op_formatter := appformatter_with_base_binary_name\<rparr>)"
  "handle_option (CHR ''n'') a opts = Inr (opts\<lparr>op_exclude_generic := True\<rparr>)"
  "handle_option (CHR ''l'') a opts = Inr (opts\<lparr>op_usage_log := Some a\<rparr>)"
  "handle_option (CHR ''p'') a opts = Inr (opts\<lparr>op_prune := True\<rparr>)"
  "handle_option (CHR ''w'') a opts = Inr (opts\<lparr>op_wait_on := Some a\<rparr>)"
  "handle_option (CHR ''e'') a opts = Inr (opts\<lparr>op_no_exec := True\<rparr>)"
  "handle_option (CHR ''W'') a opts = Inr (opts\<lparr>op_wrapper := a\<rparr>)"
  "handle_option (CHR ''i'') a opts = Inr (opts\<lparr>op_case_insensitive := True\<rparr>)"
  "handle_option (CHR ''I'') a opts = Inr (opts\<lparr>op_use_i3_ipc := True\<rparr>)"
  "handle_option (CHR ''v'') a opts = Inr (opts\<lparr>op_verbose := op_verbose opts + 1\<rparr>)"
  "handle_option (CHR ''o'') a opts =
     (case parse_level a of None \<Rightarrow> Inl (Exited EXIT_FAILURE)
      | Some l \<Rightarrow> Inr (opts\<lparr>op_level := l, op_level_overridden := True\<rparr>))"
  "handle_option (CHR ''O'') a opts = Inr (opts\<lparr>op_log_file := Some a\<rparr>)"
  "handle_option (CHR ''V'') a opts =
     (case parse_level a of None \<Rightarrow> Inl (Exited 1) | Some l \<Rightarrow> Inr (opts\<lparr>op_log_file_level := l\<rparr>))"
  "handle_option (CHR ''S'') a opts = Inr (opts\<lparr>op_skip_i3_check := True\<rparr>)"
  "handle_option (CHR ''D'') a opts =
     (if op_parsing_mode opts = STRICT \<or> a \<noteq> ''wine'' then Inl (Exited 1)
      else Inr (opts\<lparr>op_parsing_mode := QUIRKS, op_wine := True\<rparr>))"
  "handle_option (CHR ''R'') a opts =
     (if op_parsing_mode opts = QUIRKS then Inl (Exited 1)
      else Inr (opts\<lparr>op_parsing_mode := STRICT, op_wine := False\<rparr>))"
  "handle_option (CHR ''E'') a opts = Inl (Exited EXIT_SUCCESS)"
  by (simp_all add: handle_option_def del: parse_level.simps parse_term_mode.simps)

lemma handle_option_other:
  "c \<notin> set ''dxtThbfnlpweWiIvoOVSDRE'' \<Longrightarrow> handle_option c a opts = Inl (Exited 1)"
  by (simp add: handle_option_def)

declare parse_level.simps [simp del] parse_term_mode.simps [simp del]

lemma handle_option_meaning:
  assumes "\<not> (given (CHR ''D'') args \<and> given (CHR ''R'') args)"
  shows "case handle_option c a (meaning args) of
     Inl _ \<Rightarrow> \<not> acceptable (c, a) \<or> c = CHR ''D'' \<and> given (CHR ''R'') args \<or>
       c = CHR ''R'' \<and> given (CHR ''D'') args
   | Inr opts \<Rightarrow> acceptable (c, a) \<and> \<not> (c = CHR ''D'' \<and> given (CHR ''R'') args) \<and>
       \<not> (c = CHR ''R'' \<and> given (CHR ''D'') args) \<and> opts = meaning (args @ [(c, a)])"
proof (cases "c \<in> set ''dxtThbfnlpweWiIvoOVSDRE''")
  case True
  then have "c = CHR ''d'' \<or> c = CHR ''x'' \<or> c = CHR ''t'' \<or> c = CHR ''T'' \<or> c = CHR ''h'' \<or> c = CHR ''b'' \<or>
      c = CHR ''f'' \<or> c = CHR ''n'' \<or> c = CHR ''l'' \<or> c = CHR ''p'' \<or> c = CHR ''w'' \<or> c = CHR ''e'' \<or>
      c = CHR ''W'' \<or> c = CHR ''i'' \<or> c = CHR ''I'' \<or> c = CHR ''v'' \<or> c = CHR ''o'' \<or> c = CHR ''O'' \<or>
      c = CHR ''V'' \<or> c = CHR ''S'' \<or> c = CHR ''D'' \<or> c = CHR ''R'' \<or> c = CHR ''E''" by simp
  then show ?thesis using assms
    by (elim disjE) (simp_all add: handle_option_branches acceptable_def meaning_def split: option.split)
next
  case False
  then show ?thesis by (simp add: handle_option_other acceptable_def)
qed

lemma handle_option_exits: "handle_option c a opts = Inl e \<Longrightarrow> \<exists>n. e = Exited n"
  by (simp add: handle_option_def split: if_splits option.splits, auto)

text \<open>C28: the options are accepted exactly when each is known and has a valid argument (and none of them
  asks for help or the version) and not both \<open>--strict-parsing\<close> and \<open>--desktop-file-quirks\<close> are
  given. An accepted command line means what its options say, in any order: of an option with an
  argument the last one counts, Wine mode is on unless parsing is strict, and every \<open>-v\<close> counts. Any
  other command line makes the program exit before it does anything.\<close>

theorem options_meaning:
  "if accepted args then parse_options args default_options = Inr (meaning args)
   else \<exists>n. parse_options args default_options = Inl (Exited n)"
proof (induction args rule: rev_induct)
  case Nil
  then show ?case by (simp add: accepted_def meaning_Nil)
next
  case (snoc e args)
  obtain c a where e: "e = (c, a)" by force
  show ?case
  proof (cases "accepted args")
    case False
    then have "\<not> accepted (args @ [e])" by (auto simp: accepted_def)
    with snoc False show ?thesis by (auto simp: e parse_options_snoc)
  next
    case True
    then have "\<not> (given (CHR ''D'') args \<and> given (CHR ''R'') args)" by (simp add: accepted_def)
    from handle_option_meaning [OF this, of c a] snoc True handle_option_exits [of c a "meaning args"]
    show ?thesis
      by (cases "handle_option c a (meaning args)") (auto simp: e parse_options_snoc accepted_def)
  qed
qed

section \<open>Logging\<close>

text \<open>Which messages a sink gets, through the level of the logger and the level of the sink.\<close>

definition reaches_stderr :: "logging \<Rightarrow> log_level \<Rightarrow> bool" where
  "reaches_stderr lg l \<longleftrightarrow>
     lg_logger lg \<le> l \<and> (case lg_stderr lg of None \<Rightarrow> True | Some level \<Rightarrow> level \<le> l)"

definition reaches_file :: "logging \<Rightarrow> log_level \<Rightarrow> bool" where
  "reaches_file lg l \<longleftrightarrow>
     lg_logger lg \<le> l \<and> (case lg_file lg of None \<Rightarrow> False | Some (path, level) \<Rightarrow> level \<le> l)"

text \<open>The level of the file does not change what is seen on the terminal, nor the other way round.\<close>

lemma log_routing:
  "reaches_stderr (configure_logging opts) l \<longleftrightarrow> stderr_level opts \<le> l"
  "reaches_file (configure_logging opts) l \<longleftrightarrow> op_log_file opts \<noteq> None \<and> op_log_file_level opts \<le> l"
  by (auto simp: reaches_stderr_def reaches_file_def configure_logging_def min_le_iff_disj split: option.split)

end
