(* ===== verification/FileFinder.thy ===== *)
theory FileFinder
  imports AppManager "HOL-Library.Word"
begin

text \<open>
  \<open>src/FileFinder.cc\<close>, the walk over the files below a directory, and its use by
  \<open>collect_files\<close> of \<open>src/main.cc\<close>. The file system is what \<open>readdir\<close> and \<open>stat\<close> answer. The
  walk follows symbolic links, so it need not end: the loop around it may be \<open>None\<close>.
\<close>

section \<open>The walk\<close>

record file_system =
  fs_readdir :: "string \<Rightarrow> (nat \<times> string) list option"
  fs_is_directory :: "string \<Rightarrow> bool"

text \<open>The top of the stack is its head; the back of the vector of entries is its last element.\<close>

record FileFinder =
  ff_done :: bool
  ff_dirstack :: "string list"
  ff_direntries :: "(nat \<times> string) list"
  ff_curpath :: string
  ff_curisdir :: bool
  ff_curdir :: string

definition FileFinder_ctor :: "string \<Rightarrow> FileFinder" where
  "FileFinder_ctor path =
     \<lparr>ff_done = False, ff_dirstack = [path], ff_direntries = [], ff_curpath = [],
      ff_curisdir = False, ff_curdir = []\<rparr>"

text \<open>\<open>opendir\<close>, with the entries the directory will give.\<close>

definition FileFinder_opendir ::
  "file_system \<Rightarrow> FileFinder \<Rightarrow> fault + FileFinder \<times> (nat \<times> string) list" where
  "FileFinder_opendir fs f =
     (case ff_dirstack f of
        [] \<Rightarrow> Inr (f\<lparr>ff_done := True\<rparr>, [])
      | d # ds \<Rightarrow>
          (case fs_readdir fs d of
             None \<Rightarrow> Inl (Runtime_error (d @ '': opendir() failed''))
           | Some entries \<Rightarrow>
               Inr (f\<lparr>ff_curdir := d, ff_dirstack := ds, ff_direntries := []\<rparr>, entries)))"

definition visible :: "string \<Rightarrow> bool" where
  "visible name \<longleftrightarrow> \<not> startswith name ''.''"

text \<open>Sorted by descending inode; the order of equal inodes is the one \<open>readdir\<close> gave, reversed.\<close>

definition sorted_entries :: "(nat \<times> string) list \<Rightarrow> (nat \<times> string) list" where
  "sorted_entries entries = rev (sort_key fst (filter (\<lambda>e. visible (snd e)) entries))"

definition FileFinder_pop :: "file_system \<Rightarrow> FileFinder \<Rightarrow> FileFinder" where
  "FileFinder_pop fs f =
     (let curpath = ff_curdir f @ snd (last (ff_direntries f));
          curisdir = fs_is_directory fs curpath
      in f\<lparr>ff_curpath := curpath, ff_curisdir := curisdir,
           ff_direntries := butlast (ff_direntries f),
           ff_dirstack := (if curisdir then (curpath @ ''/'') # ff_dirstack f else ff_dirstack f)\<rparr>)"

function FileFinder_next :: "file_system \<Rightarrow> FileFinder \<Rightarrow> fault + FileFinder" where
  "FileFinder_next fs f =
     (if ff_direntries f = [] then
        (case FileFinder_opendir fs f of
           Inl e \<Rightarrow> Inl e
         | Inr (f', entries) \<Rightarrow>
             if ff_done f' then Inr f'
             else if ff_dirstack f = [] then Inr f'
             else FileFinder_next fs (f'\<lparr>ff_direntries := sorted_entries entries\<rparr>))
      else Inr (FileFinder_pop fs f))"
  by pat_completeness auto
termination
  by (relation "measure (\<lambda>(fs, f). length (ff_dirstack f))")
    (auto simp: FileFinder_opendir_def split: list.splits option.splits)

declare FileFinder_next.simps [simp del]

text \<open>The loop \<open>while (++finder)\<close> with its body.\<close>

partial_function (option) find_each ::
  "file_system \<Rightarrow> (string \<Rightarrow> bool \<Rightarrow> 's \<Rightarrow> 's) \<Rightarrow> FileFinder \<Rightarrow> 's \<Rightarrow> (fault + 's) option" where
  "find_each fs body f s =
     (case FileFinder_next fs f of
        Inl e \<Rightarrow> Some (Inl e)
      | Inr f' \<Rightarrow>
          if ff_done f' then Some (Inr s)
          else find_each fs body f' (body (ff_curpath f') (ff_curisdir f') s))"

section \<open>Collecting the desktop files\<close>

definition keep_desktop_file :: "string \<Rightarrow> bool \<Rightarrow> string list \<Rightarrow> string list" where
  "keep_desktop_file path isdir found =
     (if isdir \<or> \<not> endswith path ''.desktop'' then found else found @ [path])"

fun collect_loop ::
  "file_system \<Rightarrow> string list \<Rightarrow> Desktop_file_rank list \<Rightarrow> (fault + Desktop_file_rank list) option" where
  "collect_loop fs [] result = Some (Inr result)"
| "collect_loop fs (base # search_path) result =
     (case find_each fs keep_desktop_file (FileFinder_ctor base) [] of
        None \<Rightarrow> None
      | Some (Inl e) \<Rightarrow> Some (Inl e)
      | Some (Inr found) \<Rightarrow>
          collect_loop fs search_path (result @ [\<lparr>base_path = base, rank_files = found\<rparr>]))"

definition collect_files :: "file_system \<Rightarrow> string list \<Rightarrow> (fault + Desktop_file_rank list) option" where
  "collect_files fs search_path = collect_loop fs search_path []"

definition count_collected_desktop_files :: "Desktop_file_rank list \<Rightarrow> 32 word" where
  "count_collected_desktop_files files =
     fold (\<lambda>rank result. result + word_of_nat (length (rank_files rank))) files 0"

section \<open>What is below a directory\<close>

inductive below :: "file_system \<Rightarrow> string \<Rightarrow> string \<Rightarrow> bool" for fs where
  below_entry: "fs_readdir fs d = Some es \<Longrightarrow> (i, n) \<in> set es \<Longrightarrow> visible n \<Longrightarrow> below fs d (d @ n)"
| below_deeper: "fs_readdir fs d = Some es \<Longrightarrow> (i, n) \<in> set es \<Longrightarrow> visible n \<Longrightarrow>
    fs_is_directory fs (d @ n) \<Longrightarrow> below fs (d @ n @ ''/'') p \<Longrightarrow> below fs d p"

text \<open>A directory whose tree is finite, and where every directory can be read.\<close>

inductive finite_tree :: "file_system \<Rightarrow> string \<Rightarrow> bool" for fs where
  finite_tree: "fs_readdir fs d = Some es \<Longrightarrow>
    (\<And>i n. (i, n) \<in> set es \<Longrightarrow> visible n \<Longrightarrow> fs_is_directory fs (d @ n) \<Longrightarrow>
      finite_tree fs (d @ n @ ''/'')) \<Longrightarrow> finite_tree fs d"

text \<open>What the kernel promises of names: those of a directory differ, and none holds a slash.\<close>

definition names_ok :: "file_system \<Rightarrow> bool" where
  "names_ok fs \<longleftrightarrow>
     (\<forall>d es. fs_readdir fs d = Some es \<longrightarrow>
        distinct (map snd es) \<and> (\<forall>(i, n) \<in> set es. CHR ''/'' \<notin> set n))"

lemma below_prefix: "below fs d p \<Longrightarrow> prefix d p"
  by (induction rule: below.induct) (auto simp: prefix_def)

lemma below_iff:
  assumes "fs_readdir fs d = Some es"
  shows "below fs d p \<longleftrightarrow>
    (\<exists>i n. (i, n) \<in> set es \<and> visible n \<and>
       (p = d @ n \<or> fs_is_directory fs (d @ n) \<and> below fs (d @ n @ ''/'') p))"
  using assms by (subst below.simps) auto

section \<open>The walk visits what is below\<close>

definition idle :: "FileFinder \<Rightarrow> string list \<Rightarrow> bool" where
  "idle f ds \<longleftrightarrow> \<not> ff_done f \<and> ff_direntries f = [] \<and> ff_dirstack f = ds"

definition subdirs :: "file_system \<Rightarrow> string \<Rightarrow> string list \<Rightarrow> string list" where
  "subdirs fs d ns = map (\<lambda>n. d @ n @ ''/'') (filter (\<lambda>n. fs_is_directory fs (d @ n)) ns)"

definition visit_all :: "file_system \<Rightarrow> (string \<Rightarrow> bool \<Rightarrow> 's \<Rightarrow> 's) \<Rightarrow> string list \<Rightarrow> 's \<Rightarrow> 's" where
  "visit_all fs body ps s = fold (\<lambda>p. body p (fs_is_directory fs p)) ps s"

lemma visit_all_append: "visit_all fs body (ps @ qs) s = visit_all fs body qs (visit_all fs body ps s)"
  by (simp add: visit_all_def)

lemma find_each_stop: "idle f [] \<Longrightarrow> find_each fs body f s = Some (Inr s)"
  by (subst find_each.simps, subst FileFinder_next.simps) (simp add: idle_def FileFinder_opendir_def)

lemma find_each_open:
  assumes "idle f (d # ds)" "fs_readdir fs d = Some es"
  shows "find_each fs body f s =
    find_each fs body (f\<lparr>ff_curdir := d, ff_dirstack := ds, ff_direntries := sorted_entries es\<rparr>) s"
proof -
  have "FileFinder_next fs f =
      FileFinder_next fs (f\<lparr>ff_curdir := d, ff_dirstack := ds, ff_direntries := sorted_entries es\<rparr>)"
    using assms by (subst FileFinder_next.simps) (simp add: idle_def FileFinder_opendir_def)
  then show ?thesis by (subst (1 2) find_each.simps) simp
qed

lemma find_each_pop:
  assumes "ff_direntries f \<noteq> []" "\<not> ff_done f"
  shows "find_each fs body f s =
    find_each fs body (FileFinder_pop fs f)
      (body (ff_curpath (FileFinder_pop fs f)) (ff_curisdir (FileFinder_pop fs f)) s)"
proof -
  have "FileFinder_next fs f = Inr (FileFinder_pop fs f)"
    using assms by (simp add: FileFinder_next.simps)
  moreover have "\<not> ff_done (FileFinder_pop fs f)"
    using assms by (simp add: FileFinder_pop_def Let_def)
  ultimately show ?thesis by (subst find_each.simps) simp
qed

lemma find_each_entries:
  "\<not> ff_done f \<Longrightarrow> ff_direntries f = rev xs \<Longrightarrow> ff_curdir f = d \<Longrightarrow>
     \<exists>f'. idle f' (rev (subdirs fs d (map snd xs)) @ ff_dirstack f) \<and>
       find_each fs body f s = find_each fs body f' (visit_all fs body (map (\<lambda>e. d @ snd e) xs) s)"
proof (induction xs arbitrary: f s)
  case Nil
  then show ?case by (auto simp: idle_def subdirs_def visit_all_def)
next
  case (Cons x xs)
  let ?f = "FileFinder_pop fs f"
  have p: "ff_curpath ?f = d @ snd x" "ff_curisdir ?f = fs_is_directory fs (d @ snd x)" "\<not> ff_done ?f"
    "ff_direntries ?f = rev xs" "ff_curdir ?f = d"
    "rev (subdirs fs d (map snd xs)) @ ff_dirstack ?f = rev (subdirs fs d (map snd (x # xs))) @ ff_dirstack f"
    using Cons.prems by (auto simp: FileFinder_pop_def Let_def butlast_append subdirs_def)
  have "find_each fs body f s = find_each fs body ?f (body (d @ snd x) (fs_is_directory fs (d @ snd x)) s)"
    using find_each_pop [of f fs body s] Cons.prems p(1,2) by simp
  with Cons.IH [OF p(3-5)] p(6) show ?case by (auto simp: visit_all_def)
qed

text \<open>\<open>ps\<close> are the paths the walk visits below a directory that is next on the stack.\<close>

definition walks :: "file_system \<Rightarrow> (string \<Rightarrow> bool \<Rightarrow> 's \<Rightarrow> 's) \<Rightarrow> string list \<Rightarrow> string list \<Rightarrow> bool" where
  "walks fs body ds ps \<longleftrightarrow>
     (\<forall>f s rest. idle f (ds @ rest) \<longrightarrow>
        (\<exists>f'. idle f' rest \<and> find_each fs body f s = find_each fs body f' (visit_all fs body ps s)))"

lemma walks_Nil: "walks fs body [] []"
  by (auto simp: walks_def visit_all_def)

lemma walks_append:
  "walks fs body ds ps \<Longrightarrow> walks fs body es qs \<Longrightarrow> walks fs body (ds @ es) (ps @ qs)"
  unfolding walks_def visit_all_append append_assoc by metis

lemma walks_concat:
  "(\<And>d. d \<in> set ds \<Longrightarrow> walks fs body [d] (g d)) \<Longrightarrow> walks fs body ds (concat (map g ds))"
proof (induction ds)
  case (Cons d ds)
  then show ?case using walks_append [of fs body "[d]" "g d" ds] by simp
qed (simp add: walks_Nil)

lemma walks_open:
  assumes "fs_readdir fs d = Some es" and "ns = map snd (rev (sorted_entries es))"
    and "walks fs body (rev (subdirs fs d ns)) ps"
  shows "walks fs body [d] (map (\<lambda>n. d @ n) ns @ ps)"
  unfolding walks_def
proof (intro allI impI)
  fix f s rest assume f: "idle f ([d] @ rest)"
  let ?f = "f\<lparr>ff_curdir := d, ff_dirstack := rest, ff_direntries := sorted_entries es\<rparr>"
  have "\<exists>f'. idle f' (rev (subdirs fs d (map snd (rev (sorted_entries es)))) @ ff_dirstack ?f) \<and>
      find_each fs body ?f s =
        find_each fs body f' (visit_all fs body (map (\<lambda>e. d @ snd e) (rev (sorted_entries es))) s)"
    using f by (intro find_each_entries) (simp_all add: idle_def)
  then obtain f1 where f1: "idle f1 (rev (subdirs fs d ns) @ rest)"
      "find_each fs body ?f s = find_each fs body f1 (visit_all fs body (map (\<lambda>n. d @ n) ns) s)"
    using assms(2) by (auto simp: comp_def)
  obtain f2 where "idle f2 rest"
      "find_each fs body f1 (visit_all fs body (map (\<lambda>n. d @ n) ns) s) =
        find_each fs body f2 (visit_all fs body ps (visit_all fs body (map (\<lambda>n. d @ n) ns) s))"
    using assms(3) f1(1) unfolding walks_def by blast
  with f1(2) find_each_open [OF f [simplified] assms(1), of body s]
  show "\<exists>f'. idle f' rest \<and>
      find_each fs body f s = find_each fs body f' (visit_all fs body (map (\<lambda>n. d @ n) ns @ ps) s)"
    by (auto simp: visit_all_append)
qed

definition opened_names :: "(nat \<times> string) list \<Rightarrow> string list" where
  "opened_names es = map snd (rev (sorted_entries es))"

lemma set_opened_names: "set (opened_names es) = {n. visible n \<and> (\<exists>i. (i, n) \<in> set es)}"
  by (force simp: opened_names_def sorted_entries_def)

lemma distinct_opened_names:
  assumes "distinct (map snd es)"
  shows "distinct (opened_names es)"
proof -
  have "mset (opened_names es) = mset (map snd (filter (\<lambda>e. visible (snd e)) es))"
    by (simp add: opened_names_def sorted_entries_def)
  with distinct_map_filter [OF assms] show ?thesis using mset_eq_imp_distinct_iff by blast
qed

lemma set_subdirs: "set (subdirs fs d ns) = {d @ n @ ''/'' | n. n \<in> set ns \<and> fs_is_directory fs (d @ n)}"
  by (auto simp: subdirs_def)

lemma below_opened:
  assumes "fs_readdir fs d = Some es"
  shows "{p. below fs d p} =
    (\<lambda>n. d @ n) ` set (opened_names es) \<union>
    (\<Union>x \<in> set (subdirs fs d (opened_names es)). {p. below fs x p})"
  unfolding below_iff [OF assms] set_subdirs set_opened_names by auto

lemma slash_split:
  "CHR ''/'' \<notin> set n \<Longrightarrow> CHR ''/'' \<notin> set m \<Longrightarrow> prefix (d @ n @ ''/'') p \<Longrightarrow> prefix (d @ m @ ''/'') p \<Longrightarrow> n = m"
  by (auto simp: prefix_def dest!: append_same_sep)

lemma distinct_concat_map:
  "distinct xs \<Longrightarrow> (\<And>x. x \<in> set xs \<Longrightarrow> distinct (g x)) \<Longrightarrow>
     (\<And>x y p. x \<in> set xs \<Longrightarrow> y \<in> set xs \<Longrightarrow> p \<in> set (g x) \<Longrightarrow> p \<in> set (g y) \<Longrightarrow> x = y) \<Longrightarrow>
     distinct (concat (map g xs))"
proof (induction xs)
  case (Cons x xs)
  have "distinct (concat (map g xs))" using Cons.prems by (intro Cons.IH) auto
  moreover have "set (g x) \<inter> set (concat (map g xs)) = {}"
  proof (rule equals0I)
    fix p assume "p \<in> set (g x) \<inter> set (concat (map g xs))"
    then obtain y where "y \<in> set xs" "p \<in> set (g x)" "p \<in> set (g y)" by auto
    with Cons.prems(1) Cons.prems(3) [of x y p] show False by auto
  qed
  ultimately show ?case using Cons.prems(2) by simp
qed simp

lemma distinct_walk:
  assumes ns: "distinct ns" "\<forall>n \<in> set ns. CHR ''/'' \<notin> set n"
    and g: "\<And>x. x \<in> set (subdirs fs d ns) \<Longrightarrow> set (g x) = {p. below fs x p} \<and> distinct (g x)"
  shows "distinct (map (\<lambda>n. d @ n) ns @ concat (map g (rev (subdirs fs d ns))))"
proof -
  have apart: "x = y" if "x \<in> set (subdirs fs d ns)" "y \<in> set (subdirs fs d ns)" "p \<in> set (g x)" "p \<in> set (g y)" for x y p
  proof -
    from that g have "prefix x p" "prefix y p" using below_prefix by blast+
    with that(1,2) ns(2) show ?thesis by (auto simp: set_subdirs dest: slash_split)
  qed
  have entry: "d @ n \<notin> set (g x)" if "n \<in> set ns" "x \<in> set (subdirs fs d ns)" for n x
  proof
    assume "d @ n \<in> set (g x)"
    with g that(2) have "prefix x (d @ n)" using below_prefix by blast
    with that(2) have "CHR ''/'' \<in> set n" by (auto simp: set_subdirs prefix_def)
    with ns(2) that(1) show False by blast
  qed
  have "distinct (subdirs fs d ns)"
    using ns(1) by (simp add: subdirs_def distinct_map inj_on_def)
  then have "distinct (concat (map g (rev (subdirs fs d ns))))"
    using g apart by (intro distinct_concat_map) auto
  then show ?thesis
    using ns(1) entry by (auto simp: distinct_map inj_on_def)
qed

lemma tree_walk:
  assumes "finite_tree fs d" "names_ok fs"
  shows "\<exists>ps. walks fs body [d] ps \<and> set ps = {p. below fs d p} \<and> distinct ps"
  using assms
proof (induction rule: finite_tree.induct)
  case (finite_tree d es)
  let ?ns = "opened_names es"
  have "\<exists>ps. walks fs body [x] ps \<and> set ps = {p. below fs x p} \<and> distinct ps"
    if "x \<in> set (subdirs fs d ?ns)" for x
    using that finite_tree.IH finite_tree.prems by (auto simp: set_subdirs set_opened_names)
  then obtain g where g: "\<And>x. x \<in> set (subdirs fs d ?ns) \<Longrightarrow>
      walks fs body [x] (g x) \<and> set (g x) = {p. below fs x p} \<and> distinct (g x)"
    by metis
  let ?ps = "map (\<lambda>n. d @ n) ?ns @ concat (map g (rev (subdirs fs d ?ns)))"
  have "walks fs body (rev (subdirs fs d ?ns)) (concat (map g (rev (subdirs fs d ?ns))))"
    using g by (intro walks_concat) simp
  from walks_open [OF finite_tree.hyps(1) opened_names_def this] have "walks fs body [d] ?ps" .
  moreover have "set ?ps = {p. below fs d p}"
    using g by (simp add: below_opened [OF finite_tree.hyps(1)])
  moreover have "distinct (map snd es)" "\<forall>n \<in> set ?ns. CHR ''/'' \<notin> set n"
    using finite_tree.prems finite_tree.hyps(1) by (fastforce simp: names_ok_def set_opened_names)+
  then have "distinct ?ps"
    using g distinct_opened_names by (intro distinct_walk) auto
  ultimately show ?case by blast
qed

lemma find_each_tree:
  assumes "finite_tree fs d" "names_ok fs"
  shows "\<exists>ps. find_each fs body (FileFinder_ctor d) s = Some (Inr (visit_all fs body ps s)) \<and>
    set ps = {p. below fs d p} \<and> distinct ps"
proof -
  obtain ps where ps: "walks fs body [d] ps" "set ps = {p. below fs d p}" "distinct ps"
    using tree_walk [OF assms] by blast
  have "idle (FileFinder_ctor d) ([d] @ [])" by (simp add: idle_def FileFinder_ctor_def)
  with ps(1) obtain f' where "idle f' []"
      "find_each fs body (FileFinder_ctor d) s = find_each fs body f' (visit_all fs body ps s)"
    unfolding walks_def by blast
  with ps(2,3) find_each_stop [of f' fs body] show ?thesis by auto
qed

definition desktop_files :: "file_system \<Rightarrow> string \<Rightarrow> string set" where
  "desktop_files fs d =
     {p. below fs d p \<and> \<not> fs_is_directory fs p \<and> suffix ''.desktop'' p}"

lemma visit_keep_desktop_file:
  "visit_all fs keep_desktop_file ps found =
     found @ filter (\<lambda>p. \<not> fs_is_directory fs p \<and> suffix ''.desktop'' p) ps"
  by (induction ps arbitrary: found) (auto simp: visit_all_def keep_desktop_file_def endswith_iff)

lemma collect_loop_spec:
  assumes "names_ok fs"
  shows "\<forall>d \<in> set search_path. finite_tree fs d \<Longrightarrow>
    \<exists>ranks. collect_loop fs search_path result = Some (Inr (result @ ranks)) \<and>
      map base_path ranks = search_path \<and>
      (\<forall>r \<in> set ranks. distinct (rank_files r) \<and> set (rank_files r) = desktop_files fs (base_path r))"
proof (induction search_path arbitrary: result)
  case (Cons d ds)
  obtain ps where ps: "find_each fs keep_desktop_file (FileFinder_ctor d) [] =
      Some (Inr (visit_all fs keep_desktop_file ps []))" "set ps = {p. below fs d p}" "distinct ps"
    using find_each_tree [of fs d keep_desktop_file "[]"] Cons.prems assms by auto
  let ?r = "\<lparr>base_path = d, rank_files = visit_all fs keep_desktop_file ps []\<rparr>"
  obtain ranks where "collect_loop fs ds (result @ [?r]) = Some (Inr ((result @ [?r]) @ ranks))"
      "map base_path ranks = ds"
      "\<forall>r \<in> set ranks. distinct (rank_files r) \<and> set (rank_files r) = desktop_files fs (base_path r)"
    using Cons.IH [of "result @ [?r]"] Cons.prems by auto
  then show ?case
    using ps by (intro exI [of _ "?r # ranks"]) (auto simp: visit_keep_desktop_file desktop_files_def)
qed simp

text \<open>C25: when the trees below the search path are finite (no cycle of symbolic links) and every
  directory can be read, the collection of desktop files ends, with one rank for each directory of
  the search path, in its order; each holds every desktop file below that directory which is not
  hidden, neither itself nor through a directory above it, and each one once.\<close>

theorem collect_files_complete:
  assumes "names_ok fs" "\<forall>d \<in> set search_path. finite_tree fs d"
  shows "\<exists>ranks. collect_files fs search_path = Some (Inr ranks) \<and> map base_path ranks = search_path \<and>
    (\<forall>r \<in> set ranks. distinct (rank_files r) \<and> set (rank_files r) = desktop_files fs (base_path r))"
  using collect_loop_spec [OF assms, of "[]"] by (simp add: collect_files_def)

definition sample_fs :: file_system where
  "sample_fs =
     \<lparr>fs_readdir = (\<lambda>d.
        if d = ''/a/'' then Some [(7, ''.''), (3, ''x.desktop''), (5, ''kde''), (2, ''README'')]
        else if d = ''/a/kde/'' then Some [(9, ''y.desktop''), (1, ''.z.desktop'')]
        else None),
      fs_is_directory = (\<lambda>p. p = ''/a/kde'')\<rparr>"

lemma sample_fs_simps [simp]:
  "fs_readdir sample_fs ''/a/'' = Some [(7, ''.''), (3, ''x.desktop''), (5, ''kde''), (2, ''README'')]"
  "fs_readdir sample_fs ''/a/kde/'' = Some [(9, ''y.desktop''), (1, ''.z.desktop'')]"
  "fs_is_directory sample_fs p \<longleftrightarrow> p = ''/a/kde''"
  by (simp_all add: sample_fs_def)

lemma sample_fs_below:
  "{p. below sample_fs ''/a/kde/'' p} = {''/a/kde/y.desktop''}"
  "{p. below sample_fs ''/a/'' p} = {''/a/x.desktop'', ''/a/kde'', ''/a/README'', ''/a/kde/y.desktop''}"
proof -
  have "opened_names [(9, ''y.desktop''), (1, ''.z.desktop'')] = [''y.desktop'']" by code_simp
  then show kde: "{p. below sample_fs ''/a/kde/'' p} = {''/a/kde/y.desktop''}"
    by (subst below_opened [OF sample_fs_simps(2)]) (simp add: subdirs_def)
  have "opened_names [(7, ''.''), (3, ''x.desktop''), (5, ''kde''), (2, ''README'')] =
      [''README'', ''x.desktop'', ''kde'']" by code_simp
  then show "{p. below sample_fs ''/a/'' p} = {''/a/x.desktop'', ''/a/kde'', ''/a/README'', ''/a/kde/y.desktop''}"
    by (subst below_opened [OF sample_fs_simps(1)]) (simp add: subdirs_def kde, blast)
qed

lemma sample_fs_names: "names_ok sample_fs"
  by (auto simp: names_ok_def sample_fs_def split: if_splits)

lemma sample_fs_finite: "finite_tree sample_fs ''/a/''"
proof -
  have "finite_tree sample_fs ''/a/kde/''"
    by (rule finite_tree.intros [OF sample_fs_simps(2)]) simp
  then show ?thesis by (intro finite_tree.intros [OF sample_fs_simps(1)]) auto
qed

theorem collect_files_complete_witness:
  "\<exists>r. collect_files sample_fs [''/a/''] = Some (Inr [r]) \<and> base_path r = ''/a/'' \<and>
     set (rank_files r) = {''/a/x.desktop'', ''/a/kde/y.desktop''}"
proof -
  have "\<forall>d \<in> set [''/a/'']. finite_tree sample_fs d" using sample_fs_finite by simp
  from collect_files_complete [OF sample_fs_names this] obtain r where
    "collect_files sample_fs [''/a/''] = Some (Inr [r])" "base_path r = ''/a/''"
    "set (rank_files r) = desktop_files sample_fs ''/a/''"
    by auto
  moreover have "desktop_files sample_fs ''/a/'' = {''/a/x.desktop'', ''/a/kde/y.desktop''}"
    unfolding desktop_files_def Collect_conj_eq sample_fs_below by (auto simp: suffix_def)
  ultimately show ?thesis by auto
qed

end
