(* ===== verification/NotifyInotify.thy ===== *)
theory NotifyInotify
  imports FileFinder UnorderedMap
begin

text \<open>
  \<open>src/NotifyBase.hh\<close>, the changes a notifier reports, and \<open>src/NotifyInotify.cc\<close>, the notifier
  of Linux. What \<open>inotify_add_watch\<close> answers for a path, and the events the kernel queues, are
  arguments. The kernel gives one descriptor to one directory, whatever the path to it.
\<close>

datatype changetype = modified | deleted

record FileChange =
  fc_rank :: int
  fc_name :: string
  fc_status :: changetype

section \<open>The constructor\<close>

record directory_entry =
  de_rank :: int
  de_path :: string

record NotifyInotify =
  ni_directories :: "(int \<times> directory_entry) list"

type_synonym add_watch = "string \<Rightarrow> int"

text \<open>
  The loop over the files below one directory of the search path. The answer of
  \<open>inotify_add_watch\<close> is not tested here. The element is inserted, so it does not replace one of
  the same descriptor.
\<close>

definition watch_subdir ::
  "add_watch \<Rightarrow> int \<Rightarrow> string \<Rightarrow> string \<Rightarrow> bool \<Rightarrow> (int \<times> directory_entry) list \<Rightarrow>
     (int \<times> directory_entry) list" where
  "watch_subdir add_watch i base path isdir directories =
     (if \<not> isdir then directories
      else um_try_emplace (add_watch path)
        \<lparr>de_rank = i, de_path = drop (length base) path @ ''/''\<rparr> directories)"

fun watch_loop ::
  "file_system \<Rightarrow> add_watch \<Rightarrow> int \<Rightarrow> string list \<Rightarrow> (int \<times> directory_entry) list \<Rightarrow>
     (fault + (int \<times> directory_entry) list) option" where
  "watch_loop fs add_watch i [] directories = Some (Inr directories)"
| "watch_loop fs add_watch i (base # search_path) directories =
     (if add_watch base = -1 then Some (Inl (Exited EXIT_FAILURE))
      else
        case find_each fs (watch_subdir add_watch i base) (FileFinder_ctor base)
            (um_try_emplace (add_watch base) \<lparr>de_rank = i, de_path = []\<rparr> directories) of
          None \<Rightarrow> None
        | Some (Inl e) \<Rightarrow> Some (Inl e)
        | Some (Inr directories') \<Rightarrow> watch_loop fs add_watch (i + 1) search_path directories')"

definition NotifyInotify_ctor ::
  "file_system \<Rightarrow> add_watch \<Rightarrow> string list \<Rightarrow> (fault + NotifyInotify) option" where
  "NotifyInotify_ctor fs add_watch search_path =
     map_option (map_sum id (\<lambda>directories. \<lparr>ni_directories = directories\<rparr>))
       (watch_loop fs add_watch 0 search_path [])"

section \<open>The events\<close>

record inotify_event =
  ev_wd :: int
  ev_modify :: bool
  ev_moved_to :: bool
  ev_name :: string

text \<open>One event; \<open>directories.at\<close> throws for a descriptor it does not know.\<close>

definition change_of :: "NotifyInotify \<Rightarrow> inotify_event \<Rightarrow> fault + FileChange" where
  "change_of n event =
     (case um_find (ni_directories n) (ev_wd event) of
        None \<Rightarrow> Inl Out_of_range
      | Some dir \<Rightarrow>
          Inr \<lparr>fc_rank = de_rank dir, fc_name = de_path dir @ ev_name event,
               fc_status = (if ev_modify event \<or> ev_moved_to event then modified else deleted)\<rparr>)"

fun getchanges_loop :: "NotifyInotify \<Rightarrow> inotify_event list \<Rightarrow> FileChange list \<Rightarrow> fault + FileChange list" where
  "getchanges_loop n [] result = Inr result"
| "getchanges_loop n (event # events) result =
     (case change_of n event of
        Inl e \<Rightarrow> Inl e
      | Inr change \<Rightarrow> getchanges_loop n events (result @ [change]))"

definition NotifyInotify_getchanges :: "NotifyInotify \<Rightarrow> inotify_event list \<Rightarrow> fault + FileChange list" where
  "NotifyInotify_getchanges n events = getchanges_loop n events []"

section \<open>Facts\<close>

text \<open>The directories the constructor watches: those of the search path and all below them.\<close>

definition watched :: "file_system \<Rightarrow> string list \<Rightarrow> nat \<Rightarrow> string \<Rightarrow> string \<Rightarrow> bool" where
  "watched fs search_path k dir sub \<longleftrightarrow>
     k < length search_path \<and>
     (dir = search_path ! k \<and> sub = [] \<or>
      (\<exists>p. below fs (search_path ! k) p \<and> fs_is_directory fs p \<and> dir = p \<and>
         search_path ! k @ sub = p @ ''/''))"

text \<open>Every entry of the table belongs to a watched directory with that descriptor.\<close>

definition entries_sound ::
  "file_system \<Rightarrow> add_watch \<Rightarrow> string list \<Rightarrow> (int \<times> directory_entry) list \<Rightarrow> bool" where
  "entries_sound fs add_watch search_path m \<longleftrightarrow>
     (\<forall>wd e. um_find m wd = Some e \<longrightarrow>
        (\<exists>k dir. de_rank e = int k \<and> watched fs search_path k dir (de_path e) \<and> add_watch dir = wd))"

lemma um_find_emplace:
  "um_find (um_try_emplace k v m) x = (if x = k \<and> um_find m k = None then Some v else um_find m x)"
  by (rule um.find_try_emplace)

lemma um_find_emplace_grows:
  "um_find m x \<noteq> None \<Longrightarrow> um_find (um_try_emplace k v m) x \<noteq> None"
  by (simp add: um_find_emplace)

lemma entries_sound_emplace:
  assumes "entries_sound fs add_watch search_path m"
    and "watched fs search_path k dir sub" "wd = add_watch dir"
  shows "entries_sound fs add_watch search_path (um_try_emplace wd \<lparr>de_rank = int k, de_path = sub\<rparr> m)"
  using assms unfolding entries_sound_def um_find_emplace by auto

lemma visit_subdirs:
  assumes "\<forall>p \<in> set ps. below fs (search_path ! k) p" "k < length search_path"
    and "entries_sound fs add_watch search_path m"
  shows "entries_sound fs add_watch search_path
      (visit_all fs (watch_subdir add_watch (int k) (search_path ! k)) ps m) \<and>
    (\<forall>wd. um_find m wd \<noteq> None \<longrightarrow>
      um_find (visit_all fs (watch_subdir add_watch (int k) (search_path ! k)) ps m) wd \<noteq> None) \<and>
    (\<forall>p \<in> set ps. fs_is_directory fs p \<longrightarrow>
      um_find (visit_all fs (watch_subdir add_watch (int k) (search_path ! k)) ps m) (add_watch p) \<noteq> None)"
  using assms(1,3)
proof (induction ps arbitrary: m)
  case Nil
  then show ?case by (simp add: visit_all_def)
next
  case (Cons p ps)
  let ?m = "watch_subdir add_watch (int k) (search_path ! k) p (fs_is_directory fs p) m"
  obtain q where q: "p = search_path ! k @ q" using below_prefix [of fs "search_path ! k" p] Cons.prems(1) by (auto simp: prefix_def)
  have "entries_sound fs add_watch search_path ?m"
  proof (cases "fs_is_directory fs p")
    case True
    then have "watched fs search_path k p (drop (length (search_path ! k)) p @ ''/'')"
      using Cons.prems(1) assms(2) q by (auto simp: watched_def)
    with entries_sound_emplace [OF Cons.prems(2) this refl] True show ?thesis
      by (simp add: watch_subdir_def)
  qed (use Cons.prems(2) in \<open>simp add: watch_subdir_def\<close>)
  moreover have "um_find m wd \<noteq> None \<Longrightarrow> um_find ?m wd \<noteq> None" for wd
    by (simp add: watch_subdir_def um_find_emplace_grows del: not_None_eq)
  moreover have "fs_is_directory fs p \<Longrightarrow> um_find ?m (add_watch p) \<noteq> None"
    by (simp add: watch_subdir_def um_find_emplace)
  moreover have "visit_all fs (watch_subdir add_watch (int k) (search_path ! k)) (p # ps) m =
      visit_all fs (watch_subdir add_watch (int k) (search_path ! k)) ps ?m"
    by (simp add: visit_all_def)
  ultimately show ?case using Cons.IH [of ?m] Cons.prems(1) by auto
qed

lemma watch_loop_spec:
  assumes "names_ok fs" "search_path = pre @ rest"
    and "\<forall>d \<in> set rest. finite_tree fs d \<and> add_watch d \<noteq> -1"
    and "entries_sound fs add_watch search_path m"
  shows "\<exists>m'. watch_loop fs add_watch (int (length pre)) rest m = Some (Inr m') \<and>
    entries_sound fs add_watch search_path m' \<and>
    (\<forall>wd. um_find m wd \<noteq> None \<longrightarrow> um_find m' wd \<noteq> None) \<and>
    (\<forall>k d sub. length pre \<le> k \<longrightarrow> watched fs search_path k d sub \<longrightarrow> um_find m' (add_watch d) \<noteq> None)"
  using assms(2-4)
proof (induction rest arbitrary: pre m)
  case Nil
  then show ?case by (auto simp: watched_def)
next
  case (Cons base rest)
  let ?k = "length pre"
  have k: "search_path ! ?k = base" "?k < length search_path" using Cons.prems(1) by auto
  let ?m0 = "um_try_emplace (add_watch base) \<lparr>de_rank = int ?k, de_path = []\<rparr> m"
  have sound0: "entries_sound fs add_watch search_path ?m0"
    using k by (intro entries_sound_emplace [OF Cons.prems(3)]) (auto simp: watched_def)
  obtain ps where ps: "find_each fs (watch_subdir add_watch (int ?k) base) (FileFinder_ctor base) ?m0 =
      Some (Inr (visit_all fs (watch_subdir add_watch (int ?k) base) ps ?m0))"
      "set ps = {p. below fs base p}"
    using find_each_tree [of fs base "watch_subdir add_watch (int ?k) base" ?m0] Cons.prems(2) assms(1) by auto
  let ?m1 = "visit_all fs (watch_subdir add_watch (int ?k) base) ps ?m0"
  have v: "entries_sound fs add_watch search_path ?m1"
    "\<forall>wd. um_find ?m0 wd \<noteq> None \<longrightarrow> um_find ?m1 wd \<noteq> None"
    "\<forall>p \<in> set ps. fs_is_directory fs p \<longrightarrow> um_find ?m1 (add_watch p) \<noteq> None"
    using visit_subdirs [of ps fs search_path ?k add_watch ?m0] k ps(2) sound0 by auto
  obtain m' where m': "watch_loop fs add_watch (int (length (pre @ [base]))) rest ?m1 = Some (Inr m')"
      "entries_sound fs add_watch search_path m'"
      "\<forall>wd. um_find ?m1 wd \<noteq> None \<longrightarrow> um_find m' wd \<noteq> None"
      "\<forall>k d sub. length (pre @ [base]) \<le> k \<longrightarrow> watched fs search_path k d sub \<longrightarrow>
        um_find m' (add_watch d) \<noteq> None"
    using Cons.IH [of "pre @ [base]" ?m1] Cons.prems(1,2) v(1) by auto
  have "um_find m' (add_watch d) \<noteq> None" if "?k \<le> k'" "watched fs search_path k' d sub" for k' d sub
  proof (cases "k' = ?k")
    case True
    have "um_find ?m0 (add_watch base) \<noteq> None" by (simp add: um_find_emplace)
    with that(2) True k(1) ps(2) v(2,3) have "um_find ?m1 (add_watch d) \<noteq> None"
      by (auto simp: watched_def)
    with m'(3) show ?thesis by blast
  next
    case False
    with that m'(4) [rule_format, of k' d sub] show ?thesis by (simp del: not_None_eq)
  qed
  moreover have "watch_loop fs add_watch (int ?k) (base # rest) m = Some (Inr m')"
    using m'(1) ps(1) Cons.prems(2) by (simp add: add.commute)
  moreover have "\<forall>wd. um_find m wd \<noteq> None \<longrightarrow> um_find m' wd \<noteq> None"
    using um_find_emplace_grows v(2) m'(3) by metis
  ultimately show ?case using m'(2) by blast
qed

definition reported ::
  "file_system \<Rightarrow> add_watch \<Rightarrow> string list \<Rightarrow> inotify_event \<Rightarrow> FileChange \<Rightarrow> bool" where
  "reported fs add_watch search_path ev c \<longleftrightarrow>
     (\<exists>k d sub. watched fs search_path k d sub \<and> add_watch d = ev_wd ev \<and>
        c = \<lparr>fc_rank = int k, fc_name = sub @ ev_name ev,
             fc_status = (if ev_modify ev \<or> ev_moved_to ev then modified else deleted)\<rparr>)"

definition known_event :: "file_system \<Rightarrow> add_watch \<Rightarrow> string list \<Rightarrow> inotify_event \<Rightarrow> bool" where
  "known_event fs add_watch search_path ev \<longleftrightarrow>
     (\<exists>k d sub. watched fs search_path k d sub \<and> add_watch d = ev_wd ev)"

lemma getchanges_loop_spec:
  assumes "\<And>ev. ev \<in> set events \<Longrightarrow>
    if P ev then \<exists>c. change_of n ev = Inr c \<and> R ev c else change_of n ev = Inl Out_of_range"
  shows "if \<forall>ev \<in> set events. P ev
    then \<exists>cs. getchanges_loop n events result = Inr (result @ cs) \<and> list_all2 R events cs
    else getchanges_loop n events result = Inl Out_of_range"
  using assms
proof (induction events arbitrary: result)
  case (Cons ev events)
  show ?case
  proof (cases "P ev")
    case True
    then obtain c where c: "change_of n ev = Inr c" "R ev c" using Cons.prems [of ev] by auto
    with Cons.IH [of "result @ [c]"] Cons.prems True show ?thesis
      by (auto split: if_splits)
  next
    case False
    with Cons.prems [of ev] show ?thesis by auto
  qed
qed simp

text \<open>C35: when the trees below the search path are finite and its directories can be watched, the
  constructor watches these and all directories below them. Events from them are reported in their
  order, each with the rank and the relative path of a watched directory that has the event's
  descriptor; an event of another descriptor (the kernel sends one when its queue overflows) ends
  the program with an exception.\<close>

theorem inotify_changes:
  assumes "names_ok fs" "\<forall>d \<in> set search_path. finite_tree fs d \<and> add_watch d \<noteq> -1"
  shows "\<exists>n. NotifyInotify_ctor fs add_watch search_path = Some (Inr n) \<and>
    (\<forall>events. if \<forall>ev \<in> set events. known_event fs add_watch search_path ev
      then \<exists>changes. NotifyInotify_getchanges n events = Inr changes \<and>
        list_all2 (reported fs add_watch search_path) events changes
      else NotifyInotify_getchanges n events = Inl Out_of_range)"
proof -
  have "entries_sound fs add_watch search_path []" by (simp add: entries_sound_def um_find_def)
  then obtain m where m: "watch_loop fs add_watch 0 search_path [] = Some (Inr m)"
      "entries_sound fs add_watch search_path m"
      "\<And>k d sub. watched fs search_path k d sub \<Longrightarrow> um_find m (add_watch d) \<noteq> None"
    using watch_loop_spec [of fs search_path "[]" search_path add_watch "[]", OF assms(1) _ assms(2)]
    by (simp del: not_None_eq) blast
  let ?n = "\<lparr>ni_directories = m\<rparr>"
  have step: "if known_event fs add_watch search_path ev
      then \<exists>c. change_of ?n ev = Inr c \<and> reported fs add_watch search_path ev c
      else change_of ?n ev = Inl Out_of_range" for ev
  proof (cases "um_find m (ev_wd ev)")
    case None
    with m(3) show ?thesis by (fastforce simp: known_event_def change_of_def)
  next
    case (Some e)
    with m(2) obtain k d where "de_rank e = int k" "watched fs search_path k d (de_path e)" "add_watch d = ev_wd ev"
      unfolding entries_sound_def by blast
    with Some show ?thesis by (auto simp: known_event_def change_of_def reported_def)
  qed
  have "if \<forall>ev \<in> set events. known_event fs add_watch search_path ev
      then \<exists>changes. NotifyInotify_getchanges ?n events = Inr changes \<and>
        list_all2 (reported fs add_watch search_path) events changes
      else NotifyInotify_getchanges ?n events = Inl Out_of_range" for events
    using getchanges_loop_spec [of events "known_event fs add_watch search_path" ?n
        "reported fs add_watch search_path" "[]", OF step]
    unfolding NotifyInotify_getchanges_def append_Nil .
  moreover have "NotifyInotify_ctor fs add_watch search_path = Some (Inr ?n)"
    by (simp add: NotifyInotify_ctor_def m(1))
  ultimately show ?thesis by blast
qed

theorem inotify_changes_witness:
  "\<exists>n c. NotifyInotify_ctor sample_fs (\<lambda>p. int (length p)) [''/a/''] = Some (Inr n) \<and>
     NotifyInotify_getchanges n
       [\<lparr>ev_wd = 6, ev_modify = False, ev_moved_to = False, ev_name = ''y.desktop''\<rparr>] = Inr [c] \<and>
     fc_rank c = 0 \<and> fc_name c = ''kde/y.desktop'' \<and> fc_status c = deleted \<and>
     NotifyInotify_getchanges n
       [\<lparr>ev_wd = -1, ev_modify = False, ev_moved_to = False, ev_name = []\<rparr>] = Inl Out_of_range"
proof -
  let ?w = "\<lambda>p :: string. int (length p)"
  let ?ev = "\<lparr>ev_wd = 6, ev_modify = False, ev_moved_to = False, ev_name = ''y.desktop''\<rparr>"
  let ?over = "\<lparr>ev_wd = -1, ev_modify = False, ev_moved_to = False, ev_name = []\<rparr>"
  have "\<forall>d \<in> set [''/a/'']. finite_tree sample_fs d \<and> ?w d \<noteq> -1"
    using sample_fs_finite by simp
  from inotify_changes [OF sample_fs_names this] obtain n where
    n: "NotifyInotify_ctor sample_fs ?w [''/a/''] = Some (Inr n)"
    "\<And>events. if \<forall>ev \<in> set events. known_event sample_fs ?w [''/a/''] ev
      then \<exists>changes. NotifyInotify_getchanges n events = Inr changes \<and>
        list_all2 (reported sample_fs ?w [''/a/'']) events changes
      else NotifyInotify_getchanges n events = Inl Out_of_range"
    by blast
  have w: "watched sample_fs [''/a/''] k d sub \<longleftrightarrow>
      k = 0 \<and> (d = ''/a/'' \<and> sub = [] \<or> d = ''/a/kde'' \<and> sub = ''kde/'')" for k d sub
  proof -
    have "''/a/kde'' \<in> {p. below sample_fs ''/a/'' p}" unfolding sample_fs_below(2) by blast
    then have "below sample_fs ''/a/'' p \<and> fs_is_directory sample_fs p \<longleftrightarrow> p = ''/a/kde''" for p
      unfolding sample_fs_simps(3) by blast
    then have "watched sample_fs [''/a/''] k d sub \<longleftrightarrow>
        k = 0 \<and> (d = ''/a/'' \<and> sub = [] \<or> d = ''/a/kde'' \<and> ''/a/'' @ sub = ''/a/kde'' @ ''/'')"
      unfolding watched_def by (cases k) (simp_all, blast)
    then show ?thesis by simp
  qed
  have "known_event sample_fs ?w [''/a/''] ?ev" unfolding known_event_def w
    by (intro exI [of _ 0] exI [of _ "''/a/kde''"] exI [of _ "''kde/''"]) simp
  then obtain c where "NotifyInotify_getchanges n [?ev] = Inr [c]" "reported sample_fs ?w [''/a/''] ?ev c"
    using n(2) [of "[?ev]"] by (auto simp: list_all2_Cons1)
  moreover from this(2) have "fc_rank c = 0 \<and> fc_name c = ''kde/y.desktop'' \<and> fc_status c = deleted"
    by (auto simp: reported_def w)
  moreover have "\<not> known_event sample_fs ?w [''/a/''] ?over" by (simp add: known_event_def)
  then have "NotifyInotify_getchanges n [?over] = Inl Out_of_range" using n(2) [of "[?over]"] by simp
  ultimately show ?thesis using n(1) by blast
qed

end
