(* ===== verification/WaitOn.thy ===== *)
theory WaitOn
  imports MenuFacts NotifyInotify
begin

text \<open>
  The loop of the wait-on mode, \<open>do_wait_on\<close> in \<open>src/main.cc\<close>. A round of the loop is a function
  of what \<open>poll\<close> and the calls after it answer; the loop is a run over any list of rounds. The
  desktop files on disk may differ in every round.
\<close>

section \<open>One round\<close>

datatype fifo_read = Byte char | End_of_file | Would_block | Read_error

datatype wait_answer = Waited | Still_running | Wait_error

record wait_config =
  wc_search_path :: "string list"
  wc_is_i3 :: bool
  wc_history_error :: string
  wc_execute :: "AppManager \<Rightarrow> command_info \<Rightarrow> fault + unit"

text \<open>\<open>None\<close> stands for a descriptor that is not readable, in \<open>wr_pid\<close> for a failed \<open>fork\<close>.\<close>

record wait_round =
  wr_env :: manager_env
  wr_changes :: "(fault + FileChange list) option"
  wr_fifo :: "fifo_read list option"
  wr_can_start :: bool
  wr_program :: dmenu_program
  wr_pid :: "nat option"
  wr_sigchld :: "(nat \<Rightarrow> wait_answer) option"

record wait_state =
  ws_appm :: AppManager
  ws_loop :: CommandRetrievalLoop
  ws_children :: "nat list"

subsection \<open>Changed desktop files\<close>

definition change_manager ::
  "manager_env \<Rightarrow> string list \<Rightarrow> FileChange \<Rightarrow> AppManager \<Rightarrow> fault + AppManager" where
  "change_manager env search_path c appm =
     (if fc_rank c < 0 \<or> int (length search_path) \<le> fc_rank c then Inl Undefined
      else
        (let base = search_path ! nat (fc_rank c) in
         case fc_status c of
           modified \<Rightarrow> AppManager_add env (base @ fc_name c) base (fc_rank c) appm
         | deleted \<Rightarrow> AppManager_remove (base @ fc_name c) base appm))"

fun handle_changes ::
  "wait_config \<Rightarrow> manager_env \<Rightarrow> FileChange list \<Rightarrow> AppManager \<times> CommandRetrievalLoop \<Rightarrow>
     fault + AppManager \<times> CommandRetrievalLoop" where
  "handle_changes cfg env [] st = Inr st"
| "handle_changes cfg env (c # cs) (appm, cl) =
     (if \<not> endswith (fc_name c) ''.desktop'' then handle_changes cfg env cs (appm, cl)
      else
        bind_sum (change_manager env (wc_search_path cfg) c appm) (\<lambda>appm'.
          bind_sum (update_mapping (wc_history_error cfg) True appm' cl) (\<lambda>cl'.
            handle_changes cfg env cs (appm', cl'))))"

subsection \<open>The FIFO\<close>

text \<open>The inner loop of reads: the last byte and the answer that ended it.\<close>

fun last_byte :: "char \<Rightarrow> fifo_read list \<Rightarrow> char \<times> fifo_read" where
  "last_byte data [] = (data, Would_block)"
| "last_byte data (Byte c # rs) = last_byte c rs"
| "last_byte data (r # rs) = (data, r)"

text \<open>
  \<open>Inr None\<close>: nothing was received (end of file at once, the FIFO is opened again). A first read
  that would block leaves the byte uninitialised.
\<close>

definition read_fifo :: "fifo_read list \<Rightarrow> fault + char option" where
  "read_fifo reads =
     (case reads of
        [] \<Rightarrow> Inl Undefined
      | Would_block # _ \<Rightarrow> Inl Undefined
      | Read_error # _ \<Rightarrow> Inl (Exited EXIT_FAILURE)
      | End_of_file # _ \<Rightarrow> Inr None
      | Byte c # rs \<Rightarrow>
          (case last_byte c rs of
             (data, Read_error) \<Rightarrow> Inl (Exited EXIT_FAILURE)
           | (data, _) \<Rightarrow> Inr (Some data)))"

text \<open>
  The choice is executed, by the process itself when the executable hands it to i3 or prints it,
  otherwise in a child: there a failure stays.
\<close>

definition start_choice ::
  "wait_config \<Rightarrow> wait_round \<Rightarrow> command_info \<Rightarrow> wait_state \<Rightarrow> fault + wait_state" where
  "start_choice cfg r info st =
     (if wc_is_i3 cfg then bind_sum (wc_execute cfg (ws_appm st) info) (\<lambda>_. Inr st)
      else
        (case wr_pid r of
           None \<Rightarrow> Inl (Exited EXIT_FAILURE)
         | Some pid \<Rightarrow> Inr (st\<lparr>ws_children := ws_children st @ [pid]\<rparr>)))"

definition serve_request ::
  "wait_config \<Rightarrow> wait_round \<Rightarrow> char \<Rightarrow> wait_state \<Rightarrow> fault + wait_state \<times> command_info option" where
  "serve_request cfg r data st =
     (if data = CHR ''q'' then Inl (Exited EXIT_SUCCESS)
      else
        bind_sum (run_dmenu (wr_can_start r) (ws_loop st)) (\<lambda>cl.
          bind_sum (prompt_user_for_choice (wc_history_error cfg) True (wr_program r) (ws_appm st) cl)
            (\<lambda>(choice, cl').
              case choice of
                None \<Rightarrow> Inr (st\<lparr>ws_loop := cl'\<rparr>, None)
              | Some info \<Rightarrow>
                  bind_sum (start_choice cfg r info (st\<lparr>ws_loop := cl'\<rparr>)) (\<lambda>st'.
                    Inr (st', Some info)))))"

subsection \<open>Finished children\<close>

fun reap :: "(nat \<Rightarrow> wait_answer) \<Rightarrow> nat list \<Rightarrow> nat list \<Rightarrow> fault + nat list" where
  "reap answer [] remaining = Inr remaining"
| "reap answer (pid # pids) remaining =
     (case answer pid of
        Wait_error \<Rightarrow> Inl (Exited EXIT_FAILURE)
      | Still_running \<Rightarrow> reap answer pids (remaining @ [pid])
      | Waited \<Rightarrow> reap answer pids remaining)"

definition reap_children :: "wait_config \<Rightarrow> wait_round \<Rightarrow> wait_state \<Rightarrow> fault + wait_state" where
  "reap_children cfg r st =
     (case wr_sigchld r of
        None \<Rightarrow> Inr st
      | Some answer \<Rightarrow>
          if wc_is_i3 cfg then Inr st
          else bind_sum (reap answer (ws_children st) []) (\<lambda>pids. Inr (st\<lparr>ws_children := pids\<rparr>)))"

subsection \<open>The round\<close>

definition notify_part :: "wait_config \<Rightarrow> wait_round \<Rightarrow> wait_state \<Rightarrow> fault + wait_state" where
  "notify_part cfg r st =
     (case wr_changes r of
        None \<Rightarrow> Inr st
      | Some changes \<Rightarrow>
          bind_sum changes (\<lambda>cs.
            bind_sum (handle_changes cfg (wr_env r) cs (ws_appm st, ws_loop st)) (\<lambda>(appm, cl).
              Inr (st\<lparr>ws_appm := appm, ws_loop := cl\<rparr>))))"

text \<open>When nothing was received the code goes on with the next round, without reaping.\<close>

definition wait_on_round ::
  "wait_config \<Rightarrow> wait_round \<Rightarrow> wait_state \<Rightarrow> fault + wait_state \<times> command_info option" where
  "wait_on_round cfg r st =
     bind_sum (notify_part cfg r st) (\<lambda>st1.
       case wr_fifo r of
         None \<Rightarrow> bind_sum (reap_children cfg r st1) (\<lambda>st2. Inr (st2, None))
       | Some reads \<Rightarrow>
           bind_sum (read_fifo reads) (\<lambda>received.
             case received of
               None \<Rightarrow> Inr (st1, None)
             | Some data \<Rightarrow>
                 bind_sum (serve_request cfg r data st1) (\<lambda>(st2, started).
                   bind_sum (reap_children cfg r st2) (\<lambda>st3. Inr (st3, started)))))"

fun do_wait_on ::
  "wait_config \<Rightarrow> wait_round list \<Rightarrow> wait_state \<Rightarrow> fault + wait_state \<times> command_info list" where
  "do_wait_on cfg [] st = Inr (st, [])"
| "do_wait_on cfg (r # rs) st =
     bind_sum (wait_on_round cfg r st) (\<lambda>(st', started).
       bind_sum (do_wait_on cfg rs st') (\<lambda>(st'', later).
         Inr (st'', (case started of None \<Rightarrow> later | Some info \<Rightarrow> info # later))))"

end
