(* ===== verification/WaitOnFacts.thy ===== *)
theory WaitOnFacts
  imports WaitOn
begin

text \<open>
  What holds in every round of the wait-on mode: the menu is that of the present manager, which
  follows the desktop files as its contract says; a request opens one dialogue; what is started is
  an application the manager knows.
\<close>

section \<open>The menu stays current\<close>

definition menu_current :: "CommandRetrievalLoop \<Rightarrow> AppManager \<Rightarrow> bool" where
  "menu_current cl appm \<longleftrightarrow>
     exact_names cl \<and> history_tidy cl \<and>
     sorted_wrt less_wrapper (map fst (nm_mapping (cl_mapping cl))) \<and>
     set (nm_mapping (cl_mapping cl)) = entries cl appm \<and>
     distinct (history_lines cl) \<and> set (history_lines cl) \<subseteq> fst ` entries cl appm"

definition wait_ok :: "wait_state \<Rightarrow> bool" where
  "wait_ok st \<longleftrightarrow> reachable (ws_appm st) \<and> menu_current (ws_loop st) (ws_appm st)"

lemma view_of_current_menu:
  assumes "menu_current cl appm" "cl_hist cl = Some fh"
  shows "FormattedHistoryManager_view debug fh = Inr (fh_formatted fh)"
  using assms by (simp add: menu_current_def history_lines_def FormattedHistoryManager_view_def)

lemma update_mapping_current:
  assumes "reachable appm" "exact_names cl" "history_tidy cl"
  shows "\<exists>cl'. update_mapping err True appm cl = Inr cl' \<and> menu_current cl' appm"
proof -
  from update_mapping_spec [OF reachable_consistent [OF assms(1)] assms(2,3), of err] obtain cl' where
    u: "update_mapping err True appm cl = Inr cl'" "exact_names cl'" "history_tidy cl'"
      "less.sorted_keys (nm_mapping (cl_mapping cl'))" "set (nm_mapping (cl_mapping cl')) = entries cl appm"
      "distinct (history_lines cl')" "set (history_lines cl') \<subseteq> fst ` entries cl appm"
    by blast
  have "entries cl' appm = entries cl appm"
    using update_mapping_settings [OF u(1)] by (intro entries_cong) auto
  with u show ?thesis by (auto simp: menu_current_def less.sorted_keys_def)
qed

lemma change_manager_reachable:
  assumes "reachable appm" "change_manager env search_path c appm = Inr appm'"
    and "int (length search_path) \<le> INT_MAX"
  shows "reachable appm'"
proof (rule reachable_step [OF assms(1)])
  let ?base = "search_path ! nat (fc_rank c)"
  have r: "0 \<le> fc_rank c" "fc_rank c < INT_MAX"
    using assms(2,3) by (auto simp: change_manager_def split: if_splits)
  show "manager_step appm appm'"
  proof (cases "fc_status c")
    case modified
    with assms(2) have "AppManager_add env (?base @ fc_name c) ?base (fc_rank c) appm = Inr appm'"
      by (auto simp: change_manager_def Let_def split: if_splits)
    from step_add [OF this r] show ?thesis .
  next
    case deleted
    with assms(2) have "AppManager_remove (?base @ fc_name c) ?base appm = Inr appm'"
      by (auto simp: change_manager_def Let_def split: if_splits)
    from step_remove [OF this] show ?thesis .
  qed
qed

lemma handle_changes_current:
  assumes "int (length (wc_search_path cfg)) \<le> INT_MAX"
  shows "reachable appm \<Longrightarrow> menu_current cl appm \<Longrightarrow>
    handle_changes cfg env cs (appm, cl) = Inr (appm', cl') \<Longrightarrow>
    reachable appm' \<and> menu_current cl' appm'"
proof (induction cs arbitrary: appm cl)
  case (Cons c cs)
  show ?case
  proof (cases "endswith (fc_name c) ''.desktop''")
    case False
    with Cons show ?thesis by simp
  next
    case True
    with Cons.prems(3) obtain appm1 cl1 where
      s: "change_manager env (wc_search_path cfg) c appm = Inr appm1"
        "update_mapping (wc_history_error cfg) True appm1 cl = Inr cl1"
        "handle_changes cfg env cs (appm1, cl1) = Inr (appm', cl')"
      by auto
    have r: "reachable appm1" using change_manager_reachable [OF Cons.prems(1) s(1) assms] .
    from update_mapping_current [OF r, of cl "wc_history_error cfg"] Cons.prems(2) s(2)
    have "menu_current cl1 appm1" by (auto simp: menu_current_def)
    with Cons.IH [OF r _ s(3)] show ?thesis .
  qed
qed simp

section \<open>A request keeps the menu\<close>

lemma increment_entry_sorted:
  "mmap_sorted h \<Longrightarrow> unique_names h \<Longrightarrow> increment_entry n h = Inr h' \<Longrightarrow>
     mmap_sorted h' \<and> unique_names h'"
proof (cases "find_name n h")
  case None
  then show "mmap_sorted h \<Longrightarrow> unique_names h \<Longrightarrow> increment_entry n h = Inr h' \<Longrightarrow> ?thesis"
    by (auto simp: increment_entry_def mmap_emplace_sorted unique_names_emplace find_name_None)
next
  case (Some i)
  assume h: "mmap_sorted h" "unique_names h" "increment_entry n h = Inr h'"
  with Some show ?thesis
    by (auto simp: increment_entry_def mmap_emplace_sorted mmap_erase_at_sorted mmap_erase_at_found
        unique_names_emplace unique_names_filter mmap_sorted_filter split: if_splits)
qed

lemma increment_tidy:
  assumes "tidy (fh_hist fh)" "FormattedHistoryManager_increment err True n fh = Inr fh'"
  shows "\<exists>h. fh' = fh\<lparr>fh_hist := h\<rparr> \<and> tidy h"
proof -
  obtain h where h: "increment_entry n (hm_history (fh_hist fh)) = Inr h"
    using assms(2) by (auto simp: FormattedHistoryManager_increment_def HistoryManager_increment_def)
  have "mmap_sorted h" "unique_names h"
    using increment_entry_sorted [OF _ _ h] assms(1) by (simp_all add: tidy_def)
  moreover have "fh' = fh\<lparr>fh_hist := (fh_hist fh)\<lparr>hm_history := h, hm_file := history_text h\<rparr>\<rparr>"
    using assms(2) h
    by (simp add: FormattedHistoryManager_increment_def HistoryManager_increment_def HistoryManager_write_def)
  ultimately show ?thesis by (auto simp: tidy_def)
qed

lemma menu_current_counted:
  assumes "menu_current cl appm" "cl_hist cl = Some fh" "tidy h"
  shows "menu_current (cl\<lparr>cl_hist := Some (fh\<lparr>fh_hist := h\<rparr>)\<rparr>) appm"
proof -
  have "entries (cl\<lparr>cl_hist := Some (fh\<lparr>fh_hist := h\<rparr>)\<rparr>) appm = entries cl appm"
    by (rule entries_cong) simp_all
  with assms show ?thesis
    by (simp add: menu_current_def exact_names_def history_tidy_def history_lines_def)
qed

lemma lookup_prefix_member:
  "lookup_prefix q m = ApplicationLookup ptr g args \<Longrightarrow>
     \<exists>e \<in> set m. ra_app (snd e) = ptr \<and> ra_is_generic (snd e) = g"
proof (induction m)
  case (Cons e m)
  then show ?case by (cases e) (simp split: if_split_asm)
qed simp

lemma lookup_name_member:
  assumes "lookup_name less_wrapper q m = ApplicationLookup ptr g args"
  shows "\<exists>e \<in> set m. ra_app (snd e) = ptr \<and> ra_is_generic (snd e) = g"
proof (cases "om_find less_wrapper q m")
  case None
  with assms show ?thesis by (intro lookup_prefix_member) (simp add: lookup_name_def)
next
  case (Some res)
  with assms less.find_Some [OF Some] show ?thesis by (force simp: lookup_name_def)
qed

lemma prompt_current:
  assumes "reachable appm" "menu_current cl appm"
    and "prompt_user_for_choice err True program appm cl = Inr (choice, cl')"
  shows "menu_current cl' appm \<and>
    (\<forall>ptr args. choice = Some (DesktopCommandInfo ptr args) \<longrightarrow> deref appm ptr \<noteq> None)"
proof -
  have lt: "DynamicCompare (nm_case_insensitive (cl_mapping cl)) = less_wrapper"
    using assms(2) by (simp add: menu_current_def exact_names_def DynamicCompare_def)
  let ?m = "nm_mapping (cl_mapping cl)"
  obtain q where q: "do_dmenu program less_wrapper ?m (history_lines cl) (cl_dmenu cl) = Inr q"
    using assms(3) by (auto simp: prompt_user_for_choice_def lt history_lines_def Let_def)
  show ?thesis
  proof (cases q)
    case None
    with assms q show ?thesis
      by (auto simp: prompt_user_for_choice_def lt history_lines_def Let_def)
  next
    case (Some query)
    show ?thesis
    proof (cases "lookup_name less_wrapper query ?m")
      case (CommandLookup command)
      with assms q Some show ?thesis
        by (auto simp: prompt_user_for_choice_def lt history_lines_def Let_def)
    next
      case (ApplicationLookup ptr g args)
      from lookup_name_member [OF this] assms(2)
      obtain n res where "(n, res) \<in> entries cl appm" "ra_app res = ptr"
        by (auto simp: menu_current_def)
      then obtain app where app: "deref appm ptr = Some app"
        using entries_element [OF reachable_consistent [OF assms(1)], of n res cl] by auto
      have p: "prompt_user_for_choice err True program appm cl =
          (case (cl_no_exec cl, cl_hist cl) of
             (False, Some fh) \<Rightarrow>
               bind_sum (FormattedHistoryManager_increment err True
                   (if g then app_generic_name app else app_name app) fh)
                 (\<lambda>fh'. Inr (Some (DesktopCommandInfo ptr args), cl\<lparr>cl_hist := Some fh'\<rparr>))
           | _ \<Rightarrow> Inr (Some (DesktopCommandInfo ptr args), cl))"
        unfolding prompt_user_for_choice_def Let_def lt
        using q Some ApplicationLookup app
        by (simp add: history_lines_def cong: option.case_cong bool.case_cong)
      have "choice = Some (DesktopCommandInfo ptr args) \<and>
          (cl' = cl \<or> (\<exists>fh fh'. cl_hist cl = Some fh \<and> cl' = cl\<lparr>cl_hist := Some fh'\<rparr> \<and>
            FormattedHistoryManager_increment err True
              (if g then app_generic_name app else app_name app) fh = Inr fh'))"
        using assms(3) unfolding p by (auto split: bool.splits option.splits)
      moreover have "menu_current (cl\<lparr>cl_hist := Some fh'\<rparr>) appm"
        if h: "cl_hist cl = Some fh" "FormattedHistoryManager_increment err True nm fh = Inr fh'" for fh fh' nm
      proof -
        have "tidy (fh_hist fh)" using assms(2) h(1) by (simp add: menu_current_def history_tidy_def)
        from increment_tidy [OF this h(2)] menu_current_counted [OF assms(2) h(1)] show ?thesis by auto
      qed
      ultimately show ?thesis using assms(2) app by auto
    qed
  qed
qed

section \<open>Rounds\<close>

lemma menu_current_dmenu: "menu_current cl appm \<Longrightarrow> menu_current (cl\<lparr>cl_dmenu := d\<rparr>) appm"
  using entries_cong [of "cl\<lparr>cl_dmenu := d\<rparr>" cl appm]
  by (cases "cl_hist cl") (simp_all add: menu_current_def exact_names_def history_tidy_def history_lines_def)

lemma notify_part_ok:
  assumes "int (length (wc_search_path cfg)) \<le> INT_MAX" "wait_ok st" "notify_part cfg r st = Inr st'"
  shows "wait_ok st'"
proof (cases "wr_changes r")
  case None
  with assms show ?thesis by (simp add: notify_part_def)
next
  case (Some changes)
  with assms(3) obtain cs appm cl where "handle_changes cfg (wr_env r) cs (ws_appm st, ws_loop st) = Inr (appm, cl)"
      "st' = st\<lparr>ws_appm := appm, ws_loop := cl\<rparr>"
    by (auto simp: notify_part_def)
  with handle_changes_current [OF assms(1) _ _ this(1)] assms(2) show ?thesis by (simp add: wait_ok_def)
qed

definition started_known :: "AppManager \<Rightarrow> command_info option \<Rightarrow> bool" where
  "started_known appm started \<longleftrightarrow>
     (\<forall>ptr args. started = Some (DesktopCommandInfo ptr args) \<longrightarrow> deref appm ptr \<noteq> None)"

lemma start_choice_keeps:
  "start_choice cfg r info st = Inr st' \<Longrightarrow> ws_appm st' = ws_appm st \<and> ws_loop st' = ws_loop st"
  by (auto simp: start_choice_def split: if_splits option.splits)

lemma serve_request_ok:
  assumes "wait_ok st" "serve_request cfg r data st = Inr (st', started)"
  shows "wait_ok st' \<and> started_known (ws_appm st') started"
proof -
  obtain d choice cl' where
    p: "prompt_user_for_choice (wc_history_error cfg) True (wr_program r) (ws_appm st)
      ((ws_loop st)\<lparr>cl_dmenu := d\<rparr>) = Inr (choice, cl')"
    and res: "(case choice of
        None \<Rightarrow> Inr (st\<lparr>ws_loop := cl'\<rparr>, None)
      | Some info \<Rightarrow> bind_sum (start_choice cfg r info (st\<lparr>ws_loop := cl'\<rparr>)) (\<lambda>st'. Inr (st', Some info))) =
      (Inr (st', started) :: fault + wait_state \<times> command_info option)"
    using assms(2) by (auto simp: serve_request_def run_dmenu_def split: if_splits)
  have "menu_current ((ws_loop st)\<lparr>cl_dmenu := d\<rparr>) (ws_appm st)" "reachable (ws_appm st)"
    using assms(1) menu_current_dmenu by (auto simp: wait_ok_def)
  from prompt_current [OF this(2,1) p] \<open>reachable (ws_appm st)\<close> res start_choice_keeps
  show ?thesis by (fastforce simp: wait_ok_def started_known_def split: option.splits)
qed

lemma reap_children_keeps:
  "reap_children cfg r st = Inr st' \<Longrightarrow> ws_appm st' = ws_appm st \<and> ws_loop st' = ws_loop st"
  by (auto simp: reap_children_def split: if_splits option.splits)

lemma wait_on_round_ok:
  assumes "int (length (wc_search_path cfg)) \<le> INT_MAX" "wait_ok st"
    and "wait_on_round cfg r st = Inr (st', started)"
  shows "wait_ok st' \<and> started_known (ws_appm st') started"
proof -
  obtain st1 where st1: "notify_part cfg r st = Inr st1"
    using assms(3) by (auto simp: wait_on_round_def)
  have ok1: "wait_ok st1" using notify_part_ok [OF assms(1,2) st1] .
  show ?thesis
  proof (cases "wr_fifo r")
    case None
    with assms(3) st1 have "reap_children cfg r st1 = Inr st'" "started = None"
      by (auto simp: wait_on_round_def)
    with ok1 reap_children_keeps [OF this(1)] show ?thesis by (simp add: wait_ok_def started_known_def)
  next
    case (Some reads)
    with assms(3) st1 obtain received where rd: "read_fifo reads = Inr received"
      by (auto simp: wait_on_round_def)
    show ?thesis
    proof (cases received)
      case None
      with assms(3) st1 Some rd ok1 show ?thesis by (simp add: wait_on_round_def started_known_def)
    next
      case r: (Some data)
      with assms(3) st1 Some rd obtain st2 where "serve_request cfg r data st1 = Inr (st2, started)"
          "reap_children cfg r st2 = Inr st'"
        by (auto simp: wait_on_round_def)
      with serve_request_ok [OF ok1 this(1)] reap_children_keeps [OF this(2)] show ?thesis
        by (simp add: wait_ok_def)
    qed
  qed
qed

lemma do_wait_on_ok:
  assumes "int (length (wc_search_path cfg)) \<le> INT_MAX"
  shows "wait_ok st \<Longrightarrow> do_wait_on cfg rounds st = Inr (st', started) \<Longrightarrow> wait_ok st'"
proof (induction rounds arbitrary: st started)
  case (Cons r rs)
  then obtain st1 s1 s2 where "wait_on_round cfg r st = Inr (st1, s1)" "do_wait_on cfg rs st1 = Inr (st', s2)"
    by auto
  with Cons.IH wait_on_round_ok [OF assms Cons.prems(1)] show ?case by blast
qed simp

lemma reap_filter:
  "(\<forall>p \<in> set pids. answer p \<noteq> Wait_error) \<Longrightarrow>
     reap answer pids kept = Inr (kept @ filter (\<lambda>p. answer p = Still_running) pids)"
  by (induction pids arbitrary: kept) (auto split: wait_answer.splits)

section \<open>Properties\<close>

lemma menu_current_shown:
  assumes "reachable appm" "menu_current cl appm"
  shows "\<exists>ns. distinct ns \<and> set ns = shown_lines cl appm \<and> prefix (history_lines cl) ns \<and>
    (\<forall>d. write_names less_wrapper (nm_mapping (cl_mapping cl)) (history_lines cl) d =
      Inr (d\<lparr>dmenu_outpipe := dmenu_outpipe d @ menu_text ns\<rparr>))"
proof -
  let ?m = "nm_mapping (cl_mapping cl)" let ?h = "history_lines cl"
  have u: "less.sorted_keys ?m" "distinct ?h" "set ?h \<subseteq> fst ` set ?m" "set ?m = entries cl appm"
    using assms(2) by (auto simp: menu_current_def less.sorted_keys_def)
  have "prefix ?h (menu_order ?h (map fst ?m))" by (simp add: menu_order_def)
  with less.write_names_spec [OF u(1-3)] less.menu_order_perm [OF u(1-3)] u(4)
    entries_lines [OF reachable_consistent [OF assms(1)], of cl]
  show ?thesis by metis
qed

text \<open>In wait-on mode, whatever changes of desktop files, requests and finished children the rounds
  bring, the manager stays one its lemmas are about, and what dmenu would be sent next is always
  every name of the present manager exactly once, the history first.\<close>

theorem wait_on_menu_current:
  assumes "int (length (wc_search_path cfg)) \<le> INT_MAX"
    and "wait_ok st" "do_wait_on cfg rounds st = Inr (st', started)"
  shows "reachable (ws_appm st') \<and>
    (\<exists>ns. distinct ns \<and> set ns = shown_lines (ws_loop st') (ws_appm st') \<and>
       prefix (history_lines (ws_loop st')) ns \<and>
       (\<forall>d. write_names less_wrapper (nm_mapping (cl_mapping (ws_loop st'))) (history_lines (ws_loop st')) d =
          Inr (d\<lparr>dmenu_outpipe := dmenu_outpipe d @ menu_text ns\<rparr>)))"
  using do_wait_on_ok [OF assms] menu_current_shown by (simp add: wait_ok_def)

definition sample_config :: wait_config where
  "sample_config = \<lparr>wc_search_path = [''/a/'', ''/b/''], wc_is_i3 = False, wc_history_error = [],
     wc_execute = (\<lambda>_ _. Inr ())\<rparr>"

definition sample_round :: "FileChange list \<Rightarrow> fifo_read list option \<Rightarrow> wait_round" where
  "sample_round changes reads =
     \<lparr>wr_env = sample_env, wr_changes = Some (Inr changes), wr_fifo = reads, wr_can_start = True,
      wr_program = (\<lambda>_. (Wexited 1, [])), wr_pid = Some 7, wr_sigchld = None\<rparr>"

definition sample_changes :: "FileChange list" where
  "sample_changes =
     [\<lparr>fc_rank = 1, fc_name = ''README'', fc_status = modified\<rparr>,
      \<lparr>fc_rank = 0, fc_name = ''x.desktop'', fc_status = deleted\<rparr>]"

definition deleted_manager :: AppManager where
  "deleted_manager =
     projr (change_manager sample_env [''/a/'', ''/b/'']
       \<lparr>fc_rank = 0, fc_name = ''x.desktop'', fc_status = deleted\<rparr> sample_manager)"

lemma sample_change:
  "change_manager sample_env [''/a/'', ''/b/'']
     \<lparr>fc_rank = 0, fc_name = ''x.desktop'', fc_status = deleted\<rparr> sample_manager = Inr deleted_manager"
  unfolding deleted_manager_def by code_simp

lemma deleted_reachable: "reachable deleted_manager"
  by (rule change_manager_reachable [OF sample_reachable sample_change]) (simp add: INT_MAX_def)

lemma sample_handled:
  "\<exists>cl. handle_changes sample_config sample_env sample_changes (sample_manager, sample_loop) =
     Inr (deleted_manager, cl) \<and> menu_current cl deleted_manager"
proof -
  obtain cl where "update_mapping [] True deleted_manager sample_loop = Inr cl" "menu_current cl deleted_manager"
    using update_mapping_current [OF deleted_reachable sample_loop_ok, of "[]"] by blast
  then show ?thesis
    by (simp add: sample_changes_def sample_config_def sample_change endswith_iff suffix_def)
qed

theorem wait_on_menu_current_witness:
  "\<exists>st st' started. do_wait_on sample_config [sample_round sample_changes None] st = Inr (st', started) \<and>
     ws_appm st' = deleted_manager \<and>
     (\<exists>ns. set ns = shown_lines (ws_loop st') deleted_manager \<and>
        (\<forall>d. write_names less_wrapper (nm_mapping (cl_mapping (ws_loop st'))) (history_lines (ws_loop st')) d =
           Inr (d\<lparr>dmenu_outpipe := dmenu_outpipe d @ menu_text ns\<rparr>)))"
proof -
  obtain cl0 where cl0: "update_mapping [] True sample_manager sample_loop = Inr cl0"
      "menu_current cl0 sample_manager"
    using update_mapping_current [OF sample_reachable sample_loop_ok, of "[]"] by blast
  obtain cl where cl: "update_mapping [] True deleted_manager cl0 = Inr cl"
    using update_mapping_current [OF deleted_reachable, of cl0 "[]"] cl0(2) by (auto simp: menu_current_def)
  let ?st = "\<lparr>ws_appm = sample_manager, ws_loop = cl0, ws_children = []\<rparr>"
  let ?st' = "\<lparr>ws_appm = deleted_manager, ws_loop = cl, ws_children = []\<rparr>"
  have run: "do_wait_on sample_config [sample_round sample_changes None] ?st = Inr (?st', [])"
    using cl by (simp add: wait_on_round_def notify_part_def reap_children_def sample_round_def
        sample_changes_def sample_config_def sample_change endswith_iff suffix_def)
  have ok: "int (length (wc_search_path sample_config)) \<le> INT_MAX" "wait_ok ?st"
    using sample_reachable cl0(2) by (simp_all add: sample_config_def INT_MAX_def wait_ok_def)
  from wait_on_menu_current [OF ok run] obtain ns where
    "set ns = shown_lines cl deleted_manager"
    "\<forall>d. write_names less_wrapper (nm_mapping (cl_mapping cl)) (history_lines cl) d =
      Inr (d\<lparr>dmenu_outpipe := dmenu_outpipe d @ menu_text ns\<rparr>)"
    by auto
  with run show ?thesis
    by (intro exI [of _ ?st] exI [of _ ?st'] exI [of _ "[]"] conjI exI [of _ ns]) simp_all
qed

text \<open>What a change means for the map from desktop IDs.\<close>

definition registry_change :: "manager_env \<Rightarrow> string list \<Rightarrow> FileChange \<Rightarrow> registry \<Rightarrow> registry" where
  "registry_change env search_path c A =
     (let base = search_path ! nat (fc_rank c); file = base @ fc_name c in
      if \<not> endswith (fc_name c) ''.desktop'' then A
      else case get_desktop_id_base file base of
        Inl _ \<Rightarrow> A
      | Inr ID \<Rightarrow>
          (case fc_status c of
             modified \<Rightarrow> registry_add env ID file (fc_rank c) A
           | deleted \<Rightarrow> registry_remove ID A))"

lemma change_manager_registry:
  assumes "consistent {} appm" "change_manager env search_path c appm = Inr appm'"
    and "int (length search_path) \<le> INT_MAX" "endswith (fc_name c) ''.desktop''"
  shows "consistent {} appm' \<and>
    um_find (applications appm') = registry_change env search_path c (um_find (applications appm))"
proof -
  let ?base = "search_path ! nat (fc_rank c)"
  have r: "0 \<le> fc_rank c" "fc_rank c < INT_MAX"
    using assms(2,3) by (auto simp: change_manager_def split: if_splits)
  show ?thesis
  proof (cases "fc_status c")
    case modified
    with assms(2) have a: "AppManager_add env (?base @ fc_name c) ?base (fc_rank c) appm = Inr appm'"
      by (auto simp: change_manager_def Let_def split: if_splits)
    from get_desktop_id_base_Inr(2) [OF this] obtain ID where
      ID: "get_desktop_id_base (?base @ fc_name c) ?base = Inr ID" by blast
    from AppManager_add_spec [OF assms(1) ID r, of env] a
    show ?thesis using modified ID assms(4)
      by (auto simp: registry_change_def Let_def split: if_splits)
  next
    case deleted
    with assms(2) have a: "AppManager_remove (?base @ fc_name c) ?base appm = Inr appm'"
      by (auto simp: change_manager_def Let_def split: if_splits)
    from get_desktop_id_base_Inr(1) [OF this] obtain ID where
      ID: "get_desktop_id_base (?base @ fc_name c) ?base = Inr ID" by blast
    from AppManager_remove_consistent [OF assms(1) ID] a
    show ?thesis using deleted ID assms(4)
      by (auto simp: registry_change_def registry_remove_def Let_def split: if_splits)
  qed
qed

text \<open>C23: the changes a notifier reports are handled as its contract says: the applications the manager
  holds are afterwards those of the abstract map from desktop IDs to which the changes were applied
  one after the other, and files other than desktop files are ignored.\<close>

theorem handle_changes_refines:
  assumes "int (length (wc_search_path cfg)) \<le> INT_MAX"
    and "reachable appm" "handle_changes cfg env cs (appm, cl) = Inr (appm', cl')"
  shows "um_find (applications appm') =
    fold (registry_change env (wc_search_path cfg)) cs (um_find (applications appm))"
proof -
  have "consistent {} appm \<Longrightarrow> handle_changes cfg env cs (appm, cl) = Inr (appm', cl') \<Longrightarrow> ?thesis"
  proof (induction cs arbitrary: appm cl)
    case (Cons c cs)
    show ?case
    proof (cases "endswith (fc_name c) ''.desktop''")
      case False
      with Cons show ?thesis by (simp add: registry_change_def Let_def)
    next
      case True
      with Cons.prems(2) obtain appm1 cl1 where
        s: "change_manager env (wc_search_path cfg) c appm = Inr appm1"
          "handle_changes cfg env cs (appm1, cl1) = Inr (appm', cl')"
        by auto
      from change_manager_registry [OF Cons.prems(1) s(1) assms(1) True] Cons.IH [OF _ s(2)]
      show ?thesis by simp
    qed
  qed simp
  with assms(2,3) reachable_consistent show ?thesis by blast
qed

theorem handle_changes_refines_witness:
  "\<exists>appm' cl'. handle_changes sample_config sample_env sample_changes (sample_manager, sample_loop) =
     Inr (appm', cl') \<and> um_find (applications appm') ''x.desktop'' = None \<and>
     um_find (applications appm') ''y.desktop'' \<noteq> None"
proof -
  obtain cl where cl: "handle_changes sample_config sample_env sample_changes (sample_manager, sample_loop) =
      Inr (deleted_manager, cl)"
    using sample_handled by blast
  have "int (length (wc_search_path sample_config)) \<le> INT_MAX" by (simp add: sample_config_def INT_MAX_def)
  from handle_changes_refines [OF this sample_reachable cl]
  have "um_find (applications deleted_manager) =
      (um_find (applications sample_manager))(''x.desktop'' := None)"
    by (simp add: sample_changes_def sample_config_def registry_change_def registry_remove_def Let_def
        endswith_iff suffix_def get_desktop_id_base_def get_desktop_id_def)
  then have "um_find (applications deleted_manager) ''x.desktop'' = None"
    "um_find (applications deleted_manager) ''y.desktop'' \<noteq> None"
    by (simp_all add: sample_manager_def um_find_def)
  with cl show ?thesis by blast
qed

text \<open>However many bytes have piled up in the FIFO, they are one request: the last byte decides, a
  \<open>q\<close> ends the program and anything else opens one dialogue.\<close>

theorem burst_is_one_request:
  assumes "bytes \<noteq> []" "wr_fifo r = Some (map Byte bytes @ [answer] @ more_reads)"
    and "answer \<in> {End_of_file, Would_block}" "wr_changes r = None" "wr_sigchld r = None"
  shows "wait_on_round cfg r st =
    (if last bytes = CHR ''q'' then Inl (Exited EXIT_SUCCESS)
     else serve_request cfg r (last bytes) st)"
proof -
  have "last_byte d (map Byte bs @ [answer] @ more_reads) = (if bs = [] then d else last bs, answer)" for d bs
    using assms(3) by (induction bs arbitrary: d) auto
  then have "read_fifo (map Byte bytes @ [answer] @ more_reads) = Inr (Some (last bytes))"
    using assms(1,3) by (cases bytes) (auto simp: read_fifo_def)
  then show ?thesis
    using assms(2,4,5)
    by (cases "serve_request cfg r (last bytes) st")
      (auto simp: wait_on_round_def notify_part_def reap_children_def serve_request_def)
qed

theorem burst_is_one_request_witness:
  "\<forall>st. wait_on_round sample_config ((sample_round [] (Some [Byte (CHR ''x''), Byte (CHR ''q''), Would_block]))
     \<lparr>wr_changes := None\<rparr>) st = Inl (Exited EXIT_SUCCESS)"
  by (intro allI, subst burst_is_one_request [where bytes = "''xq''" and answer = Would_block and more_reads = "[]"])
    (simp_all add: sample_round_def)

end
