(* ===== verification/CommandLine.thy ===== *)
theory CommandLine
  imports OptionsFacts
begin

text \<open>
  From the words of the command line to the options: the table of options in \<open>main\<close> (\<open>src/main.cc\<close>),
  what \<open>getopt_long\<close> makes of \<open>argv\<close> with it, and the text \<open>print_usage\<close> prints. \<open>getopt_long\<close> is the
  function of the C library as its manual page describes it, with the words that are no options
  moved behind the others.
\<close>

section \<open>The table\<close>

text \<open>Name, whether an argument is required, and the character that is returned.\<close>

definition long_options :: "(string \<times> bool \<times> char) list" where
  "long_options =
     [(''dmenu'', True, CHR ''d''),
      (''use-xdg-de'', False, CHR ''x''),
      (''term'', True, CHR ''t''),
      (''term-mode'', True, CHR ''T''),
      (''help'', False, CHR ''h''),
      (''display-binary'', False, CHR ''b''),
      (''display-binary-base'', False, CHR ''f''),
      (''no-generic'', False, CHR ''n''),
      (''usage-log'', True, CHR ''l''),
      (''prune-bad-usage-log-entries'', False, CHR ''p''),
      (''wait-on'', True, CHR ''w''),
      (''no-exec'', False, CHR ''e''),
      (''wrapper'', True, CHR ''W''),
      (''case-insensitive'', False, CHR ''i''),
      (''i3-ipc'', False, CHR ''I''),
      (''skip-i3-exec-check'', False, CHR ''S''),
      (''log-level'', True, CHR ''o''),
      (''log-file'', True, CHR ''O''),
      (''log-file-level'', True, CHR ''V''),
      (''desktop-file-quirks'', True, CHR ''D''),
      (''strict-parsing'', False, CHR ''R''),
      (''version'', False, CHR ''E'')]"

text \<open>The string \<open>d:t:xhbfiIv\<close>; a colon stands for a required argument.\<close>

definition short_options :: string where
  "short_options = ''d:t:xhbfiIv''"

fun short_option :: "string \<Rightarrow> char \<Rightarrow> bool option" where
  "short_option [] c = None"
| "short_option [x] c = (if x = c then Some False else None)"
| "short_option (x # y # xs) c =
     (if y = CHR '':'' then (if x = c then Some True else short_option xs c)
      else if x = c then Some False else short_option (y # xs) c)"

section \<open>getopt_long\<close>

text \<open>
  The name of the table that is given: itself, or a prefix no other name has. Names have no common
  return value, so any two names with the prefix make it ambiguous.
\<close>

definition find_long :: "string \<Rightarrow> (bool \<times> char) option" where
  "find_long name =
     (case map_of long_options name of
        Some entry \<Rightarrow> Some entry
      | None \<Rightarrow>
          (case filter (\<lambda>e. prefix name (fst e)) long_options of
             [e] \<Rightarrow> Some (snd e)
           | _ \<Rightarrow> None))"

text \<open>What is returned for an unknown or ambiguous option and for one without its argument.\<close>

definition bad_option :: "char \<times> string" where
  "bad_option = (CHR ''?'', [])"

text \<open>
  A word of short options, and a long option, with the words after it: the options found and the
  words left over, \<open>None\<close> when the last option found is bad (the program ends there).
\<close>

fun short_word :: "string \<Rightarrow> string list \<Rightarrow> (char \<times> string) list \<times> string list option" where
  "short_word [] rest = ([], Some rest)"
| "short_word (c # cs) rest =
     (case if c = CHR '':'' then None else short_option short_options c of
        None \<Rightarrow> ([bad_option], None)
      | Some False \<Rightarrow> (case short_word cs rest of (found, left) \<Rightarrow> ((c, []) # found, left))
      | Some True \<Rightarrow>
          if cs \<noteq> [] then ([(c, cs)], Some rest)
          else (case rest of [] \<Rightarrow> ([bad_option], None) | v # rest' \<Rightarrow> ([(c, v)], Some rest')))"

definition long_word :: "string \<Rightarrow> string list \<Rightarrow> (char \<times> string) list \<times> string list option" where
  "long_word word rest =
     (let name = takeWhile (\<lambda>c. c \<noteq> CHR ''='') word; behind = dropWhile (\<lambda>c. c \<noteq> CHR ''='') word in
      case find_long name of
        None \<Rightarrow> ([bad_option], None)
      | Some (False, c) \<Rightarrow> if behind = [] then ([(c, [])], Some rest) else ([bad_option], None)
      | Some (True, c) \<Rightarrow>
          if behind \<noteq> [] then ([(c, tl behind)], Some rest)
          else (case rest of [] \<Rightarrow> ([bad_option], None) | v # rest' \<Rightarrow> ([(c, v)], Some rest')))"

definition option_word :: "string \<Rightarrow> string list \<Rightarrow> (char \<times> string) list \<times> string list option" where
  "option_word word rest =
     (if prefix ''--'' word then long_word (drop 2 word) rest else short_word (drop 1 word) rest)"

definition is_option_word :: "string \<Rightarrow> bool" where
  "is_option_word word \<longleftrightarrow> prefix ''-'' word \<and> word \<noteq> ''-''"

lemma short_word_left: "short_word cs rest = (found, Some left) \<Longrightarrow> length left \<le> length rest"
  by (induction cs rest arbitrary: found rule: short_word.induct)
    (auto split: option.splits bool.splits if_splits list.splits prod.splits)

lemma long_word_left: "long_word word rest = (found, Some left) \<Longrightarrow> length left \<le> length rest"
  by (auto simp: long_word_def Let_def split: option.splits bool.splits if_splits list.splits)

lemma option_word_left: "option_word word rest = (found, Some left) \<Longrightarrow> length left \<le> length rest"
  by (auto simp: option_word_def dest: short_word_left long_word_left split: if_splits)

text \<open>All the calls of \<open>getopt_long\<close> until it returns -1: what they return, and the other words.\<close>

function getopt_long :: "string list \<Rightarrow> (char \<times> string) list \<times> string list" where
  "getopt_long [] = ([], [])"
| "getopt_long (word # rest) =
     (if word = ''--'' then ([], rest)
      else if \<not> is_option_word word then map_prod id ((#) word) (getopt_long rest)
      else
        (case option_word word rest of
           (found, None) \<Rightarrow> (found, rest)
         | (found, Some left) \<Rightarrow> map_prod ((@) found) id (getopt_long left)))"
  by pat_completeness auto
termination
  by (relation "measure length") (auto dest: option_word_left [OF sym])

declare getopt_long.simps(2) [simp del]

text \<open>The loop of \<open>main\<close> over them; positional words are only warned about.\<close>

definition parse_argv :: "string list \<Rightarrow> fault + options \<times> string list" where
  "parse_argv argv =
     (case getopt_long argv of (args, positional) \<Rightarrow>
        bind_sum (parse_options args default_options) (\<lambda>opts. Inr (opts, positional)))"

section \<open>The usage\<close>

text \<open>The lines of the text; how the program is built decides \<open>debug\<close> and \<open>notifier_name\<close> (inotify or kqueue).\<close>

definition usage_lines :: "bool \<Rightarrow> string \<Rightarrow> string list" where
  "usage_lines debug notifier_name =
     [''j4-dmenu-desktop'',
      ''A faster replacement for i3-dmenu-desktop'',
      ''Copyright (c) 2013 Marian Beermann, GPLv3 license'',
      [],
      ''Usage:'',
      ''    j4-dmenu-desktop [--dmenu='' @ [DQUOTE] @ ''dmenu -i'' @ [DQUOTE] @ ''] [--term='' @ [DQUOTE] @ ''i3-sensible-terminal'' @ [DQUOTE] @ '']'',
      ''    j4-dmenu-desktop --help'',
      [],
      ''Options:'',
      ''    -b, --display-binary'',
      ''        Display binary name after each entry (off by default)'',
      ''    -f, --display-binary-base'',
      ''        Display basename of binary name after each entry (off by default)'',
      ''    -d, --dmenu=<command>'',
      ''        Determines the command used to invoke dmenu'',
      ''    --no-exec'',
      ''        Do not execute selected command, send to stdout instead'',
      ''    --no-generic'',
      ''        Do not include the generic name of desktop entries'',
      ''    -t, --term=<command>'',
      ''        Sets the terminal emulator used to start terminal apps'',
      ''    --term-mode=default | xterm | alacritty | kitty | terminator |'',
      ''                gnome-terminal | custom'',
      ''        Instruct j4-dmenu-desktop on how it should execute terminal'',
      ''        emulator; this also changes the default value of --term.'',
      ''        See the manpage for more info.'',
      ''    --usage-log=<file>'',
      ''        Use file as usage log (enables sorting by usage frequency)'',
      ''    --prune-bad-usage-log-entries'',
      ''        Remove names marked in usage log with no corresponding desktop files'',
      ''    -x, --use-xdg-de'',
      ''        Enables reading $XDG_CURRENT_DESKTOP to determine the desktop environment'',
      ''    --wait-on=<path>'',
      ''        Enable daemon mode'',
      ''    --wrapper=<wrapper>'',
      ''        A wrapper binary.'',
      ''        Usage of '' @ [SQUOTE] @ ''--wrapper '' @ [DQUOTE] @ ''i3 exec'' @ [DQUOTE] @ [SQUOTE] @ '' and '' @ [SQUOTE] @ ''--wrapper '' @ [DQUOTE] @ ''sway exec'' @ [DQUOTE] @ [SQUOTE] @ '' is deprecated,'',
      ''        use '' @ [SQUOTE] @ ''--i3-ipc'' @ [SQUOTE] @ '' instead.'',
      ''    -I, --i3-ipc'',
      ''        Execute desktop entries through i3 IPC. Requires i3 to be running.'',
      ''    --skip-i3-exec-check'',
      ''        Disable the check for '' @ [SQUOTE] @ ''--wrapper '' @ [DQUOTE] @ ''i3 exec'' @ [DQUOTE] @ [SQUOTE] @ ''.'',
      ''        j4-dmenu-desktop has direct support for i3 through the -I flag which should be'',
      ''        used instead of the --wrapper option. j4-dmenu-desktop detects this and exits.'',
      ''        This flag overrides this.'',
      ''    -v'',
      ''        Be more verbose'',
      ''    --log-level=ERROR | WARNING | INFO | DEBUG'',
      ''        Set log level'',
      ''    --log-file'',
      ''        Specify a log file'',
      ''    --log-file-level=ERROR | WARNING | INFO | DEBUG'',
      ''        Set file log level'',
      ''    --desktop-file-compatibility=wine'',
      ''        Enable nonconformant desktop file parsing quirks. Available modes: wine.'',
      ''    --strict-parsing'',
      ''        Enable strict desktop file parsing. Mutaly exclusive with'',
      ''        --desktop-file-compatibility.'',
      ''    --version'',
      ''        Display program version'',
      ''    -h, --help'',
      ''        Display this help message'',
      [],
      ''See the manpage for a more detailed description of the flags.'',
      ''j4-dmenu-desktop is compiled with '' @ notifier_name @ '' support.''] @
     (if debug then [''DEBUG enabled.''] else [])"

definition print_usage :: "bool \<Rightarrow> string \<Rightarrow> string" where
  "print_usage debug notifier_name = concat (map (\<lambda>line. line @ [NL]) (usage_lines debug notifier_name))"

section \<open>How an option is written\<close>

text \<open>A name, or a prefix that only one name has.\<close>

definition stands_for :: "string \<Rightarrow> string \<Rightarrow> bool" where
  "stands_for p name \<longleftrightarrow>
     p = name \<or> prefix p name \<and> (\<forall>e \<in> set long_options. prefix p (fst e) \<longrightarrow> fst e = name)"

definition short_flags :: "string \<Rightarrow> bool" where
  "short_flags fs \<longleftrightarrow> (\<forall>c \<in> set fs. c \<noteq> CHR '':'' \<and> short_option short_options c = Some False)"

definition flags :: "string \<Rightarrow> (char \<times> string) list" where
  "flags fs = map (\<lambda>c. (c, [])) fs"

definition takes_argument :: "char \<Rightarrow> bool" where
  "takes_argument c \<longleftrightarrow> c \<noteq> CHR '':'' \<and> short_option short_options c = Some True"

inductive written :: "string list \<Rightarrow> (char \<times> string) list \<Rightarrow> string list \<Rightarrow> bool" where
  nothing: "written [] [] []"
| end_of_options: "written (''--'' # ws) [] ws"
| positional: "\<not> is_option_word w \<Longrightarrow> written ws os ps \<Longrightarrow> written (w # ws) os (w # ps)"
| long_flag: "(name, False, c) \<in> set long_options \<Longrightarrow> stands_for p name \<Longrightarrow> written ws os ps \<Longrightarrow>
    written ((''--'' @ p) # ws) ((c, []) # os) ps"
| long_joined: "(name, True, c) \<in> set long_options \<Longrightarrow> stands_for p name \<Longrightarrow> written ws os ps \<Longrightarrow>
    written ((''--'' @ p @ ''='' @ v) # ws) ((c, v) # os) ps"
| long_next: "(name, True, c) \<in> set long_options \<Longrightarrow> stands_for p name \<Longrightarrow> written ws os ps \<Longrightarrow>
    written ((''--'' @ p) # v # ws) ((c, v) # os) ps"
| short_cluster: "short_flags fs \<Longrightarrow> fs \<noteq> [] \<Longrightarrow> written ws os ps \<Longrightarrow>
    written ((''-'' @ fs) # ws) (flags fs @ os) ps"
| short_joined: "short_flags fs \<Longrightarrow> takes_argument c \<Longrightarrow> v \<noteq> [] \<Longrightarrow> written ws os ps \<Longrightarrow>
    written ((''-'' @ fs @ c # v) # ws) (flags fs @ (c, v) # os) ps"
| short_next: "short_flags fs \<Longrightarrow> takes_argument c \<Longrightarrow> written ws os ps \<Longrightarrow>
    written ((''-'' @ fs @ [c]) # v # ws) (flags fs @ (c, v) # os) ps"

subsection \<open>The table is unambiguous\<close>

lemma long_names: "distinct (map fst long_options)" "\<forall>e \<in> set long_options. CHR ''='' \<notin> set (fst e) \<and> fst e \<noteq> []"
  by (simp_all add: long_options_def)

lemma filter_unique:
  "distinct xs \<Longrightarrow> x \<in> set xs \<Longrightarrow> (\<And>y. y \<in> set xs \<Longrightarrow> P y \<longleftrightarrow> y = x) \<Longrightarrow> filter P xs = [x]"
proof (induction xs)
  case (Cons z xs)
  then show ?case by (cases "z = x") (auto simp: filter_empty_conv)
qed simp

lemma find_long_stands_for:
  assumes "(name, a, c) \<in> set long_options" "stands_for p name"
  shows "find_long p = Some (a, c)"
proof (cases "p \<in> fst ` set long_options")
  case True
  with assms(2) have "p = name" by (auto simp: stands_for_def)
  with assms(1) long_names(1) have "map_of long_options p = Some (a, c)" by simp
  then show ?thesis by (simp add: find_long_def)
next
  case False
  then have none: "map_of long_options p = None" by (simp add: map_of_eq_None_iff)
  have "p \<noteq> name" using False assms(1) by force
  with assms(2) have p: "prefix p name" "\<forall>e \<in> set long_options. prefix p (fst e) \<longrightarrow> fst e = name"
    by (auto simp: stands_for_def)
  have "filter (\<lambda>e. prefix p (fst e)) long_options = [(name, a, c)]"
  proof (rule filter_unique [OF _ assms(1)])
    show "distinct long_options" using long_names(1) by (simp add: distinct_map)
    fix e assume e: "e \<in> set long_options"
    show "prefix p (fst e) \<longleftrightarrow> e = (name, a, c)"
    proof
      assume "prefix p (fst e)"
      with p(2) e have "fst e = name" by blast
      with e assms(1) long_names(1) show "e = (name, a, c)" by (metis eq_key_imp_eq_value prod.collapse)
    qed (use p(1) in simp)
  qed
  with none show ?thesis by (simp add: find_long_def)
qed

lemma stands_for_no_equals:
  assumes "(name, a, c) \<in> set long_options" "stands_for p name"
  shows "CHR ''='' \<notin> set p"
proof -
  have "set p \<subseteq> set name" using assms(2) by (auto simp: stands_for_def dest: set_mono_prefix)
  with assms(1) long_names(2) show ?thesis by force
qed

lemma stands_for_nonempty:
  assumes "(name, a, c) \<in> set long_options" "stands_for p name"
  shows "p \<noteq> []"
proof
  assume "p = []"
  with assms long_names(2) have "\<forall>e \<in> set long_options. fst e = name" by (fastforce simp: stands_for_def)
  moreover have "(''dmenu'', True, CHR ''d'') \<in> set long_options" "(''term'', True, CHR ''t'') \<in> set long_options"
    by (simp_all add: long_options_def)
  ultimately have "''dmenu'' = name" "''term'' = name" by fastforce+
  then show False by auto
qed

lemma takeWhile_no_equals:
  assumes "CHR ''='' \<notin> set p"
  shows "takeWhile (\<lambda>c. c \<noteq> CHR ''='') p = p" "dropWhile (\<lambda>c. c \<noteq> CHR ''='') p = []"
    "takeWhile (\<lambda>c. c \<noteq> CHR ''='') (p @ CHR ''='' # v) = p"
    "dropWhile (\<lambda>c. c \<noteq> CHR ''='') (p @ CHR ''='' # v) = CHR ''='' # v"
  using assms by (auto simp: takeWhile_eq_all_conv dropWhile_eq_Nil_conv takeWhile_append dropWhile_append)

lemma short_word_flags:
  "short_flags fs \<Longrightarrow> short_word (fs @ cs) rest =
     (case short_word cs rest of (found, left) \<Rightarrow> (flags fs @ found, left))"
  by (induction fs) (auto simp: short_flags_def flags_def split: prod.splits)

lemma short_dash: "short_option short_options (CHR ''-'') = None"
  by code_simp

lemma takes_argument_dash [simp]: "takes_argument c \<Longrightarrow> c \<noteq> CHR ''-''"
  using short_dash by (auto simp: takes_argument_def)

lemma short_flags_dash: "short_flags (c # fs) \<Longrightarrow> c \<noteq> CHR ''-''"
  unfolding short_flags_def using short_dash by (metis list.set_intros(1) option.distinct(1))

lemma short_first:
  assumes "short_flags fs"
  shows "takes_argument c \<Longrightarrow> hd (fs @ c # v) \<noteq> CHR ''-''" "fs \<noteq> [] \<Longrightarrow> hd fs \<noteq> CHR ''-''"
  using assms by (cases fs; auto dest: short_flags_dash)+

lemma option_word_short: "hd cs \<noteq> CHR ''-'' \<Longrightarrow> cs \<noteq> [] \<Longrightarrow>
    option_word (''-'' @ cs) rest = short_word cs rest \<and> is_option_word (''-'' @ cs) \<and> ''-'' @ cs \<noteq> ''--''"
  by (cases cs) (auto simp: option_word_def is_option_word_def)

lemma getopt_long_option:
  assumes "is_option_word word" "word \<noteq> ''--''" "option_word word rest = (found, Some left)"
  shows "getopt_long (word # rest) = map_prod ((@) found) id (getopt_long left)"
  using assms by (simp add: getopt_long.simps(2))

lemma getopt_long_written: "written ws os ps \<Longrightarrow> getopt_long ws = (os, ps)"
proof (induction rule: written.induct)
  case (long_flag name c p ws os ps)
  note n = find_long_stands_for [OF long_flag(1,2)] stands_for_no_equals [OF long_flag(1,2)]
    stands_for_nonempty [OF long_flag(1,2)]
  have "option_word (''--'' @ p) ws = ([(c, [])], Some ws)"
    using n by (simp add: option_word_def long_word_def takeWhile_no_equals)
  from getopt_long_option [OF _ _ this] n long_flag.IH show ?case by (simp add: is_option_word_def)
next
  case (long_joined name c p ws os ps v)
  note n = find_long_stands_for [OF long_joined(1,2)] stands_for_no_equals [OF long_joined(1,2)]
  have "option_word (''--'' @ p @ ''='' @ v) ws = ([(c, v)], Some ws)"
    using n by (simp add: option_word_def long_word_def takeWhile_no_equals)
  from getopt_long_option [OF _ _ this] long_joined.IH show ?case by (simp add: is_option_word_def)
next
  case (long_next name c p ws os ps v)
  note n = find_long_stands_for [OF long_next(1,2)] stands_for_no_equals [OF long_next(1,2)]
    stands_for_nonempty [OF long_next(1,2)]
  have "option_word (''--'' @ p) (v # ws) = ([(c, v)], Some ws)"
    using n by (simp add: option_word_def long_word_def takeWhile_no_equals)
  from getopt_long_option [OF _ _ this] n long_next.IH show ?case by (simp add: is_option_word_def)
next
  case (short_cluster fs ws os ps)
  have "short_word fs ws = (flags fs, Some ws)"
    using short_word_flags [OF short_cluster(1), of "[]" ws] by simp
  with option_word_short [OF short_first(2) [OF short_cluster(1,2)] short_cluster(2), of ws] short_cluster.IH
  show ?case using getopt_long_option [of "''-'' @ fs" ws] by simp
next
  case (short_joined fs c v ws os ps)
  have "short_word (fs @ c # v) ws = (flags fs @ [(c, v)], Some ws)"
    using short_word_flags [OF short_joined(1), of "c # v" ws] short_joined(2,3) by (simp add: takes_argument_def)
  with option_word_short [OF short_first(1) [OF short_joined(1,2)], of v ws] short_joined.IH
  show ?case using getopt_long_option [of "''-'' @ fs @ c # v" ws] by simp
next
  case (short_next fs c ws os ps v)
  have "short_word (fs @ [c]) (v # ws) = (flags fs @ [(c, v)], Some ws)"
    using short_word_flags [OF short_next(1), of "[c]" "v # ws"] short_next(2) by (simp add: takes_argument_def)
  with option_word_short [OF short_first(1) [OF short_next(1,2)], of "[]" "v # ws"] short_next.IH
  show ?case using getopt_long_option [of "''-'' @ fs @ [c]" "v # ws"] by simp
next
  case (positional w ws os ps)
  then show ?case by (auto simp: getopt_long.simps(2) is_option_word_def)
qed (simp_all add: getopt_long.simps(2))

subsection \<open>Nothing else is accepted\<close>

lemma find_long_inv:
  assumes "find_long p = Some (a, c)"
  shows "\<exists>name. (name, a, c) \<in> set long_options \<and> stands_for p name"
proof (cases "map_of long_options p")
  case (Some entry)
  with assms have "map_of long_options p = Some (a, c)" by (simp add: find_long_def)
  then show ?thesis by (auto simp: stands_for_def dest: map_of_SomeD)
next
  case None
  with assms obtain e where e: "filter (\<lambda>e. prefix p (fst e)) long_options = [e]" "snd e = (a, c)"
    by (auto simp: find_long_def split: list.splits)
  from e(1) have "set (filter (\<lambda>e. prefix p (fst e)) long_options) = {e}" by simp
  then have members: "e' \<in> set long_options \<and> prefix p (fst e') \<longleftrightarrow> e' = e" for e' by auto
  then have "(fst e, a, c) \<in> set long_options" using e(2) by (metis prod.collapse)
  moreover have "stands_for p (fst e)" using members [of e] members unfolding stands_for_def by metis
  ultimately show ?thesis by blast
qed

lemma short_word_inv:
  "short_word cs rest = (found, Some left) \<Longrightarrow>
     short_flags cs \<and> found = flags cs \<and> left = rest \<or>
     (\<exists>fs c v. short_flags fs \<and> takes_argument c \<and> found = flags fs @ [(c, v)] \<and>
        (cs = fs @ c # v \<and> v \<noteq> [] \<and> left = rest \<or> cs = fs @ [c] \<and> rest = v # left))"
proof (induction cs rest arbitrary: found rule: short_word.induct)
  case (1 rest)
  then show ?case by (simp add: short_flags_def flags_def)
next
  case (2 c cs rest)
  show ?case
  proof (cases "c \<noteq> CHR '':'' \<and> short_option short_options c = Some False")
    case True
    with 2 obtain found' where f: "found = (c, []) # found'" "short_word cs rest = (found', Some left)"
      by (auto split: prod.splits)
    from True have "(if c = CHR '':'' then None else short_option short_options c) = Some False" by simp
    from "2.IH" [OF this refl f(2)] show ?thesis
    proof (elim disjE exE conjE)
      fix fs c' v
      assume "short_flags fs" "takes_argument c'" "found' = flags fs @ [(c', v)]"
        "cs = fs @ c' # v" "v \<noteq> []" "left = rest"
      with True f show ?thesis
        by (intro disjI2 exI [of _ "c # fs"] exI [of _ c'] exI [of _ v]) (simp add: short_flags_def flags_def)
    next
      fix fs c' v
      assume "short_flags fs" "takes_argument c'" "found' = flags fs @ [(c', v)]"
        "cs = fs @ [c']" "rest = v # left"
      with True f show ?thesis
        by (intro disjI2 exI [of _ "c # fs"] exI [of _ c'] exI [of _ v]) (simp add: short_flags_def flags_def)
    qed (use True f in \<open>simp add: short_flags_def flags_def\<close>)
  next
    case False
    with 2(2) have c: "takes_argument c"
      by (auto simp: takes_argument_def split: if_splits option.splits bool.splits)
    have "short_flags []" "flags [] = []" by (simp_all add: short_flags_def flags_def)
    with c 2(2) False show ?thesis
      by (intro disjI2 exI [of _ "[]"] exI [of _ c] exI [of _ "snd (hd found)"])
        (auto simp: takes_argument_def split: if_splits list.splits)
  qed
qed

lemma equals_split: "CHR ''='' \<notin> set w \<or> (\<exists>v. w = takeWhile (\<lambda>c. c \<noteq> CHR ''='') w @ CHR ''='' # v)"
proof (cases "dropWhile (\<lambda>c. c \<noteq> CHR ''='') w")
  case (Cons c v)
  then have "c = CHR ''=''" by (simp add: dropWhile_eq_Cons_conv)
  with Cons takeWhile_dropWhile_id [of "\<lambda>c. c \<noteq> CHR ''=''" w] show ?thesis by metis
qed (auto simp: dropWhile_eq_Nil_conv)

lemma written_option_word:
  assumes "option_word word rest = (found, Some left)" "is_option_word word" "written left os ps"
  shows "written (word # rest) (found @ os) ps"
proof (cases "prefix ''--'' word")
  case True
  then obtain w where w: "word = ''--'' @ w" by (auto simp: prefix_def)
  let ?name = "takeWhile (\<lambda>c. c \<noteq> CHR ''='') w"
  have long: "long_word w rest = (found, Some left)" using assms(1) w by (simp add: option_word_def)
  then obtain a c where "find_long ?name = Some (a, c)"
    by (auto simp: long_word_def Let_def split: option.splits)
  from find_long_inv [OF this] obtain name where n: "(name, a, c) \<in> set long_options" "stands_for ?name name"
    by blast
  note find = \<open>find_long ?name = Some (a, c)\<close>
  from equals_split [of w] show ?thesis
  proof (elim disjE exE)
    assume none: "CHR ''='' \<notin> set w"
    then have same: "?name = w" "dropWhile (\<lambda>c. c \<noteq> CHR ''='') w = []" by (simp_all add: takeWhile_no_equals)
    show ?thesis
      using long find n assms(3) unfolding same
      by (cases a) (auto simp: w long_word_def same split: list.splits
          intro: long_flag [of _ _ w, simplified] long_next [of _ _ w, simplified])
  next
    fix v assume v: "w = ?name @ CHR ''='' # v"
    have behind: "dropWhile (\<lambda>c. c \<noteq> CHR ''='') w = CHR ''='' # v"
      using v takeWhile_dropWhile_id [of "\<lambda>c. c \<noteq> CHR ''=''" w] by (metis same_append_eq)
    have a: "a" "found = [(c, v)]" "left = rest"
      using long find by (auto simp: long_word_def behind Let_def split: bool.splits)
    with n(1) have "(name, True, c) \<in> set long_options" by simp
    from long_joined [OF this n(2) assms(3), of v] v a show ?thesis by (simp add: w)
  qed
next
  case False
  then obtain cs where cs: "word = ''-'' @ cs" "cs \<noteq> []" using assms(2) by (auto simp: is_option_word_def prefix_def)
  with assms(1) False have "short_word cs rest = (found, Some left)" by (simp add: option_word_def)
  from short_word_inv [OF this] cs assms(3) show ?thesis
    by (elim disjE exE conjE)
      (use short_cluster [of cs left os ps] short_joined [of _ _ _ left os ps] short_next [of _ _ left os ps] in auto)
qed

lemma option_word_stops: "option_word word rest = (found, None) \<Longrightarrow> bad_option \<in> set found"
proof -
  have "short_word cs rest = (found, None) \<Longrightarrow> bad_option \<in> set found" for cs rest found
    by (induction cs rest arbitrary: found rule: short_word.induct)
      (auto split: option.splits bool.splits if_splits list.splits prod.splits)
  then show "option_word word rest = (found, None) \<Longrightarrow> bad_option \<in> set found"
    by (auto simp: option_word_def long_word_def Let_def
      split: if_splits option.splits bool.splits list.splits)
qed

lemma written_getopt_long: "getopt_long ws = (os, ps) \<Longrightarrow> bad_option \<notin> set os \<Longrightarrow> written ws os ps"
proof (induction ws arbitrary: os ps rule: getopt_long.induct)
  case 1
  then show ?case by (auto intro: written.nothing)
next
  case (2 word rest)
  consider "word = ''--''" | "word \<noteq> ''--''" "\<not> is_option_word word"
    | "word \<noteq> ''--''" "is_option_word word" by blast
  then show ?case
  proof cases
    case 1
    with 2(3) show ?thesis by (simp add: getopt_long.simps(2) end_of_options)
  next
    case 2
    with "2.prems" "2.IH"(1) show ?thesis
      by (cases "getopt_long rest") (auto simp: getopt_long.simps(2) intro: positional)
  next
    case 3
    obtain found left where f: "option_word word rest = (found, left)" by (cases "option_word word rest")
    show ?thesis
    proof (cases left)
      case None
      with 3 f "2.prems" option_word_stops show ?thesis by (auto simp: getopt_long.simps(2))
    next
      case (Some ws)
      obtain os' where os': "getopt_long ws = (os', ps)" "os = found @ os'"
        using 3 f Some "2.prems"(1) by (cases "getopt_long ws") (auto simp: getopt_long.simps(2))
      from "2.IH"(2) [OF 3(1) _ f [symmetric] Some os'(1)] 3(2) "2.prems"(2) os'(2)
      have "written ws os' ps" by simp
      with written_option_word [of word rest found ws] f Some 3(2) os'(2) show ?thesis by simp
    qed
  qed
qed

lemma table_characters: "\<forall>e \<in> set long_options. snd (snd e) \<noteq> CHR ''?''"
  by (simp add: long_options_def)

lemma short_question: "short_option short_options (CHR ''?'') = None"
  by code_simp

lemma flags_good: "short_flags fs \<Longrightarrow> bad_option \<notin> set (flags fs)"
  unfolding short_flags_def flags_def bad_option_def using short_question by fastforce

lemma written_good: "written ws os ps \<Longrightarrow> bad_option \<notin> set os"
proof (induction rule: written.induct)
  case (long_flag name c p ws os ps)
  with table_characters show ?case by (force simp: bad_option_def)
next
  case (long_joined name c p ws os ps v)
  with table_characters show ?case by (force simp: bad_option_def)
next
  case (long_next name c p ws os ps v)
  with table_characters show ?case by (force simp: bad_option_def)
next
  case (short_joined fs c v ws os ps)
  with short_question flags_good show ?case by (auto simp: bad_option_def takes_argument_def)
next
  case (short_next fs c ws os ps v)
  with short_question flags_good show ?case by (auto simp: bad_option_def takes_argument_def)
qed (use flags_good in auto)

lemma parse_options_exits: "parse_options args opts = Inl e \<Longrightarrow> \<exists>n. e = Exited n"
  by (induction args opts rule: parse_options.induct) (auto simp: bind_sum_eq_Inl dest: handle_option_exits)

lemma parse_options_bad: "bad_option \<in> set args \<Longrightarrow> \<exists>e. parse_options args opts = Inl e"
proof (induction args opts rule: parse_options.induct)
  case (2 c a rest opts)
  show ?case
  proof (cases "(c, a) = bad_option")
    case True
    then show ?thesis by (simp add: bad_option_def handle_option_def)
  next
    case False
    with 2 show ?thesis by (cases "handle_option c a opts") auto
  qed
qed simp


section \<open>What the usage says\<close>

text \<open>
  An entry of the list of options is a line indented by four blanks: a short option, a long one or
  both; the long one has an equals sign before what it takes.
\<close>

definition long_entry :: "string \<Rightarrow> string \<times> bool" where
  "long_entry s = (takeWhile (\<lambda>c. c \<noteq> CHR ''='') s, dropWhile (\<lambda>c. c \<noteq> CHR ''='') s \<noteq> [])"

definition usage_entry :: "string \<Rightarrow> char option \<times> (string \<times> bool) option" where
  "usage_entry s =
     (if prefix ''--'' s then (None, Some (long_entry (drop 2 s)))
      else if length s \<le> 2 then (Some (s ! 1), None)
      else (Some (s ! 1), Some (long_entry (drop 6 s))))"

definition documented :: "bool \<Rightarrow> string \<Rightarrow> (char option \<times> (string \<times> bool) option) list" where
  "documented debug notifier_name =
     map (\<lambda>line. usage_entry (drop 4 line)) (filter (prefix ''    -'') (usage_lines debug notifier_name))"

definition long_documented :: "bool \<Rightarrow> string \<Rightarrow> (string \<times> bool) list" where
  "long_documented debug notifier_name = List.map_filter snd (documented debug notifier_name)"

lemma documented_entries:
  "documented debug notifier_name =
     [(Some (CHR ''b''), Some (''display-binary'', False)), (Some (CHR ''f''), Some (''display-binary-base'', False)),
      (Some (CHR ''d''), Some (''dmenu'', True)), (None, Some (''no-exec'', False)),
      (None, Some (''no-generic'', False)), (Some (CHR ''t''), Some (''term'', True)),
      (None, Some (''term-mode'', True)), (None, Some (''usage-log'', True)),
      (None, Some (''prune-bad-usage-log-entries'', False)), (Some (CHR ''x''), Some (''use-xdg-de'', False)),
      (None, Some (''wait-on'', True)), (None, Some (''wrapper'', True)), (Some (CHR ''I''), Some (''i3-ipc'', False)),
      (None, Some (''skip-i3-exec-check'', False)), (Some (CHR ''v''), None), (None, Some (''log-level'', True)),
      (None, Some (''log-file'', False)), (None, Some (''log-file-level'', True)),
      (None, Some (''desktop-file-compatibility'', True)), (None, Some (''strict-parsing'', False)),
      (None, Some (''version'', False)), (Some (CHR ''h''), Some (''help'', False))]"
  by (cases debug) (simp_all add: documented_def usage_lines_def usage_entry_def long_entry_def)

lemma long_documented_entries:
  "long_documented debug notifier_name =
     [(''display-binary'', False), (''display-binary-base'', False), (''dmenu'', True), (''no-exec'', False),
      (''no-generic'', False), (''term'', True), (''term-mode'', True), (''usage-log'', True),
      (''prune-bad-usage-log-entries'', False), (''use-xdg-de'', False), (''wait-on'', True), (''wrapper'', True),
      (''i3-ipc'', False), (''skip-i3-exec-check'', False), (''log-level'', True), (''log-file'', False),
      (''log-file-level'', True), (''desktop-file-compatibility'', True), (''strict-parsing'', False),
      (''version'', False), (''help'', False)]"
  by (simp add: long_documented_def documented_entries map_filter_simps)

text \<open>The usage and the table of options agree but for four options. It names an option that the program
  does not know (who follows it gets an error), does not name two that it does know, and shows one
  without the argument that is required; every short option it gives for a long one is the one of
  the table.\<close>

theorem usage_agrees:
  "filter (\<lambda>name. name \<notin> fst ` set long_options) (map fst (long_documented debug notifier_name)) =
     [''desktop-file-compatibility''] \<and>
   filter (\<lambda>name. name \<notin> fst ` set (long_documented debug notifier_name)) (map fst long_options) =
     [''case-insensitive'', ''desktop-file-quirks''] \<and>
   map fst (filter (\<lambda>(name, argument). (name, \<not> argument) \<in> map_prod id fst ` set long_options)
     (long_documented debug notifier_name)) = [''log-file''] \<and>
   filter (\<lambda>e. \<exists>c name argument. e = (Some c, Some (name, argument)) \<and> (name, c) \<notin> map_prod id snd ` set long_options)
     (documented debug notifier_name) = [] \<and>
   parse_argv [''--desktop-file-compatibility=wine''] = Inl (Exited 1) \<and>
   parse_argv [''--log-file''] = Inl (Exited 1)"
proof (intro conjI)
  show "filter (\<lambda>name. name \<notin> fst ` set long_options) (map fst (long_documented debug notifier_name)) =
     [''desktop-file-compatibility'']"
    by (simp add: long_documented_entries long_options_def)
  show "filter (\<lambda>name. name \<notin> fst ` set (long_documented debug notifier_name)) (map fst long_options) =
     [''case-insensitive'', ''desktop-file-quirks'']"
    by (simp add: long_documented_entries long_options_def)
  show "map fst (filter (\<lambda>(name, argument). (name, \<not> argument) \<in> map_prod id fst ` set long_options)
     (long_documented debug notifier_name)) = [''log-file'']"
    by (simp add: long_documented_entries long_options_def)
  show "filter (\<lambda>e. \<exists>c name argument. e = (Some c, Some (name, argument)) \<and> (name, c) \<notin> map_prod id snd ` set long_options)
     (documented debug notifier_name) = []"
    by (simp add: documented_entries long_options_def)
  show "parse_argv [''--desktop-file-compatibility=wine''] = Inl (Exited 1)"
    by (simp add: parse_argv_def getopt_long.simps(2) is_option_word_def option_word_def long_word_def
      find_long_def long_options_def bad_option_def handle_option_def)
  show "parse_argv [''--log-file''] = Inl (Exited 1)"
    by (simp add: parse_argv_def getopt_long.simps(2) is_option_word_def option_word_def long_word_def
      find_long_def long_options_def bad_option_def handle_option_def)
qed

end
