(* ===== verification/Program.thy ===== *)
theory Program
  imports WaitOnFacts Execute CommandLine
begin

text \<open>
  The whole program: \<open>main\<close> in \<open>src/main.cc\<close> from the parsed options on. What the operating
  system answers while the program is set up is one record; the setup goes through the same steps
  in the same order, then the choice is made and executed, or the wait-on loop entered.
\<close>

section \<open>The surroundings\<close>

record system =
  sy_getenv :: "string \<Rightarrow> string option"
  sy_setlocale :: "string \<Rightarrow> string option"
  sy_i3_socketpath :: "wait_status \<times> string"
  sy_fs :: file_system
  sy_files :: "string \<Rightarrow> string option"
  sy_creatable :: "string \<Rightarrow> bool"
  sy_appendable :: "string \<Rightarrow> bool"
  sy_truncatable :: bool
  sy_error :: string
  sy_can_start :: bool
  sy_program :: dmenu_program
  sy_exec :: exec_env
  sy_i3 :: "string \<Rightarrow> string"
  sy_i3_connected :: bool
  sy_add_watch :: add_watch

section \<open>History\<close>

text \<open>
  The history is loaded, and converted when it has the old format. The exception of the old format
  is caught around the construction of both managers.
\<close>

definition format_history ::
  "system \<Rightarrow> options \<Rightarrow> AppManager \<Rightarrow> NameToAppMapping \<Rightarrow> HistoryManager \<Rightarrow> fault + FormattedHistoryManager" where
  "format_history sys opts appm nm hist =
     FormattedHistoryManager_ctor (sy_error sys) (sy_truncatable sys) appm hist nm
       (op_prune opts) (op_exclude_generic opts)"

definition load_history ::
  "system \<Rightarrow> options \<Rightarrow> AppManager \<Rightarrow> NameToAppMapping \<Rightarrow> fault + FormattedHistoryManager option" where
  "load_history sys opts appm nm =
     (case op_usage_log opts of
        None \<Rightarrow> Inr None
      | Some usage_log \<Rightarrow>
          bind_sum
            (case bind_sum (HistoryManager_ctor (sy_error sys) (sy_files sys) (sy_creatable sys) usage_log)
                (format_history sys opts appm nm) of
               Inl (V0_version_error what) \<Rightarrow>
                 bind_sum (convert_history_from_v0 (sy_error sys) (sy_files sys) (sy_appendable sys)
                     (sy_truncatable sys) usage_log appm)
                   (format_history sys opts appm nm)
             | r \<Rightarrow> r)
            (\<lambda>fh. Inr (Some fh)))"

section \<open>Setup\<close>

datatype executor =
    Normal_executor executable
  | Fake_executor executable
  | I3_executor executable string

definition choose_executor :: "options \<Rightarrow> string \<Rightarrow> string \<Rightarrow> executor" where
  "choose_executor opts terminal i3_ipc_path =
     (let ex = \<lparr>ex_terminal = terminal, ex_wrapper = op_wrapper opts,
            ex_assembler = assembler_of (op_term_mode opts), ex_wine = op_wine opts\<rparr>
      in if op_no_exec opts then Fake_executor ex
         else if op_use_i3_ipc opts then I3_executor (ex\<lparr>ex_wrapper := []\<rparr>) i3_ipc_path
         else Normal_executor ex)"

record program =
  pr_search_path :: "string list"
  pr_appm :: AppManager
  pr_loop :: CommandRetrievalLoop
  pr_executor :: executor

definition run_early :: "system \<Rightarrow> options \<Rightarrow> fault + Dmenu" where
  "run_early sys opts =
     (let dmenu = Dmenu_ctor (op_dmenu_command opts) in
      if op_wait_on opts = None then Dmenu_run (sy_can_start sys) dmenu else Inr dmenu)"

definition find_search_path :: "system \<Rightarrow> fault + string list" where
  "find_search_path sys =
     bind_sum (get_search_path (sy_getenv sys) (fs_is_directory (sy_fs sys)))
       (\<lambda>search_path. Inr (fst (validate_search_path [] search_path)))"

definition make_manager :: "system \<Rightarrow> options \<Rightarrow> Desktop_file_rank list \<Rightarrow> fault + AppManager" where
  "make_manager sys opts files =
     bind_sum (from_environment (sy_setlocale sys)) (\<lambda>locales.
       AppManager_ctor
         \<lparr>env_files = sy_files sys, env_suffixes = locales,
          env_desktops = desktop_envs (sy_getenv sys) opts\<rparr>
         (op_wine opts) files)"

definition make_loop :: "system \<Rightarrow> options \<Rightarrow> Dmenu \<Rightarrow> AppManager \<Rightarrow> fault + CommandRetrievalLoop" where
  "make_loop sys opts dmenu appm =
     bind_sum (NameToAppMapping_load appm
         (NameToAppMapping_ctor (op_formatter opts) (op_case_insensitive opts) (op_exclude_generic opts)))
       (\<lambda>nm. bind_sum (load_history sys opts appm nm)
         (\<lambda>hist. Inr \<lparr>cl_dmenu = dmenu, cl_mapping = nm, cl_hist = hist, cl_no_exec = op_no_exec opts\<rparr>))"

definition set_up :: "system \<Rightarrow> options \<Rightarrow> (fault + program) option" where
  "set_up sys opts =
     (case bind_sum (find_i3_socket (sy_getenv sys) (sy_i3_socketpath sys) opts) (\<lambda>i3_ipc_path.
         bind_sum (check_wrapper opts) (\<lambda>_.
           bind_sum (choose_terminal opts) (\<lambda>terminal.
             bind_sum (run_early sys opts) (\<lambda>dmenu.
               bind_sum (find_search_path sys) (\<lambda>search_path.
                 Inr (i3_ipc_path, terminal, dmenu, search_path)))))) of
        Inl e \<Rightarrow> Some (Inl e)
      | Inr (i3_ipc_path, terminal, dmenu, search_path) \<Rightarrow>
          map_option (\<lambda>collected.
            bind_sum collected (\<lambda>files.
              bind_sum (make_manager sys opts files) (\<lambda>appm.
                bind_sum (make_loop sys opts dmenu appm) (\<lambda>loop.
                  Inr \<lparr>pr_search_path = search_path, pr_appm = appm, pr_loop = loop,
                       pr_executor = choose_executor opts terminal i3_ipc_path\<rparr>))))
            (collect_files (sy_fs sys) search_path))"

section \<open>Execution\<close>

text \<open>The effects of a choice, and whether the call comes back: only that of i3 can fail after them.\<close>

definition execute_choice :: "system \<Rightarrow> executor \<Rightarrow> AppManager \<Rightarrow> command_info \<Rightarrow> fault + effect list" where
  "execute_choice sys executor appm info =
     (case executor of
        Normal_executor ex \<Rightarrow> NormalExecutable_execute (sy_exec sys) appm info ex
      | Fake_executor ex \<Rightarrow> FakeExecutable_execute (sy_exec sys) appm info ex
      | I3_executor ex i3_ipc_path \<Rightarrow>
          bind_sum (I3Executable_execute (sy_i3 sys) (sy_i3_connected sys) i3_ipc_path (sy_exec sys) appm info ex)
            (\<lambda>(effects, report, outcome). bind_sum outcome (\<lambda>_. Inr effects)))"

text \<open>The two exceptions \<open>main\<close> catches; any other one ends the program.\<close>

definition catch_exceptions :: "fault + 'a \<Rightarrow> fault + 'a" where
  "catch_exceptions r =
     (case r of
        Inl (Initialization_error what) \<Rightarrow> Inl (Exited EXIT_FAILURE)
      | Inl (Exec_invalid_escape what) \<Rightarrow> Inl (Exited EXIT_FAILURE)
      | _ \<Rightarrow> r)"

datatype run_outcome =
    No_choice
  | Executed "effect list"
  | Waiting wait_state "command_info list"

definition run_once :: "system \<Rightarrow> program \<Rightarrow> fault + run_outcome" where
  "run_once sys p =
     catch_exceptions
       (bind_sum (prompt_user_for_choice (sy_error sys) (sy_truncatable sys) (sy_program sys)
           (pr_appm p) (pr_loop p)) (\<lambda>(command, loop).
         case command of
           None \<Rightarrow> Inr No_choice
         | Some info \<Rightarrow>
             bind_sum (execute_choice sys (pr_executor p) (pr_appm p) info) (\<lambda>effects. Inr (Executed effects))))"

text \<open>
  The wait-on mode on Linux. A round is given with the events of \<open>inotify\<close> instead of the changes
  made of them.
\<close>

definition wait_config_of :: "system \<Rightarrow> program \<Rightarrow> wait_config" where
  "wait_config_of sys p =
     \<lparr>wc_search_path = pr_search_path p,
      wc_is_i3 = (case pr_executor p of Normal_executor ex \<Rightarrow> False | _ \<Rightarrow> True),
      wc_history_error = sy_error sys,
      wc_execute = (\<lambda>appm info. bind_sum (execute_choice sys (pr_executor p) appm info) (\<lambda>_. Inr ()))\<rparr>"

definition with_events :: "NotifyInotify \<Rightarrow> wait_round \<times> inotify_event list option \<Rightarrow> wait_round" where
  "with_events notify r =
     (fst r)\<lparr>wr_changes := map_option (NotifyInotify_getchanges notify) (snd r)\<rparr>"

definition run_waiting ::
  "system \<Rightarrow> (wait_round \<times> inotify_event list option) list \<Rightarrow> program \<Rightarrow> (fault + run_outcome) option" where
  "run_waiting sys rounds p =
     map_option (\<lambda>r. catch_exceptions (bind_sum r (\<lambda>notify.
         bind_sum (do_wait_on (wait_config_of sys p) (map (with_events notify) rounds)
             \<lparr>ws_appm = pr_appm p, ws_loop = pr_loop p, ws_children = []\<rparr>)
           (\<lambda>(st, started). Inr (Waiting st started)))))
       (NotifyInotify_ctor (sy_fs sys) (sy_add_watch sys) (pr_search_path p))"

definition j4_main ::
  "system \<Rightarrow> (char \<times> string) list \<Rightarrow> (wait_round \<times> inotify_event list option) list \<Rightarrow> (fault + run_outcome) option" where
  "j4_main sys args rounds =
     (case parse_options args default_options of
        Inl e \<Rightarrow> Some (Inl e)
      | Inr opts \<Rightarrow>
          (case set_up sys opts of
             None \<Rightarrow> None
           | Some (Inl e) \<Rightarrow> Some (Inl e)
           | Some (Inr p) \<Rightarrow>
               if op_wait_on opts = None then Some (run_once sys p) else run_waiting sys rounds p))"

text \<open>From the words of the command line; those that are no options are only warned about.\<close>

definition j4_main_argv ::
  "system \<Rightarrow> string list \<Rightarrow> (wait_round \<times> inotify_event list option) list \<Rightarrow> (fault + run_outcome) option" where
  "j4_main_argv sys argv rounds = j4_main sys (fst (getopt_long argv)) rounds"

end
