(* ===== verification/ProgramFacts.thy ===== *)
theory ProgramFacts
  imports Program ExecuteFacts
begin

text \<open>
  What the setup of \<open>main\<close> establishes: a manager and a menu that the facts about the dialogue and
  about the wait-on loop start from. The facts about the parts are put together here.
\<close>

section \<open>Options\<close>

lemma handle_option_formatter:
  "handle_option c optarg opts = Inr opts' \<Longrightarrow> keeps_names (op_formatter opts) \<Longrightarrow>
     keeps_names (op_formatter opts')"
  using formatters_keep_names
  by (auto simp: handle_option_def simp del: parse_level.simps parse_term_mode.simps
      split: if_splits option.splits)

lemma parse_options_formatter:
  "parse_options args opts = Inr opts' \<Longrightarrow> keeps_names (op_formatter opts) \<Longrightarrow>
     keeps_names (op_formatter opts')"
proof (induction args arbitrary: opts)
  case (Cons a args)
  then show ?case using handle_option_formatter by (cases a) auto
qed simp

lemma default_formatter: "keeps_names (op_formatter default_options)"
  by (simp add: default_options_def)

section \<open>History\<close>

lemma read_entries_sorted: "read_entries err p s h = Inr h' \<Longrightarrow> mmap_sorted h \<Longrightarrow> mmap_sorted h'"
proof (induction err p s h rule: read_entries.induct)
  case (1 err p s h)
  show ?case
  proof (cases "\<exists>k s1 line rest. scan_u s = Some (Some (k, s1)) \<and>
      getline (scan_lit (CHR '','') s1) = Some (line, rest) \<and> length line \<noteq> 1")
    case True
    then obtain k s1 line rest where l: "scan_u s = Some (Some (k, s1))"
        "getline (scan_lit (CHR '','') s1) = Some (line, rest)" "length line \<noteq> 1" by blast
    then have "read_entries err p s h =
        read_entries err p rest (mmap_emplace (int_of_unsigned k) (butlast line) h)"
      by (subst read_entries.simps) simp
    with "1.IH" [OF l(1) refl refl l(2) refl l(3)] "1.prems" mmap_emplace_sorted show ?thesis by simp
  next
    case False
    with "1.prems"(1) have "h' = h"
      by (subst (asm) read_entries.simps) (auto split: option.splits if_splits)
    with "1.prems"(2) show ?thesis by simp
  qed
qed

lemma HistoryManager_ctor_sorted:
  "HistoryManager_ctor err files creatable path = Inr hm \<Longrightarrow> mmap_sorted (hm_history hm)"
  using read_entries_sorted [where h = "[]"]
  by (fastforce simp: HistoryManager_ctor_def Let_def mmap_sorted_def [of "[]"]
      split: option.splits if_splits prod.splits)

text \<open>What the setup relies on: a directory tree that ends, a history that lists a name once.\<close>

definition well_behaved :: "system \<Rightarrow> options \<Rightarrow> bool" where
  "well_behaved sys opts \<longleftrightarrow>
     names_ok (sy_fs sys) \<and> sy_truncatable sys \<and>
     (\<forall>search_path. find_search_path sys = Inr search_path \<longrightarrow>
        (\<forall>d \<in> set search_path. finite_tree (sy_fs sys) d)) \<and>
     (\<forall>path hm. op_usage_log opts = Some path \<longrightarrow>
        HistoryManager_ctor (sy_error sys) (sy_files sys) (sy_creatable sys) path = Inr hm \<longrightarrow>
        unique_names (hm_history hm))"

lemma load_history_tidy:
  assumes "load_history sys opts appm nm = Inr hist" "well_behaved sys opts"
  shows "hist = None \<or> (\<exists>hm fh. hist = Some fh \<and> tidy hm \<and> format_history sys opts appm nm hm = Inr fh)"
proof (cases "op_usage_log opts")
  case None
  with assms(1) show ?thesis by (simp add: load_history_def)
next
  case (Some path)
  let ?ctor = "HistoryManager_ctor (sy_error sys) (sy_files sys) (sy_creatable sys) path"
  let ?old = "convert_history_from_v0 (sy_error sys) (sy_files sys) (sy_appendable sys) (sy_truncatable sys) path appm"
  from assms(1) Some obtain fh where fh: "hist = Some fh"
      "bind_sum ?ctor (format_history sys opts appm nm) = Inr fh \<or>
       bind_sum ?old (format_history sys opts appm nm) = Inr fh"
    by (auto simp: load_history_def split: sum.splits fault.splits)
  then obtain hm where hm: "?ctor = Inr hm \<or> ?old = Inr hm" "format_history sys opts appm nm hm = Inr fh"
    by auto
  have "tidy hm"
    using hm(1) assms(2) Some HistoryManager_ctor_sorted conversion_tidy
    by (auto simp: tidy_def well_behaved_def)
  with fh(1) hm(2) show ?thesis by blast
qed

section \<open>The menu\<close>

lemma make_loop_current:
  assumes "make_loop sys opts dmenu appm = Inr cl" "well_behaved sys opts"
    and "reachable appm" "keeps_names (op_formatter opts)" "\<not> op_case_insensitive opts"
  shows "menu_current cl appm \<and> nm_format (cl_mapping cl) = op_formatter opts \<and>
    nm_exclude_generic (cl_mapping cl) = op_exclude_generic opts \<and> cl_no_exec cl = op_no_exec opts"
proof -
  let ?nm0 = "NameToAppMapping_ctor (op_formatter opts) (op_case_insensitive opts) (op_exclude_generic opts)"
  from assms(1) obtain nm hist where nm: "NameToAppMapping_load appm ?nm0 = Inr nm"
      "load_history sys opts appm nm = Inr hist"
      "cl = \<lparr>cl_dmenu = dmenu, cl_mapping = nm, cl_hist = hist, cl_no_exec = op_no_exec opts\<rparr>"
    by (auto simp: make_loop_def)
  let ?cl0 = "\<lambda>h. \<lparr>cl_dmenu = dmenu, cl_mapping = ?nm0, cl_hist = h, cl_no_exec = op_no_exec opts\<rparr>"
  obtain h where h: "history_tidy (?cl0 h)" "update_mapping (sy_error sys) True appm (?cl0 h) = Inr cl"
    using load_history_tidy [OF nm(2) assms(2)]
  proof (elim disjE exE conjE)
    assume "hist = None"
    with nm that [of None] show ?thesis by (simp add: update_mapping_def history_tidy_def)
  next
    fix hm fh assume "hist = Some fh" "tidy hm" "format_history sys opts appm nm hm = Inr fh"
    moreover have "sy_truncatable sys" using assms(2) by (simp add: well_behaved_def)
    ultimately show ?thesis
      using nm that [of "Some \<lparr>fh_hist = hm, fh_formatted = [], fh_remove_obsolete = op_prune opts,
        fh_exclude_generic = op_exclude_generic opts\<rparr>"]
      by (simp add: update_mapping_def history_tidy_def format_history_def FormattedHistoryManager_ctor_def
          NameToAppMapping_ctor_def)
  qed
  have "exact_names (?cl0 h)" using assms(4,5) by (simp add: exact_names_def NameToAppMapping_ctor_def)
  with update_mapping_current [OF assms(3) _ h(1), of "sy_error sys"] h(2) have "menu_current cl appm" by simp
  with update_mapping_settings [OF h(2)] nm(3) show ?thesis by (simp add: NameToAppMapping_ctor_def)
qed

section \<open>The manager\<close>

lemma find_search_path_suffix:
  assumes "find_search_path sys = Inr search_path" "d \<in> set search_path"
  shows "suffix ''/applications/'' d"
  using assms build_search_path_suffix
  by (fastforce simp: find_search_path_def get_search_path_def validate_search_path_filter)

lemma validate_files_iff: "validate_files base fs \<longleftrightarrow> (\<forall>f \<in> set fs. f \<noteq> [] \<and> prefix base f)"
  by (induction fs) (auto simp: startswith_iff)

lemma validate_desktop_file_list_iff:
  "validate_desktop_file_list rs \<longleftrightarrow>
     (\<forall>r \<in> set rs. base_path r \<noteq> [] \<and> last (base_path r) = CHR ''/'' \<and> validate_files (base_path r) (rank_files r))"
  by (induction rs) auto

lemma collected_valid:
  assumes "find_search_path sys = Inr search_path" "well_behaved sys opts"
  shows "\<exists>ranks. collect_files (sy_fs sys) search_path = Some (Inr ranks) \<and>
    map base_path ranks = search_path \<and> validate_desktop_file_list ranks"
proof -
  have fs: "names_ok (sy_fs sys)" "\<forall>d \<in> set search_path. finite_tree (sy_fs sys) d"
    using assms by (auto simp: well_behaved_def)
  obtain ranks where ranks: "collect_files (sy_fs sys) search_path = Some (Inr ranks)"
      "map base_path ranks = search_path"
      "\<forall>r \<in> set ranks. distinct (rank_files r) \<and> set (rank_files r) = desktop_files (sy_fs sys) (base_path r)"
    using collect_loop_spec [OF fs, of "[]"] by (auto simp: collect_files_def)
  have "base_path r \<noteq> [] \<and> last (base_path r) = CHR ''/'' \<and> validate_files (base_path r) (rank_files r)"
    if r: "r \<in> set ranks" for r
  proof -
    have "base_path r \<in> set search_path" using r ranks(2) by auto
    from find_search_path_suffix [OF assms(1) this]
    have "base_path r \<noteq> [] \<and> last (base_path r) = CHR ''/''" by (auto simp: suffix_def)
    moreover have "\<forall>f \<in> set (rank_files r). prefix (base_path r) f"
      using ranks(3) r below_prefix by (fastforce simp: desktop_files_def)
    ultimately show ?thesis by (auto simp: validate_files_iff prefix_def)
  qed
  with ranks(1,2) show ?thesis by (auto simp: validate_desktop_file_list_iff)
qed

lemma make_manager_reachable:
  assumes "make_manager sys opts files = Inr appm" "validate_desktop_file_list files"
  shows "reachable appm \<and> int (length files) \<le> INT_MAX"
  using assms by (auto simp: make_manager_def AppManager_ctor_def intro: reachable_ctor split: if_splits)

section \<open>The setup\<close>

lemma set_up_parts:
  assumes "set_up sys opts = Some (Inr p)"
  obtains dmenu files terminal i3_ipc_path where
    "find_search_path sys = Inr (pr_search_path p)"
    "collect_files (sy_fs sys) (pr_search_path p) = Some (Inr files)"
    "make_manager sys opts files = Inr (pr_appm p)"
    "make_loop sys opts dmenu (pr_appm p) = Inr (pr_loop p)"
    "pr_executor p = choose_executor opts terminal i3_ipc_path"
proof -
  let ?parts = "bind_sum (find_i3_socket (sy_getenv sys) (sy_i3_socketpath sys) opts) (\<lambda>i3_ipc_path.
         bind_sum (check_wrapper opts) (\<lambda>_.
           bind_sum (choose_terminal opts) (\<lambda>terminal.
             bind_sum (run_early sys opts) (\<lambda>dmenu.
               bind_sum (find_search_path sys) (\<lambda>search_path.
                 Inr (i3_ipc_path, terminal, dmenu, search_path))))))"
  obtain i3_ipc_path terminal dmenu search_path where
    parts: "?parts = Inr (i3_ipc_path, terminal, dmenu, search_path)"
    using assms by (cases ?parts) (auto simp: set_up_def)
  then have "find_search_path sys = Inr search_path" by auto
  with parts assms that show ?thesis by (auto simp: set_up_def)
qed

lemma set_up_ready:
  assumes "set_up sys opts = Some (Inr p)" "well_behaved sys opts"
    and "keeps_names (op_formatter opts)" "\<not> op_case_insensitive opts"
  shows "reachable (pr_appm p) \<and> menu_current (pr_loop p) (pr_appm p) \<and>
    nm_format (cl_mapping (pr_loop p)) = op_formatter opts \<and>
    nm_exclude_generic (cl_mapping (pr_loop p)) = op_exclude_generic opts \<and>
    cl_no_exec (pr_loop p) = op_no_exec opts \<and> int (length (pr_search_path p)) \<le> INT_MAX"
proof -
  obtain dmenu files terminal i3_ipc_path where p:
    "find_search_path sys = Inr (pr_search_path p)"
    "collect_files (sy_fs sys) (pr_search_path p) = Some (Inr files)"
    "make_manager sys opts files = Inr (pr_appm p)"
    "make_loop sys opts dmenu (pr_appm p) = Inr (pr_loop p)"
    using set_up_parts [OF assms(1)] by metis
  have v: "map base_path files = pr_search_path p" "validate_desktop_file_list files"
    using collected_valid [OF p(1) assms(2)] p(2) by auto
  have r: "reachable (pr_appm p)" "int (length files) \<le> INT_MAX"
    using make_manager_reachable [OF p(3) v(2)] by auto
  moreover have "length (pr_search_path p) = length files" using v(1) by (metis length_map)
  ultimately show ?thesis using make_loop_current [OF p(4) assms(2) r(1) assms(3,4)] by simp
qed

lemma set_up_returns:
  assumes "well_behaved sys opts"
  shows "set_up sys opts \<noteq> None"
proof -
  have "collect_files (sy_fs sys) search_path \<noteq> None" if "find_search_path sys = Inr search_path" for search_path
    using collected_valid [OF that assms] by auto
  then show ?thesis by (auto simp: set_up_def split: sum.splits)
qed

section \<open>A run\<close>

lemma catch_exceptions_Inr [simp]: "catch_exceptions r = Inr x \<longleftrightarrow> r = Inr x"
  by (simp add: catch_exceptions_def split: sum.splits fault.splits)

lemma run_once_Waiting: "run_once sys p \<noteq> Inr (Waiting st started)"
proof
  assume "run_once sys p = Inr (Waiting st started)"
  then obtain command where "(case command of None \<Rightarrow> Inr No_choice
      | Some info \<Rightarrow> bind_sum (execute_choice sys (pr_executor p) (pr_appm p) info)
          (\<lambda>effects. Inr (Executed effects))) = Inr (Waiting st started)"
    by (auto simp: run_once_def)
  then show False by (cases command) auto
qed


text \<open>C3: in wait-on mode, from the start of the program on and through any sequence of file events,
  requests and finished children, the menu that would be shown next consists of every name of the
  applications now loaded exactly once, the history first.\<close>

theorem waiting_menu_current:
  assumes "parse_options args default_options = Inr opts" "\<not> op_case_insensitive opts"
    and "well_behaved sys opts" "j4_main sys args rounds = Some (Inr (Waiting st started))"
  shows "reachable (ws_appm st) \<and>
    (\<exists>ns. distinct ns \<and> set ns = shown_lines (ws_loop st) (ws_appm st) \<and>
       prefix (history_lines (ws_loop st)) ns \<and>
       (\<forall>d. write_names less_wrapper (nm_mapping (cl_mapping (ws_loop st))) (history_lines (ws_loop st)) d =
          Inr (d\<lparr>dmenu_outpipe := dmenu_outpipe d @ menu_text ns\<rparr>)))"
proof -
  from assms(1,4) obtain p where p: "set_up sys opts = Some (Inr p)"
      "run_once sys p = Inr (Waiting st started) \<or> run_waiting sys rounds p = Some (Inr (Waiting st started))"
    by (auto simp: j4_main_def split: option.splits sum.splits if_splits)
  from p(2) obtain notify where w: "do_wait_on (wait_config_of sys p) (map (with_events notify) rounds)
      \<lparr>ws_appm = pr_appm p, ws_loop = pr_loop p, ws_children = []\<rparr> = Inr (st, started)"
    using run_once_Waiting by (auto simp: run_waiting_def)
  have "keeps_names (op_formatter opts)" using parse_options_formatter [OF assms(1) default_formatter] .
  from set_up_ready [OF p(1) assms(3) this assms(2)]
  have "int (length (wc_search_path (wait_config_of sys p))) \<le> INT_MAX"
    "wait_ok \<lparr>ws_appm = pr_appm p, ws_loop = pr_loop p, ws_children = []\<rparr>"
    by (simp_all add: wait_ok_def wait_config_of_def)
  from do_wait_on_ok [OF this w] menu_current_shown show ?thesis by (simp add: wait_ok_def)
qed

text \<open>It does not matter how the options are written; words that write no options end the program.\<close>

lemma j4_main_argv_written:
  assumes "written ws args positional"
  shows "j4_main_argv sys ws rounds = j4_main sys args rounds"
  using getopt_long_written [OF assms] by (simp add: j4_main_argv_def)

lemma j4_main_argv_refused:
  assumes "\<nexists>args positional. written ws args positional"
  shows "\<exists>n. j4_main_argv sys ws rounds = Some (Inl (Exited n))"
proof -
  obtain args positional where g: "getopt_long ws = (args, positional)" by (cases "getopt_long ws")
  with assms written_getopt_long have "bad_option \<in> set args" by blast
  from parse_options_bad [OF this, of default_options] obtain e where
    "parse_options args default_options = Inl e" by blast
  with parse_options_exits g show ?thesis by (auto simp: j4_main_argv_def j4_main_def)
qed

section \<open>A sample run\<close>

text \<open>One desktop file, below \<open>/a/applications\<close>; the user picks its name.\<close>

definition ed_exec :: string where
  "ed_exec = join (map exec_quote [''ed'', ''-p'']) SPACE"

definition sample_file :: string where
  "sample_file = concat (map (\<lambda>l. l @ [NL])
     [''[Desktop Entry]'', ''Name=Ed'', ''Exec='' @ ed_exec, ''Path=/tmp''])"

definition sample_tree :: file_system where
  "sample_tree =
     \<lparr>fs_readdir = (\<lambda>d. if d = ''/a/applications/'' then Some [(1, ''ed.desktop'')] else None),
      fs_is_directory = (\<lambda>p. p = ''/a/applications/'')\<rparr>"

definition sample_system :: system where
  "sample_system =
     \<lparr>sy_getenv = [''XDG_DATA_HOME'' \<mapsto> ''/a''], sy_setlocale = (\<lambda>_. Some ''C''),
      sy_i3_socketpath = (Wexited 1, []), sy_fs = sample_tree,
      sy_files = [''/a/applications/ed.desktop'' \<mapsto> sample_file], sy_creatable = (\<lambda>_. False),
      sy_appendable = (\<lambda>_. False), sy_truncatable = True, sy_error = [], sy_can_start = True,
      sy_program = (\<lambda>_. (Wexited 0, ''Ed'' @ [NL])), sy_exec = sample_exec_env, sy_i3 = (\<lambda>_. []),
      sy_i3_connected = False, sy_add_watch = (\<lambda>_. 1)\<rparr>"

lemma sample_search_path: "find_search_path sample_system = Inr [''/a/applications/'']"
  by code_simp

lemma sample_below: "{p. below sample_tree ''/a/applications/'' p} = {''/a/applications/ed.desktop''}"
proof -
  have es: "fs_readdir sample_tree ''/a/applications/'' = Some [(1, ''ed.desktop'')]"
    by (simp add: sample_tree_def)
  have "opened_names [(1, ''ed.desktop'')] = [''ed.desktop'']" by code_simp
  then show ?thesis by (subst below_opened [OF es]) (simp add: subdirs_def sample_tree_def)
qed

lemma sample_finite: "finite_tree sample_tree ''/a/applications/''"
  by (rule finite_tree.intros [of _ _ "[(1, ''ed.desktop'')]"]) (simp_all add: sample_tree_def)

lemma sample_names: "names_ok sample_tree"
  by (auto simp: names_ok_def sample_tree_def split: if_splits)

lemma sample_well_behaved: "op_usage_log opts = None \<Longrightarrow> well_behaved sample_system opts"
  by (simp add: well_behaved_def sample_search_path) (simp add: sample_system_def sample_names sample_finite)

lemma distinct_single: "distinct xs \<Longrightarrow> set xs = {a} \<Longrightarrow> xs = [a]"
  by (cases xs) (auto simp: insert_eq_iff subset_singleton_iff dest: Set.equalityD1)

lemma sample_collected:
  "collect_files sample_tree [''/a/applications/''] =
     Some (Inr [\<lparr>base_path = ''/a/applications/'', rank_files = [''/a/applications/ed.desktop'']\<rparr>])"
proof -
  have "\<forall>d \<in> set [''/a/applications/'']. finite_tree sample_tree d" using sample_finite by simp
  from collect_loop_spec [OF sample_names this, of "[]"] obtain r where
    "collect_files sample_tree [''/a/applications/''] = Some (Inr [r])" "base_path r = ''/a/applications/''"
    "distinct (rank_files r)" "set (rank_files r) = desktop_files sample_tree ''/a/applications/''"
    by (auto simp: collect_files_def)
  moreover have "desktop_files sample_tree ''/a/applications/'' = {''/a/applications/ed.desktop''}"
    unfolding desktop_files_def Collect_conj_eq sample_below by (auto simp: suffix_def sample_tree_def)
  ultimately show ?thesis by (cases r) (simp add: distinct_single)
qed

definition ed_app :: Application where
  "ed_app =
     \<lparr>app_name = ''Ed'', app_generic_name = [], app_exec = ed_exec, app_path = ''/tmp'',
      app_location = ''/a/applications/ed.desktop'', app_terminal = False, app_id = []\<rparr>"

definition ed_manager :: AppManager where
  "ed_manager =
     projr (make_manager sample_system default_options
       [\<lparr>base_path = ''/a/applications/'', rank_files = [''/a/applications/ed.desktop'']\<rparr>])"

lemma sample_made_default:
  "make_manager sample_system default_options
     [\<lparr>base_path = ''/a/applications/'', rank_files = [''/a/applications/ed.desktop'']\<rparr>] = Inr ed_manager"
  unfolding ed_manager_def by code_simp

lemma sample_made:
  assumes "\<not> op_use_xdg_de opts" "op_wine opts"
  shows "make_manager sample_system opts
     [\<lparr>base_path = ''/a/applications/'', rank_files = [''/a/applications/ed.desktop'']\<rparr>] = Inr ed_manager"
proof -
  have "make_manager sample_system opts = make_manager sample_system default_options"
    using assms by (simp add: fun_eq_iff make_manager_def desktop_envs_def default_options_def)
  with sample_made_default show ?thesis by simp
qed

lemma ed_listed: "(''Ed'', Some ed_app, False) \<in> set (view_name_app_mapping ed_manager)"
  by code_simp

lemma ed_names: "load_names nm ed_manager (name_app_mapping ed_manager) [] =
    Inr [(nm_format nm ''Ed'' ed_app, \<lparr>ra_app = ''ed.desktop'', ra_is_generic = False\<rparr>)]"
proof -
  have "name_app_mapping ed_manager = [(''Ed'', name_element_of ''ed.desktop'' Name)]"
    "deref ed_manager ''ed.desktop'' = Some ed_app" by code_simp+
  then show ?thesis by (simp add: name_element_of_def)
qed

lemma sample_set_up:
  assumes "opts = default_options\<lparr>op_wait_on := w\<rparr>"
  shows "\<exists>p. set_up sample_system opts = Some (Inr p) \<and> pr_search_path p = [''/a/applications/''] \<and>
    pr_appm p = ed_manager \<and> cl_hist (pr_loop p) = None \<and>
    nm_mapping (cl_mapping (pr_loop p)) = [(''Ed'', \<lparr>ra_app = ''ed.desktop'', ra_is_generic = False\<rparr>)] \<and>
    \<not> nm_case_insensitive (cl_mapping (pr_loop p)) \<and> (\<exists>ex. pr_executor p = Normal_executor ex)"
proof -
  have "check_wrapper default_options = Inr ()" by code_simp
  then have "check_wrapper opts = Inr ()" by (simp add: assms check_wrapper_def default_options_def)
  moreover have "find_i3_socket getenv child opts = Inr []" for getenv child
    by (simp add: assms find_i3_socket_def default_options_def)
  moreover have "choose_terminal opts = Inr ''i3-sensible-terminal''"
    by (simp add: assms choose_terminal_def default_options_def)
  moreover have "sy_can_start sample_system" by (simp add: sample_system_def)
  then obtain dmenu where "run_early sample_system opts = Inr dmenu"
    by (cases "op_wait_on opts") (auto simp: run_early_def Dmenu_run_def Let_def)
  moreover have "make_manager sample_system opts
      [\<lparr>base_path = ''/a/applications/'', rank_files = [''/a/applications/ed.desktop'']\<rparr>] = Inr ed_manager"
    by (rule sample_made) (simp_all add: assms default_options_def)
  moreover have "\<exists>cl. make_loop sample_system opts dmenu ed_manager = Inr cl \<and> cl_hist cl = None \<and>
      nm_mapping (cl_mapping cl) = [(''Ed'', \<lparr>ra_app = ''ed.desktop'', ra_is_generic = False\<rparr>)] \<and>
      \<not> nm_case_insensitive (cl_mapping cl)"
    by (simp add: make_loop_def NameToAppMapping_load_def ed_names load_history_def assms default_options_def
        NameToAppMapping_ctor_def appformatter_default_def)
  moreover have "\<exists>ex. choose_executor opts terminal i3_ipc_path = Normal_executor ex" for terminal i3_ipc_path
    by (simp add: choose_executor_def assms default_options_def)
  moreover have "sy_fs sample_system = sample_tree" by (simp add: sample_system_def)
  ultimately show ?thesis
    using sample_search_path sample_collected by (auto simp: set_up_def)
qed


text \<open>A request in wait-on mode at which the user picks the entry.\<close>

definition ed_round :: "wait_round \<times> inotify_event list option" where
  "ed_round =
     (\<lparr>wr_env = \<lparr>env_files = sy_files sample_system, env_suffixes = \<lparr>ls_suffixes = [], ls_length = 0\<rparr>,
         env_desktops = []\<rparr>,
       wr_changes = None, wr_fifo = Some [Byte (CHR ''x''), Would_block], wr_can_start = True,
       wr_program = sy_program sample_system, wr_pid = Some 7, wr_sigchld = None\<rparr>, None)"

theorem waiting_menu_current_witness:
  "\<exists>st started. j4_main sample_system [(CHR ''w'', ''/f'')] [ed_round] = Some (Inr (Waiting st started)) \<and>
     ws_children st = [7] \<and> reachable (ws_appm st)"
proof -
  let ?opts = "default_options\<lparr>op_wait_on := Some ''/f''\<rparr>"
  have parse: "parse_options [(CHR ''w'', ''/f'')] default_options = Inr ?opts"
    by (simp add: handle_option_def)
  have o: "\<not> op_case_insensitive ?opts" "op_usage_log ?opts = None" "keeps_names (op_formatter ?opts)"
    by (simp_all add: default_options_def)
  obtain p ex where p: "set_up sample_system ?opts = Some (Inr p)"
      "pr_search_path p = [''/a/applications/'']" "pr_appm p = ed_manager" "cl_hist (pr_loop p) = None"
      "nm_mapping (cl_mapping (pr_loop p)) = [(''Ed'', \<lparr>ra_app = ''ed.desktop'', ra_is_generic = False\<rparr>)]"
      "\<not> nm_case_insensitive (cl_mapping (pr_loop p))" "pr_executor p = Normal_executor ex"
    using sample_set_up [OF refl] by blast
  have "\<forall>d \<in> set [''/a/applications/'']. finite_tree sample_tree d \<and> (\<lambda>_. 1) d \<noteq> (-1 :: int)"
    using sample_finite by simp
  from watch_loop_spec [OF sample_names _ this, of "[''/a/applications/'']" "[]" "[]"] obtain m where
    "watch_loop sample_tree (\<lambda>_. 1) 0 [''/a/applications/''] [] = Some (Inr m)"
    by (auto simp: entries_sound_def um_find_def)
  then have n: "NotifyInotify_ctor (sy_fs sample_system) (sy_add_watch sample_system) (pr_search_path p) =
      Some (Inr \<lparr>ni_directories = m\<rparr>)"
    by (simp add: NotifyInotify_ctor_def sample_system_def p(2))
  have "write_names less_wrapper [(''Ed'', r)] [] d = Inr (Dmenu_write ''Ed'' d)" for r :: Resolved_application and d
    by (simp add: write_names_def)
  then have dmenu: "do_dmenu (sy_program sample_system) less_wrapper [(''Ed'', r)] [] d = Inr (Some ''Ed'')"
    for r :: Resolved_application and d
    by (simp add: do_dmenu_def Dmenu_read_choice_def chop_newline_def sample_system_def)
  have prompt: "prompt_user_for_choice err True (sy_program sample_system) appm cl =
      Inr (Some (DesktopCommandInfo ''ed.desktop'' []), cl)"
    if "cl_mapping cl = cl_mapping (pr_loop p)" "cl_hist cl = None" for err appm cl
    using that p(5,6) dmenu
    by (cases "cl_no_exec cl") (simp_all add: prompt_user_for_choice_def DynamicCompare_def Let_def lookup_name_def)
  have "j4_main sample_system [(CHR ''w'', ''/f'')] [ed_round] = run_waiting sample_system [ed_round] p"
    unfolding j4_main_def parse using p(1) by simp
  moreover have "\<exists>st started. run_waiting sample_system [ed_round] p = Some (Inr (Waiting st started)) \<and>
      ws_children st = [7]"
    using n p(3-7) prompt
    by (simp add: run_waiting_def with_events_def ed_round_def wait_on_round_def
        notify_part_def read_fifo_def serve_request_def run_dmenu_def Dmenu_run_def start_choice_def
        reap_children_def wait_config_of_def)
  ultimately have "\<exists>st started. j4_main sample_system [(CHR ''w'', ''/f'')] [ed_round] = Some (Inr (Waiting st started)) \<and>
     ws_children st = [7]"
    by simp
  with waiting_menu_current [OF parse o(1) sample_well_behaved [OF o(2)]] show ?thesis by blast
qed

end
