(* ===== verification/DmenuPipe.thy ===== *)
theory DmenuPipe
  imports Dmenu
begin

text \<open>
  The dialogue with the menu program as two processes and two pipes: \<open>Dmenu::write\<close>,
  \<open>display\<close> and \<open>read_choice\<close> of \<open>src/Dmenu.cc\<close> on one side, a program that reads its input to the
  end, prints its answer and exits on the other. A pipe holds a bounded number of bytes, a write
  and a read transfer any part of what is there. \<open>Dmenu\<close> has the same methods as functions; here
  they are shown to be what the processes compute, whenever they compute anything.
\<close>

section \<open>The processes\<close>

datatype child_phase =
    Child_reading
  | Child_writing string wait_status
  | Child_exited wait_status

datatype parent_phase =
    Sending
  | Waiting_for_child
  | Receiving string
  | Answered "fault + string"

record dialogue =
  dp_unsent :: string
  dp_outpipe :: string
  dp_inpipe :: string
  dp_child_input :: string
  dp_child :: child_phase
  dp_parent :: parent_phase

text \<open>
  \<open>capacity\<close> is that of a pipe, \<open>program\<close> what the child makes of its input, \<open>early\<close> the states it may end in
  before it has read its input (the shell that does not find dmenu), \<open>handler\<close> whether a handler of
  another signal is installed without \<open>SA_RESTART\<close>.
\<close>

record surroundings =
  sr_capacity :: nat
  sr_program :: dmenu_program
  sr_early :: "wait_status set"
  sr_handler :: bool

text \<open>After \<open>run\<close>: the shell has been started with one end of either pipe.\<close>

definition dp_start :: "string \<Rightarrow> dialogue" where
  "dp_start menu =
     \<lparr>dp_unsent = menu, dp_outpipe = [], dp_inpipe = [], dp_child_input = [],
      dp_child = Child_reading, dp_parent = Sending\<rparr>"

section \<open>The steps of the parent\<close>

text \<open>A write puts what there is room for into the pipe; \<open>writen\<close> goes on until all is written.\<close>

definition dp_write :: "nat \<Rightarrow> dialogue \<Rightarrow> dialogue" where
  "dp_write n s =
     s\<lparr>dp_outpipe := dp_outpipe s @ take n (dp_unsent s), dp_unsent := drop n (dp_unsent s)\<rparr>"

text \<open>The handler of \<open>SIGPIPE\<close> which \<open>do_dmenu\<close> installs.\<close>

definition sigpipe_handler :: "dialogue \<Rightarrow> dialogue" where
  "sigpipe_handler s = s\<lparr>dp_parent := Answered (Inl (Exited EXIT_FAILURE))\<rparr>"

definition Dmenu_display :: "dialogue \<Rightarrow> dialogue" where
  "Dmenu_display s = s\<lparr>dp_parent := Waiting_for_child\<rparr>"

text \<open>\<open>read_choice\<close> up to the loop that reads.\<close>

definition dp_waited :: "wait_status \<Rightarrow> dialogue \<Rightarrow> dialogue" where
  "dp_waited status s =
     s\<lparr>dp_parent :=
        (case status of
           Wsignaled \<Rightarrow> Answered (Inl (Exited EXIT_FAILURE))
         | Wexited n \<Rightarrow> if n \<noteq> 0 then Answered (Inr []) else Receiving [])\<rparr>"

text \<open>The result of \<open>waitpid\<close> is not looked at: when it is interrupted the status was never set.\<close>

definition dp_interrupted :: "dialogue \<Rightarrow> dialogue" where
  "dp_interrupted s = s\<lparr>dp_parent := Answered (Inl Undefined)\<rparr>"

text \<open>One read into the buffer of 256 bytes; at the end of the file the newline is taken off.\<close>

definition dp_read :: "nat \<Rightarrow> string \<Rightarrow> dialogue \<Rightarrow> dialogue" where
  "dp_read n choice s =
     (if dp_inpipe s = [] then s\<lparr>dp_parent := Answered (Inr (chop_newline choice))\<rparr>
      else s\<lparr>dp_parent := Receiving (choice @ take n (dp_inpipe s)), dp_inpipe := drop n (dp_inpipe s)\<rparr>)"

section \<open>The steps of the child\<close>

definition child_read :: "nat \<Rightarrow> dialogue \<Rightarrow> dialogue" where
  "child_read n s =
     s\<lparr>dp_child_input := dp_child_input s @ take n (dp_outpipe s), dp_outpipe := drop n (dp_outpipe s)\<rparr>"

definition child_answer :: "dmenu_program \<Rightarrow> dialogue \<Rightarrow> dialogue" where
  "child_answer program s =
     (case program (dp_child_input s) of (status, out) \<Rightarrow>
        s\<lparr>dp_child := Child_writing out status\<rparr>)"

definition child_write :: "nat \<Rightarrow> string \<Rightarrow> wait_status \<Rightarrow> dialogue \<Rightarrow> dialogue" where
  "child_write n out status s =
     s\<lparr>dp_child := Child_writing (drop n out) status, dp_inpipe := dp_inpipe s @ take n out\<rparr>"

definition child_exit :: "wait_status \<Rightarrow> dialogue \<Rightarrow> dialogue" where
  "child_exit status s = s\<lparr>dp_child := Child_exited status\<rparr>"

fun has_exited :: "child_phase \<Rightarrow> bool" where
  "has_exited (Child_exited _) = True"
| "has_exited _ = False"

inductive dp_step :: "surroundings \<Rightarrow> dialogue \<Rightarrow> dialogue \<Rightarrow> bool" for sr where
  parent_writes: "dp_parent s = Sending \<Longrightarrow> \<not> has_exited (dp_child s) \<Longrightarrow> 0 < n \<Longrightarrow>
    n \<le> length (dp_unsent s) \<Longrightarrow> length (dp_outpipe s) + n \<le> sr_capacity sr \<Longrightarrow>
    dp_step sr s (dp_write n s)"
| parent_gets_sigpipe: "dp_parent s = Sending \<Longrightarrow> has_exited (dp_child s) \<Longrightarrow> dp_unsent s \<noteq> [] \<Longrightarrow>
    dp_step sr s (sigpipe_handler s)"
| parent_displays: "dp_parent s = Sending \<Longrightarrow> dp_unsent s = [] \<Longrightarrow> dp_step sr s (Dmenu_display s)"
| parent_waits: "dp_parent s = Waiting_for_child \<Longrightarrow> dp_child s = Child_exited status \<Longrightarrow>
    dp_step sr s (dp_waited status s)"
| parent_interrupted: "dp_parent s = Waiting_for_child \<Longrightarrow> sr_handler sr \<Longrightarrow> dp_step sr s (dp_interrupted s)"
| parent_reads: "dp_parent s = Receiving choice \<Longrightarrow> 0 < n \<Longrightarrow> n \<le> 256 \<Longrightarrow>
    dp_step sr s (dp_read n choice s)"
| child_reads: "dp_child s = Child_reading \<Longrightarrow> 0 < n \<Longrightarrow> n \<le> length (dp_outpipe s) \<Longrightarrow>
    dp_step sr s (child_read n s)"
| child_answers: "dp_child s = Child_reading \<Longrightarrow> dp_outpipe s = [] \<Longrightarrow> dp_parent s \<noteq> Sending \<Longrightarrow>
    dp_step sr s (child_answer (sr_program sr) s)"
| child_quits: "dp_child s = Child_reading \<Longrightarrow> status \<in> sr_early sr \<Longrightarrow> dp_step sr s (child_exit status s)"
| child_writes: "dp_child s = Child_writing out status \<Longrightarrow> 0 < n \<Longrightarrow> n \<le> length out \<Longrightarrow>
    length (dp_inpipe s) + n \<le> sr_capacity sr \<Longrightarrow> dp_step sr s (child_write n out status s)"
| child_exits: "dp_child s = Child_writing [] status \<Longrightarrow> dp_step sr s (child_exit status s)"

inductive_cases dp_stepE: "dp_step sr s t"

inductive dp_reachable :: "surroundings \<Rightarrow> string \<Rightarrow> dialogue \<Rightarrow> bool" for sr menu where
  dp_started: "dp_reachable sr menu (dp_start menu)"
| dp_next: "dp_reachable sr menu s \<Longrightarrow> dp_step sr s t \<Longrightarrow> dp_reachable sr menu t"

lemmas dp_defs = dp_write_def sigpipe_handler_def Dmenu_display_def dp_waited_def dp_interrupted_def
  dp_read_def child_read_def child_answer_def child_write_def child_exit_def

section \<open>Every run ends\<close>

text \<open>
  The phases of the parent and of the child only go forward, and within a phase bytes move forward;
  the answer of the child is not bounded beforehand, so the phases count before the bytes.
\<close>

fun child_rank :: "child_phase \<Rightarrow> nat" where
  "child_rank Child_reading = 2"
| "child_rank (Child_writing _ _) = 1"
| "child_rank (Child_exited _) = 0"

fun parent_rank :: "parent_phase \<Rightarrow> nat" where
  "parent_rank Sending = 3"
| "parent_rank Waiting_for_child = 2"
| "parent_rank (Receiving _) = 1"
| "parent_rank (Answered _) = 0"

fun child_unwritten :: "child_phase \<Rightarrow> nat" where
  "child_unwritten (Child_writing out _) = length out"
| "child_unwritten _ = 0"

definition dp_order :: "dialogue rel" where
  "dp_order = inv_image (less_than <*lex*> less_than)
     (\<lambda>s. (child_rank (dp_child s) + parent_rank (dp_parent s),
           2 * length (dp_unsent s) + length (dp_outpipe s) +
           2 * child_unwritten (dp_child s) + length (dp_inpipe s)))"

lemma dp_step_decreases: "dp_step sr s t \<Longrightarrow> (t, s) \<in> dp_order"
  by (induction rule: dp_step.induct)
    (auto simp: dp_order_def dp_defs split: prod.splits wait_status.splits)

lemma dp_order_wf: "wf dp_order"
  unfolding dp_order_def by (intro wf_inv_image wf_lex_prod wf_less_than)

lemma no_endless_run: "\<not> (\<forall>i. dp_step sr (run i) (run (Suc i)))"
  using dp_order_wf dp_step_decreases unfolding wf_iff_no_infinite_down_chain by blast

section \<open>What a run computes\<close>

text \<open>The invariant, for a program that reads all of its input and is not interrupted.\<close>

definition patient :: "surroundings \<Rightarrow> bool" where
  "patient sr \<longleftrightarrow> 0 < sr_capacity sr \<and> sr_early sr = {} \<and> \<not> sr_handler sr"

definition dp_inv :: "surroundings \<Rightarrow> Dmenu \<Rightarrow> dialogue \<Rightarrow> bool" where
  "dp_inv sr d s \<longleftrightarrow>
     dp_child_input s @ dp_outpipe s @ dp_unsent s = dmenu_outpipe d \<and>
     (dp_parent s \<noteq> Sending \<longrightarrow> dp_unsent s = []) \<and> length (dp_inpipe s) \<le> sr_capacity sr \<and>
     (case dp_child s of
        Child_reading \<Rightarrow> dp_inpipe s = [] \<and> dp_parent s \<in> {Sending, Waiting_for_child}
      | Child_writing out status \<Rightarrow> dp_parent s = Waiting_for_child \<and>
          sr_program sr (dmenu_outpipe d) = (status, dp_inpipe s @ out)
      | Child_exited status \<Rightarrow>
          length (snd (sr_program sr (dmenu_outpipe d))) \<le> sr_capacity sr \<and>
          (case dp_parent s of
             Sending \<Rightarrow> False
           | Waiting_for_child \<Rightarrow> sr_program sr (dmenu_outpipe d) = (status, dp_inpipe s)
           | Receiving choice \<Rightarrow> sr_program sr (dmenu_outpipe d) = (Wexited 0, choice @ dp_inpipe s)
           | Answered r \<Rightarrow> r = Dmenu_read_choice (sr_program sr) d))"

lemma dp_inv_start: "dp_inv sr d (dp_start (dmenu_outpipe d))"
  by (simp add: dp_inv_def dp_start_def)

lemma dp_inv_waited:
  assumes "dp_inv sr d s" "dp_parent s = Waiting_for_child" "dp_child s = Child_exited status"
  shows "dp_inv sr d (dp_waited status s)"
  using assms
  by (cases status) (auto simp: dp_inv_def dp_waited_def Dmenu_read_choice_def)

lemma dp_inv_read:
  assumes "dp_inv sr d s" "dp_parent s = Receiving choice" "0 < n"
  shows "dp_inv sr d (dp_read n choice s)"
  using assms
  by (auto simp: dp_inv_def dp_read_def Dmenu_read_choice_def split: child_phase.splits)

lemma take_drop_append [simp]: "take n xs @ drop n xs @ ys = xs @ ys"
  by (metis append_assoc append_take_drop_id)

lemma dp_inv_step:
  assumes "patient sr"
  shows "dp_step sr s t \<Longrightarrow> dp_inv sr d s \<Longrightarrow> dp_inv sr d t"
proof (induction rule: dp_step.induct)
  case (parent_gets_sigpipe s)
  then show ?case by (cases "dp_child s") (auto simp: dp_inv_def)
next
  case (parent_waits s status)
  then show ?case by (intro dp_inv_waited)
next
  case (parent_interrupted s)
  with assms show ?case by (simp add: patient_def)
next
  case (parent_reads s choice n)
  then show ?case by (intro dp_inv_read)
next
  case (child_quits s status)
  with assms show ?case by (simp add: patient_def)
qed (auto simp: dp_inv_def dp_defs split: child_phase.splits prod.splits)

lemma dp_inv_reachable:
  assumes "dp_reachable sr (dmenu_outpipe d) s" "patient sr"
  shows "dp_inv sr d s"
  using assms(1) by (induction rule: dp_reachable.induct) (auto intro: dp_inv_start dp_inv_step [OF assms(2)])

text \<open>Where nothing goes on: at the end, or when the answer does not fit into the pipe.\<close>

lemma dp_step_exists:
  assumes "dp_inv sr d s" "patient sr"
  shows "(\<exists>t. dp_step sr s t) \<or> (\<exists>r. dp_parent s = Answered r) \<or>
    dp_parent s = Waiting_for_child \<and> sr_capacity sr < length (snd (sr_program sr (dmenu_outpipe d)))"
proof (cases "dp_parent s")
  case Sending
  then have child: "dp_child s = Child_reading"
    using assms(1) by (auto simp: dp_inv_def split: child_phase.splits)
  consider "dp_unsent s = []" | "dp_outpipe s \<noteq> []" | "dp_unsent s \<noteq> []" "dp_outpipe s = []" by blast
  then show ?thesis
  proof cases
    case 1
    with Sending show ?thesis using parent_displays by blast
  next
    case 2
    with child show ?thesis using child_reads [of s 1] by (cases "dp_outpipe s") auto
  next
    case 3
    with Sending child assms(2) show ?thesis
      using parent_writes [of s 1 sr] by (cases "dp_unsent s") (auto simp: patient_def)
  qed
next
  case Waiting_for_child
  show ?thesis
  proof (cases "dp_child s")
    case Child_reading
    with Waiting_for_child show ?thesis
      using child_reads [of s 1] child_answers [of s] by (cases "dp_outpipe s") auto
  next
    case (Child_writing out status)
    then have p: "sr_program sr (dmenu_outpipe d) = (status, dp_inpipe s @ out)"
      using assms(1) by (simp add: dp_inv_def)
    show ?thesis
    proof (cases "out = [] \<or> length (dp_inpipe s) < sr_capacity sr")
      case True
      with Child_writing show ?thesis
        using child_exits [of s status] child_writes [of s out status 1 sr] by (cases out) auto
    next
      case False
      with Waiting_for_child p show ?thesis by (cases out) auto
    qed
  next
    case (Child_exited status)
    with Waiting_for_child show ?thesis using parent_waits by blast
  qed
next
  case (Receiving choice)
  then show ?thesis using parent_reads [of s choice 1] by auto
qed auto


definition sample_dialogue :: "nat \<Rightarrow> string \<Rightarrow> surroundings" where
  "sample_dialogue capacity answer =
     \<lparr>sr_capacity = capacity, sr_program = (\<lambda>_. (Wexited 0, answer)), sr_early = {}, sr_handler = False\<rparr>"


section \<open>A signal while the menu is open\<close>

lemma dp_sent:
  assumes "length menu \<le> sr_capacity sr"
  shows "\<exists>s. dp_reachable sr menu s \<and> dp_parent s = Waiting_for_child \<and> dp_child s = Child_reading"
proof -
  have start: "dp_reachable sr menu (dp_start menu)" by (rule dp_started)
  have "\<exists>s. dp_reachable sr menu s \<and> dp_parent s = Sending \<and> dp_unsent s = [] \<and> dp_child s = Child_reading"
  proof (cases "menu = []")
    case True
    with start show ?thesis by (auto simp: dp_start_def)
  next
    case False
    then have "dp_step sr (dp_start menu) (dp_write (length menu) (dp_start menu))"
      using assms by (intro parent_writes) (simp_all add: dp_start_def)
    from dp_next [OF start this] show ?thesis by (auto simp: dp_start_def dp_write_def)
  qed
  then obtain s where "dp_reachable sr menu s" "dp_parent s = Sending" "dp_unsent s = []" "dp_child s = Child_reading"
    by blast
  from dp_next [OF this(1) parent_displays [OF this(2,3)]] this(4)
  show ?thesis by (auto simp: Dmenu_display_def)
qed

text \<open>When a handler of another signal is installed without \<open>SA_RESTART\<close>, as \<open>setup_sigchld_signal\<close> does in
  wait-on mode, a signal that arrives while the menu is open can end the dialogue with a status that was
  never set, whatever the menu program would have answered. Without such a handler this never
  happens.\<close>

theorem dialogue_interrupted:
  assumes "length menu \<le> sr_capacity sr"
  shows "if sr_handler sr then \<exists>s. dp_reachable sr menu s \<and> dp_parent s = Answered (Inl Undefined)
    else \<forall>s. dp_reachable sr menu s \<longrightarrow> dp_parent s \<noteq> Answered (Inl Undefined)"
proof (cases "sr_handler sr")
  case True
  obtain s where "dp_reachable sr menu s" "dp_parent s = Waiting_for_child"
    using dp_sent [OF assms] by blast
  from dp_next [OF this(1) parent_interrupted [OF this(2) True]]
  have "dp_reachable sr menu (dp_interrupted s)" .
  with True show ?thesis by (auto simp: dp_interrupted_def)
next
  case False
  have step: "dp_step sr s t \<Longrightarrow> dp_parent s \<noteq> Answered (Inl Undefined) \<Longrightarrow>
      dp_parent t \<noteq> Answered (Inl Undefined)" for s t
    by (erule dp_step.cases) (auto simp: False dp_defs split: wait_status.splits prod.splits)
  have "dp_parent s \<noteq> Answered (Inl Undefined)" if "dp_reachable sr menu s" for s
    using that by (induction rule: dp_reachable.induct) (auto simp: dp_start_def dest: step)
  with False show ?thesis by simp
qed

theorem dialogue_interrupted_witness:
  "\<exists>s. dp_reachable ((sample_dialogue 65536 ''Ed'')\<lparr>sr_handler := True\<rparr>) ''Ed'' s \<and>
     dp_parent s = Answered (Inl Undefined)"
  using dialogue_interrupted [of "''Ed''" "(sample_dialogue 65536 ''Ed'')\<lparr>sr_handler := True\<rparr>"]
  by (simp add: sample_dialogue_def)

end
