(* ===== verification/Children.thy ===== *)
theory Children
  imports WaitOn
begin

text \<open>
  The started applications as processes: the handler of \<open>SIGCHLD\<close>, the pipe it writes into and the
  part of \<open>do_wait_on\<close> that empties the pipe and waits for the children (\<open>src/main.cc\<close>). A child
  may end, and a signal may come, between any two calls of the loop. \<open>WaitOn\<close> has the same loop
  with the answers of \<open>waitpid\<close> as arguments; here they come from the state of the processes.
\<close>

section \<open>The state\<close>

text \<open>
  Where the loop is. The flag is the one that \<open>poll\<close> left in \<open>watch[2].revents\<close>; \<open>Started\<close> is between
  \<open>fork\<close> and \<open>push_back\<close>; \<open>Reaping\<close> holds the children not asked for yet and
  \<open>new_processes_to_wait_for\<close>.
\<close>

datatype wait_phase =
    Polling
  | Serving bool
  | Chosen bool
  | Started nat bool
  | Served bool
  | Draining
  | Reaping "nat list" "nat list"
  | Gave_up fault

record wait_processes =
  wp_running :: "nat set"
  wp_zombies :: "nat set"
  wp_pending :: bool
  wp_pipe :: nat
  processes_to_wait_for :: "nat list"
  wp_phase :: wait_phase

text \<open>\<open>setup_sigchld_signal\<close>: an empty pipe, both ends of which do not block.\<close>

definition setup_sigchld_signal :: wait_processes where
  "setup_sigchld_signal =
     \<lparr>wp_running = {}, wp_zombies = {}, wp_pending = False, wp_pipe = 0, processes_to_wait_for = [],
      wp_phase = Polling\<rparr>"

section \<open>The steps\<close>

text \<open>The handler: a full pipe is no error.\<close>

definition sigchld :: "nat \<Rightarrow> wait_processes \<Rightarrow> wait_processes" where
  "sigchld capacity s =
     s\<lparr>wp_pipe := (if wp_pipe s < capacity then wp_pipe s + 1 else wp_pipe s), wp_pending := False\<rparr>"

definition child_ends :: "nat \<Rightarrow> wait_processes \<Rightarrow> wait_processes" where
  "child_ends pid s =
     s\<lparr>wp_running := wp_running s - {pid}, wp_zombies := insert pid (wp_zombies s), wp_pending := True\<rparr>"

definition dmenu_ends :: "bool \<Rightarrow> wait_processes \<Rightarrow> wait_processes" where
  "dmenu_ends readable s = s\<lparr>wp_pending := True, wp_phase := Chosen readable\<rparr>"

definition fork_child :: "nat \<Rightarrow> bool \<Rightarrow> wait_processes \<Rightarrow> wait_processes" where
  "fork_child pid readable s = s\<lparr>wp_running := insert pid (wp_running s), wp_phase := Started pid readable\<rparr>"

definition push_child :: "nat \<Rightarrow> bool \<Rightarrow> wait_processes \<Rightarrow> wait_processes" where
  "push_child pid readable s =
     s\<lparr>processes_to_wait_for := processes_to_wait_for s @ [pid], wp_phase := Served readable\<rparr>"

definition after_request :: "bool \<Rightarrow> wait_processes \<Rightarrow> wait_processes" where
  "after_request readable s = s\<lparr>wp_phase := (if readable then Draining else Polling)\<rparr>"

text \<open>One turn of the loop that empties the pipe; when it is empty there may be nobody to wait for.\<close>

definition drain :: "wait_processes \<Rightarrow> wait_processes" where
  "drain s =
     (if 0 < wp_pipe s then s\<lparr>wp_pipe := wp_pipe s - 1\<rparr>
      else if processes_to_wait_for s = [] then s\<lparr>wp_phase := Polling\<rparr>
      else s\<lparr>wp_phase := Reaping (processes_to_wait_for s) []\<rparr>)"

text \<open>What \<open>waitpid\<close> answers with \<open>WNOHANG\<close>; a zombie it reports is gone.\<close>

definition waitpid_nohang :: "wait_processes \<Rightarrow> nat \<Rightarrow> wait_answer" where
  "waitpid_nohang s pid =
     (if pid \<in> wp_zombies s then Waited else if pid \<in> wp_running s then Still_running else Wait_error)"

definition reap_one :: "nat \<Rightarrow> nat list \<Rightarrow> nat list \<Rightarrow> wait_processes \<Rightarrow> wait_processes" where
  "reap_one pid pids remaining s =
     (case reap (waitpid_nohang s) [pid] remaining of
        Inl e \<Rightarrow> s\<lparr>wp_phase := Gave_up e\<rparr>
      | Inr remaining' \<Rightarrow> s\<lparr>wp_zombies := wp_zombies s - {pid}, wp_phase := Reaping pids remaining'\<rparr>)"

definition reaped :: "nat list \<Rightarrow> wait_processes \<Rightarrow> wait_processes" where
  "reaped remaining s = s\<lparr>processes_to_wait_for := remaining, wp_phase := Polling\<rparr>"

text \<open>
  What happens from outside: a child ends, a signal comes for another reason (a child is stopped),
  a byte arrives in the FIFO. \<open>fork\<close> gives a number that no process has.
\<close>

inductive outer_step :: "wait_processes \<Rightarrow> wait_processes \<Rightarrow> bool" where
  child_exits: "pid \<in> wp_running s \<Longrightarrow> outer_step s (child_ends pid s)"
| stray_signal: "outer_step s (s\<lparr>wp_pending := True\<rparr>)"
| request: "wp_phase s = Polling \<Longrightarrow> outer_step s (s\<lparr>wp_phase := Serving (0 < wp_pipe s)\<rparr>)"

inductive inner_step :: "nat \<Rightarrow> wait_processes \<Rightarrow> wait_processes \<Rightarrow> bool" for capacity where
  handler: "wp_pending s \<Longrightarrow> inner_step capacity s (sigchld capacity s)"
| wakes: "wp_phase s = Polling \<Longrightarrow> 0 < wp_pipe s \<Longrightarrow> inner_step capacity s (s\<lparr>wp_phase := Draining\<rparr>)"
| nothing_received: "wp_phase s = Serving readable \<Longrightarrow> inner_step capacity s (s\<lparr>wp_phase := Polling\<rparr>)"
| dialogue_over: "wp_phase s = Serving readable \<Longrightarrow> inner_step capacity s (dmenu_ends readable s)"
| no_choice: "wp_phase s = Chosen readable \<Longrightarrow> inner_step capacity s (s\<lparr>wp_phase := Served readable\<rparr>)"
| forks: "wp_phase s = Chosen readable \<Longrightarrow> pid \<notin> wp_running s \<union> wp_zombies s \<Longrightarrow>
    inner_step capacity s (fork_child pid readable s)"
| pushes: "wp_phase s = Started pid readable \<Longrightarrow> inner_step capacity s (push_child pid readable s)"
| goes_on: "wp_phase s = Served readable \<Longrightarrow> inner_step capacity s (after_request readable s)"
| drains: "wp_phase s = Draining \<Longrightarrow> inner_step capacity s (drain s)"
| reaps: "wp_phase s = Reaping (pid # pids) remaining \<Longrightarrow>
    inner_step capacity s (reap_one pid pids remaining s)"
| all_asked: "wp_phase s = Reaping [] remaining \<Longrightarrow> inner_step capacity s (reaped remaining s)"

inductive wp_reachable :: "nat \<Rightarrow> wait_processes \<Rightarrow> bool" for capacity where
  wp_setup: "wp_reachable capacity setup_sigchld_signal"
| wp_outer: "wp_reachable capacity s \<Longrightarrow> outer_step s t \<Longrightarrow> wp_reachable capacity t"
| wp_inner: "wp_reachable capacity s \<Longrightarrow> inner_step capacity s t \<Longrightarrow> wp_reachable capacity t"

lemmas wp_defs = sigchld_def child_ends_def dmenu_ends_def fork_child_def push_child_def
  after_request_def drain_def reap_one_def reaped_def waitpid_nohang_def

section \<open>The loop comes to rest\<close>

fun serving_rank :: "wait_phase \<Rightarrow> nat" where
  "serving_rank (Serving _) = 4"
| "serving_rank (Chosen _) = 3"
| "serving_rank (Started _ _) = 2"
| "serving_rank (Served _) = 1"
| "serving_rank _ = 0"

fun reaping_rank :: "wait_processes \<Rightarrow> wait_phase \<Rightarrow> nat" where
  "reaping_rank s Polling = 1"
| "reaping_rank s Draining = (if 0 < wp_pipe s then 0 else 3 + length (processes_to_wait_for s))"
| "reaping_rank s (Reaping pids _) = 2 + length pids"
| "reaping_rank s _ = 0"

text \<open>Signals and bytes that are still to be handled: the handler turns one into the other.\<close>

definition unhandled :: "wait_processes \<Rightarrow> nat" where
  "unhandled s = wp_pipe s + (if wp_pending s then 2 else 0)"

definition wp_order :: "wait_processes rel" where
  "wp_order = inv_image (less_than <*lex*> less_than <*lex*> less_than)
     (\<lambda>s. (serving_rank (wp_phase s), unhandled s, reaping_rank s (wp_phase s)))"

lemma inner_step_decreases: "inner_step capacity s t \<Longrightarrow> (t, s) \<in> wp_order"
  by (induction rule: inner_step.induct)
    (auto simp: wp_order_def wp_defs unhandled_def split: wait_answer.splits)

lemma wp_order_wf: "wf wp_order"
  unfolding wp_order_def by (intro wf_inv_image wf_lex_prod wf_less_than)

section \<open>No child is forgotten\<close>

fun awaited :: "nat list \<Rightarrow> wait_phase \<Rightarrow> nat list" where
  "awaited pids (Started pid _) = pids @ [pid]"
| "awaited pids (Reaping todo remaining) = remaining @ todo"
| "awaited pids _ = pids"

text \<open>A zombie is either announced, or the loop is about to ask for it.\<close>

fun about_to_ask :: "nat set \<Rightarrow> wait_phase \<Rightarrow> bool" where
  "about_to_ask zombies Draining = True"
| "about_to_ask zombies (Reaping todo _) = (zombies \<subseteq> set todo)"
| "about_to_ask zombies _ = (zombies = {})"

definition wp_inv :: "wait_processes \<Rightarrow> bool" where
  "wp_inv s \<longleftrightarrow>
     wp_running s \<inter> wp_zombies s = {} \<and>
     (let pids = awaited (processes_to_wait_for s) (wp_phase s) in
        distinct pids \<and> set pids = wp_running s \<union> wp_zombies s) \<and>
     (wp_pending s \<or> 0 < wp_pipe s \<or> about_to_ask (wp_zombies s) (wp_phase s)) \<and>
     (\<forall>e. wp_phase s \<noteq> Gave_up e)"

lemma wp_inv_setup: "wp_inv setup_sigchld_signal"
  by (simp add: wp_inv_def setup_sigchld_signal_def)

lemma wp_inv_outer: "outer_step s t \<Longrightarrow> wp_inv s \<Longrightarrow> wp_inv t"
  by (induction rule: outer_step.induct) (auto simp: wp_inv_def child_ends_def Let_def)

lemma wp_inv_reap:
  assumes "wp_inv s" "wp_phase s = Reaping (pid # pids) remaining"
  shows "wp_inv (reap_one pid pids remaining s)"
  using assms by (auto simp: wp_inv_def reap_one_def waitpid_nohang_def Let_def)

lemma wp_inv_inner:
  assumes "0 < capacity"
  shows "inner_step capacity s t \<Longrightarrow> wp_inv s \<Longrightarrow> wp_inv t"
proof (induction rule: inner_step.induct)
  case (reaps s pid pids remaining)
  then show ?case by (intro wp_inv_reap)
next
  case (drains s)
  then show ?case by (auto simp: wp_inv_def drain_def Let_def)
next
  case (handler s)
  with assms show ?case by (auto simp: wp_inv_def sigchld_def Let_def)
qed (auto simp: wp_inv_def wp_defs Let_def)

lemma wp_inv_reachable:
  assumes "wp_reachable capacity s" "0 < capacity"
  shows "wp_inv s"
  using assms(1)
  by (induction rule: wp_reachable.induct)
    (auto intro: wp_inv_setup wp_inv_outer wp_inv_inner [OF assms(2)])

text \<open>Where the loop has nothing to do it is in \<open>poll\<close>, and has handled all signals.\<close>

lemma inner_step_exists:
  assumes "\<not> (\<exists>t. inner_step capacity s t)" "wp_inv s"
  shows "wp_phase s = Polling \<and> \<not> wp_pending s \<and> wp_pipe s = 0"
proof (intro conjI)
  show "\<not> wp_pending s" using assms(1) handler by blast
  show phase: "wp_phase s = Polling"
  proof (cases "wp_phase s")
    case (Reaping todo remaining)
    with assms(1) show ?thesis using reaps all_asked by (cases todo) blast+
  qed (use assms nothing_received no_choice pushes goes_on drains in \<open>(blast | simp add: wp_inv_def)+\<close>)
  show "wp_pipe s = 0" using assms(1) wakes [OF phase] by blast
qed


text \<open>A request that starts process 7: the end of dmenu wakes the loop, the child still runs.\<close>

definition served_request :: wait_processes where
  "served_request =
     \<lparr>wp_running = {7}, wp_zombies = {}, wp_pending = False, wp_pipe = 0, processes_to_wait_for = [7],
      wp_phase = Polling\<rparr>"

lemma served_request_reachable: "wp_reachable 4096 served_request"
proof -
  note after = wp_inner [where capacity = 4096]
  let ?s = "setup_sigchld_signal"
  let ?s1 = "?s\<lparr>wp_phase := Serving False\<rparr>"
  let ?s2 = "dmenu_ends False ?s1"
  let ?s3 = "fork_child 7 False ?s2"
  let ?s4 = "after_request False (push_child 7 False ?s3)"
  let ?s5 = "drain (sigchld 4096 ?s4\<lparr>wp_phase := Draining\<rparr>)"
  have "wp_reachable 4096 ?s1"
    using wp_outer [OF wp_setup request [of ?s], of 4096] by (simp add: setup_sigchld_signal_def)
  from after [OF after [OF this dialogue_over [where readable = False]] forks [where pid = 7 and readable = False]] have "wp_reachable 4096 ?s3"
    by (simp add: setup_sigchld_signal_def dmenu_ends_def)
  from after [OF after [OF this pushes [where pid = 7 and readable = False]] goes_on [where readable = False]] have "wp_reachable 4096 ?s4"
    by (simp add: fork_child_def push_child_def)
  from after [OF after [OF after [OF this handler] wakes] drains] have "wp_reachable 4096 ?s5"
    by (simp add: setup_sigchld_signal_def wp_defs)
  from after [OF after [OF after [OF this drains] reaps, of 7 "[]" "[]"] all_asked]
  have "wp_reachable 4096 (reaped [7] (reap_one 7 [] [] (drain ?s5)))"
    by (simp add: setup_sigchld_signal_def wp_defs)
  then show ?thesis by (simp add: served_request_def setup_sigchld_signal_def wp_defs)
qed

lemma served_request_rests: "\<not> inner_step 4096 served_request t"
  by (auto elim!: inner_step.cases simp: served_request_def)


end
