(* ===== verification/Fifo.thy ===== *)
theory Fifo
  imports WaitOn
begin

text \<open>
  The FIFO of the wait-on mode as a step relation: what \<open>poll\<close> and \<open>read\<close> answer follows from who has
  it open and what is in it, and \<open>do_wait_on\<close> (\<open>src/main.cc\<close>) reads it to the end, serves the last
  byte and opens it again after a hangup. Writers come and go between any two calls. \<open>WaitOn\<close> has
  the answers of \<open>read\<close> as an argument; here they come from the state.
\<close>

section \<open>The state\<close>

text \<open>
  Where the loop is. The flag is \<open>POLLHUP\<close> of \<open>watch[0].revents\<close>; \<open>Reading\<close> has the answers of \<open>read\<close> so
  far; \<open>Closing\<close> and \<open>Opening\<close> have the byte that is served afterwards, if there is one.
\<close>

datatype fifo_phase =
    In_poll
  | Reading "fifo_read list" bool
  | Closing "char option"
  | Opening "char option"
  | In_dialogue char bool
  | Ended fault

text \<open>
  \<open>fi_crossed\<close> and \<open>fi_lost\<close> are no part of the program: whether somebody has opened the FIFO for writing
  since \<open>poll\<close> returned last, and the bytes that were discarded.
\<close>

record fifo =
  fi_bytes :: string
  fi_writers :: nat
  fi_hangup :: bool
  fi_opened :: bool
  fi_phase :: fifo_phase
  fi_crossed :: bool
  fi_lost :: string

text \<open>After \<open>mkfifo\<close> and \<open>open\<close>.\<close>

definition fifo_start :: fifo where
  "fifo_start =
     \<lparr>fi_bytes = [], fi_writers = 0, fi_hangup = False, fi_opened = True, fi_phase = In_poll,
      fi_crossed = False, fi_lost = []\<rparr>"

section \<open>Writers\<close>

text \<open>
  \<open>fifo(7)\<close>, \<open>poll(2)\<close>: a hangup lasts until somebody opens the FIFO for writing or the reader closes it; when
  nobody has it open any more the bytes in it are discarded.
\<close>

definition discard :: "fifo \<Rightarrow> fifo" where
  "discard s = s\<lparr>fi_bytes := [], fi_lost := fi_lost s @ fi_bytes s\<rparr>"

definition writer_opens :: "fifo \<Rightarrow> fifo" where
  "writer_opens s = s\<lparr>fi_writers := fi_writers s + 1, fi_hangup := False, fi_crossed := True\<rparr>"

definition writer_closes :: "fifo \<Rightarrow> fifo" where
  "writer_closes s =
     (let s' = s\<lparr>fi_writers := fi_writers s - 1\<rparr> in
      if fi_writers s' \<noteq> 0 then s'
      else if fi_opened s then s'\<lparr>fi_hangup := True\<rparr> else discard s')"

section \<open>The loop\<close>

text \<open>When only another descriptor is ready the loop comes back to \<open>poll\<close>.\<close>

definition fifo_poll :: "fifo \<Rightarrow> fifo" where
  "fifo_poll s =
     s\<lparr>fi_crossed := False,
       fi_phase := (if fi_bytes s \<noteq> [] then Reading [] (fi_hangup s)
                    else if fi_hangup s then Closing None else In_poll)\<rparr>"

text \<open>What \<open>read\<close> answers without blocking.\<close>

definition fifo_answer :: "fifo \<Rightarrow> fifo_read" where
  "fifo_answer s =
     (case fi_bytes s of
        c # cs \<Rightarrow> Byte c
      | [] \<Rightarrow> if fi_writers s = 0 then End_of_file else Would_block)"

text \<open>After the last read; at the end of the file the FIFO is opened again, and the flag is reset.\<close>

definition reads_done :: "fifo_read list \<Rightarrow> fifo_read \<Rightarrow> bool \<Rightarrow> fifo \<Rightarrow> fifo" where
  "reads_done answers last_answer hangup s =
     (case read_fifo (answers @ [last_answer]) of
        Inl e \<Rightarrow> s\<lparr>fi_phase := Ended e\<rparr>
      | Inr received \<Rightarrow>
          (case received of
             Some data \<Rightarrow>
               if last_answer = End_of_file then s\<lparr>fi_phase := Closing (Some data)\<rparr>
               else s\<lparr>fi_phase := In_dialogue data hangup\<rparr>
           | None \<Rightarrow> s\<lparr>fi_phase := Closing None\<rparr>))"

definition fifo_read_one :: "fifo_read list \<Rightarrow> bool \<Rightarrow> fifo \<Rightarrow> fifo" where
  "fifo_read_one answers hangup s =
     (case fifo_answer s of
        Byte c \<Rightarrow> s\<lparr>fi_bytes := tl (fi_bytes s), fi_phase := Reading (answers @ [Byte c]) hangup\<rparr>
      | a \<Rightarrow> reads_done answers a hangup s)"

definition fifo_close :: "char option \<Rightarrow> fifo \<Rightarrow> fifo" where
  "fifo_close data s =
     (let s' = s\<lparr>fi_opened := False, fi_hangup := False, fi_phase := Opening data\<rparr> in
      if fi_writers s = 0 then discard s' else s')"

definition fifo_open :: "char option \<Rightarrow> fifo \<Rightarrow> fifo" where
  "fifo_open data s =
     s\<lparr>fi_opened := True,
       fi_phase := (case data of None \<Rightarrow> In_poll | Some c \<Rightarrow> In_dialogue c False)\<rparr>"

text \<open>The dialogue, and the test for \<open>POLLHUP\<close> after it.\<close>

definition request_served :: "char \<Rightarrow> bool \<Rightarrow> fifo \<Rightarrow> fifo" where
  "request_served data hangup s =
     s\<lparr>fi_phase :=
        (if data = CHR ''q'' then Ended (Exited EXIT_SUCCESS) else if hangup then Closing None else In_poll)\<rparr>"

text \<open>A writer that opens waits for the reader; one that writes without a reader is killed.\<close>

inductive writer_step :: "fifo \<Rightarrow> fifo \<Rightarrow> bool" where
  w_open: "fi_opened s \<Longrightarrow> writer_step s (writer_opens s)"
| w_write: "fi_opened s \<Longrightarrow> 0 < fi_writers s \<Longrightarrow> writer_step s (s\<lparr>fi_bytes := fi_bytes s @ [c]\<rparr>)"
| w_close: "0 < fi_writers s \<Longrightarrow> writer_step s (writer_closes s)"

inductive loop_step :: "fifo \<Rightarrow> fifo \<Rightarrow> bool" where
  l_poll: "fi_phase s = In_poll \<Longrightarrow> fi_bytes s \<noteq> [] \<or> fi_hangup s \<Longrightarrow> loop_step s (fifo_poll s)"
| l_read: "fi_phase s = Reading answers hangup \<Longrightarrow> loop_step s (fifo_read_one answers hangup s)"
| l_close: "fi_phase s = Closing data \<Longrightarrow> loop_step s (fifo_close data s)"
| l_open: "fi_phase s = Opening data \<Longrightarrow> loop_step s (fifo_open data s)"
| l_serve: "fi_phase s = In_dialogue data hangup \<Longrightarrow> loop_step s (request_served data hangup s)"

inductive fifo_reachable :: "fifo \<Rightarrow> bool" where
  f_start: "fifo_reachable fifo_start"
| f_writer: "fifo_reachable s \<Longrightarrow> writer_step s t \<Longrightarrow> fifo_reachable t"
| f_loop: "fifo_reachable s \<Longrightarrow> loop_step s t \<Longrightarrow> fifo_reachable t"

lemmas fifo_defs = discard_def writer_opens_def writer_closes_def fifo_poll_def fifo_answer_def
  reads_done_def fifo_read_one_def fifo_close_def fifo_open_def request_served_def Let_def

section \<open>Reading\<close>

text \<open>Answers that are all bytes, followed by one that is none.\<close>

lemma read_fifo_bytes:
  "a \<in> {End_of_file, Would_block} \<Longrightarrow> bs \<noteq> [] \<Longrightarrow> read_fifo (map Byte bs @ [a]) = Inr (Some (last bs))"
proof -
  assume a: "a \<in> {End_of_file, Would_block}" and bs: "bs \<noteq> []"
  have "last_byte d (map Byte cs @ [a]) = (last (d # cs), a)" for d cs
    using a by (induction cs arbitrary: d) auto
  with a bs show ?thesis by (cases bs) (auto simp: read_fifo_def)
qed

section \<open>The invariant\<close>

fun quiet :: "fifo_phase \<Rightarrow> bool" where
  "quiet (In_dialogue _ hangup) = hangup"
| "quiet (Closing _) = True"
| "quiet _ = False"

fun hung_up :: "fifo_phase \<Rightarrow> bool" where
  "hung_up (Reading _ hangup) = hangup"
| "hung_up _ = False"

definition fifo_inv :: "fifo \<Rightarrow> bool" where
  "fifo_inv s \<longleftrightarrow>
     (fi_hangup s \<longrightarrow> fi_writers s = 0 \<and> fi_opened s) \<and>
     (fi_opened s \<longleftrightarrow> (\<forall>data. fi_phase s \<noteq> Opening data)) \<and>
     (\<forall>answers hangup. fi_phase s = Reading answers hangup \<longrightarrow>
        (\<exists>bs. answers = map Byte bs \<and> (bs = [] \<longrightarrow> fi_bytes s \<noteq> []))) \<and>
     (\<not> fi_crossed s \<longrightarrow>
        (quiet (fi_phase s) \<longrightarrow> fi_writers s = 0 \<and> fi_bytes s = []) \<and>
        (hung_up (fi_phase s) \<longrightarrow> fi_writers s = 0)) \<and>
     (\<forall>e. fi_phase s = Ended e \<longrightarrow> e = Exited EXIT_SUCCESS)"

lemma fifo_inv_start: "fifo_inv fifo_start"
  by (simp add: fifo_inv_def fifo_start_def)

lemma fifo_inv_writer: "writer_step s t \<Longrightarrow> fifo_inv s \<Longrightarrow> fifo_inv t"
  by (induction rule: writer_step.induct) (auto simp: fifo_inv_def fifo_defs)

lemma fifo_inv_read:
  assumes "fifo_inv s" "fi_phase s = Reading answers hangup"
  shows "fifo_inv (fifo_read_one answers hangup s)"
proof -
  obtain bs where bs: "answers = map Byte bs" "bs = [] \<longrightarrow> fi_bytes s \<noteq> []"
    using assms by (auto simp: fifo_inv_def)
  show ?thesis
  proof (cases "fi_bytes s")
    case (Cons c cs)
    have "map Byte bs @ [Byte c] = map Byte (bs @ [c])" by simp
    then have "\<exists>bs'. map Byte bs @ [Byte c] = map Byte bs' \<and> bs' \<noteq> []" by blast
    with assms bs Cons show ?thesis by (auto simp: fifo_inv_def fifo_read_one_def fifo_answer_def)
  next
    case Nil
    with bs have "bs \<noteq> []" by simp
    from read_fifo_bytes [OF _ this] Nil assms bs(1) show ?thesis
      by (auto simp: fifo_inv_def fifo_read_one_def fifo_answer_def reads_done_def)
  qed
qed

lemma fifo_inv_loop: "loop_step s t \<Longrightarrow> fifo_inv s \<Longrightarrow> fifo_inv t"
proof (induction rule: loop_step.induct)
  case (l_read s answers hangup)
  then show ?case by (intro fifo_inv_read)
next
  case (l_poll s)
  then show ?case by (auto simp: fifo_inv_def fifo_poll_def)
next
  case (l_close s data)
  then show ?case by (auto simp: fifo_inv_def fifo_close_def discard_def Let_def)
next
  case (l_open s data)
  then show ?case by (auto simp: fifo_inv_def fifo_open_def split: option.splits)
next
  case (l_serve s data hangup)
  then show ?case by (auto simp: fifo_inv_def request_served_def)
qed

lemma fifo_inv_reachable: "fifo_reachable s \<Longrightarrow> fifo_inv s"
  by (induction rule: fifo_reachable.induct) (auto intro: fifo_inv_start fifo_inv_writer fifo_inv_loop)

section \<open>The loop comes to rest\<close>

fun loop_rank :: "fifo \<Rightarrow> fifo_phase \<Rightarrow> nat" where
  "loop_rank s (Reading answers _) = (if answers = [] \<and> fi_bytes s \<noteq> [] then 1 else 8)"
| "loop_rank s (Closing (Some _)) = 7"
| "loop_rank s (Opening (Some _)) = 6"
| "loop_rank s (In_dialogue _ _) = 5"
| "loop_rank s (Closing None) = 4"
| "loop_rank s (Opening None) = 3"
| "loop_rank s In_poll = 2"
| "loop_rank s (Ended _) = 0"

fun closes :: "fifo_phase \<Rightarrow> bool" where
  "closes (Closing _) = True"
| "closes _ = False"

text \<open>What is left to do: the bytes, and a hangup the loop does not handle already.\<close>

definition left_to_do :: "fifo \<Rightarrow> nat" where
  "left_to_do s = length (fi_bytes s) + (if fi_hangup s \<and> \<not> closes (fi_phase s) then 1 else 0)"

definition fifo_order :: "fifo rel" where
  "fifo_order = inv_image (less_than <*lex*> less_than) (\<lambda>s. (left_to_do s, loop_rank s (fi_phase s)))"

lemma loop_step_decreases: "loop_step s t \<Longrightarrow> (t, s) \<in> fifo_order"
proof (induction rule: loop_step.induct)
  case (l_read s answers hangup)
  then show ?case
    by (cases "fi_bytes s")
      (auto simp: fifo_order_def left_to_do_def fifo_read_one_def fifo_answer_def reads_done_def
        split: sum.splits option.splits)
next
  case (l_close s data)
  then show ?case
    by (cases data) (auto simp: fifo_order_def left_to_do_def fifo_close_def discard_def Let_def)
next
  case (l_open s data)
  then show ?case by (cases data) (auto simp: fifo_order_def left_to_do_def fifo_open_def)
qed (auto simp: fifo_order_def left_to_do_def fifo_poll_def request_served_def)

lemma fifo_order_wf: "wf fifo_order"
  unfolding fifo_order_def by (intro wf_inv_image wf_lex_prod wf_less_than)

lemma loop_rests:
  assumes "\<not> (\<exists>t. loop_step s t)"
  shows "fi_phase s = In_poll \<and> fi_bytes s = [] \<and> \<not> fi_hangup s \<or> (\<exists>e. fi_phase s = Ended e)"
  using assms l_poll l_read l_close l_open l_serve by (cases "fi_phase s") blast+

text \<open>C19: what the loop relies on when it reads the FIFO holds however writers come and go. The byte it serves
  was always read (the first \<open>read\<close> after \<open>poll\<close> finds one), so the loop ends only on the request q;
  it does not spin: it is back in \<open>poll\<close> after finitely many steps, with the FIFO empty and the
  hangup gone; and it closes the FIFO with a request in it only if somebody opened the FIFO for
  writing after \<open>poll\<close> returned.\<close>

theorem fifo_requests:
  assumes "fifo_reachable s"
  shows "(\<forall>e. fi_phase s = Ended e \<longrightarrow> e = Exited EXIT_SUCCESS) \<and>
    \<not> (\<exists>run. run 0 = s \<and> (\<forall>i. loop_step (run i) (run (Suc i)))) \<and>
    (\<not> (\<exists>t. loop_step s t) \<longrightarrow>
       fi_phase s = In_poll \<and> fi_bytes s = [] \<and> \<not> fi_hangup s \<or> fi_phase s = Ended (Exited EXIT_SUCCESS)) \<and>
    (\<forall>data. fi_phase s = Closing data \<and> \<not> fi_crossed s \<longrightarrow> fi_lost (fifo_close data s) = fi_lost s)"
proof (intro conjI impI allI)
  have inv: "fifo_inv s" using fifo_inv_reachable [OF assms] .
  then show "e = Exited EXIT_SUCCESS" if "fi_phase s = Ended e" for e using that by (simp add: fifo_inv_def)
  show "\<not> (\<exists>run. run 0 = s \<and> (\<forall>i. loop_step (run i) (run (Suc i))))"
    using fifo_order_wf loop_step_decreases unfolding wf_iff_no_infinite_down_chain by blast
  show "fi_phase s = In_poll \<and> fi_bytes s = [] \<and> \<not> fi_hangup s \<or> fi_phase s = Ended (Exited EXIT_SUCCESS)"
    if "\<not> (\<exists>t. loop_step s t)"
    using loop_rests [OF that] inv by (auto simp: fifo_inv_def)
  show "fi_lost (fifo_close data s) = fi_lost s" if "fi_phase s = Closing data \<and> \<not> fi_crossed s" for data
    using that inv by (simp add: fifo_inv_def fifo_close_def discard_def Let_def)
qed

section \<open>A request that is lost\<close>

text \<open>
  One client has written and gone when \<open>poll\<close> returns, a second opens the FIFO before it is read, and
  writes its request while the menu is open. The hangup of the first makes the loop open the FIFO
  again after the dialogue.
\<close>

definition second_client :: fifo where
  "second_client =
     \<lparr>fi_bytes = [], fi_writers = 1, fi_hangup = False, fi_opened = True,
      fi_phase = In_dialogue (CHR ''x'') True, fi_crossed = True, fi_lost = []\<rparr>"

lemma second_client_reachable: "fifo_reachable second_client"
proof -
  let ?s1 = "writer_opens fifo_start"
  let ?s2 = "?s1\<lparr>fi_bytes := fi_bytes ?s1 @ ''x''\<rparr>"
  let ?s3 = "writer_closes ?s2"
  let ?s4 = "writer_opens (fifo_poll ?s3)"
  have "fifo_reachable ?s1"
    by (rule f_writer [OF f_start w_open]) (simp add: fifo_start_def)
  from f_writer [OF this w_write [of ?s1 "CHR ''x''"]] have "fifo_reachable ?s2"
    by (simp add: fifo_start_def writer_opens_def)
  from f_writer [OF this w_close] have "fifo_reachable ?s3"
    by (simp add: fifo_start_def writer_opens_def)
  from f_writer [OF f_loop [OF this l_poll] w_open] have "fifo_reachable ?s4"
    by (simp add: fifo_start_def fifo_defs)
  from f_loop [OF f_loop [OF this l_read [of _ "[]" True]] l_read [of _ "[Byte (CHR ''x'')]" True]]
  have "fifo_reachable (fifo_read_one [Byte (CHR ''x'')] True (fifo_read_one [] True ?s4))"
    by (simp add: fifo_start_def fifo_defs)
  moreover have "read_fifo [Byte (CHR ''x''), Would_block] = Inr (Some (CHR ''x''))"
    by (simp add: read_fifo_def)
  ultimately show ?thesis by (simp add: second_client_def fifo_start_def fifo_defs)
qed

theorem fifo_requests_witness:
  "\<not> (\<exists>run. run 0 = second_client \<and> (\<forall>i. loop_step (run i) (run (Suc i))))"
  using fifo_requests [OF second_client_reachable] by blast

text \<open>A request can be lost: a client whose request arrives while the menu of another client is open
  gets no menu when the loop closes the FIFO afterwards because of the hangup it saw before.\<close>

theorem fifo_request_lost: "\<exists>s. fifo_reachable s \<and> fi_lost s = ''y'' \<and> fi_bytes s = [] \<and> fi_writers s = 0"
proof -
  let ?s1 = "second_client\<lparr>fi_bytes := fi_bytes second_client @ ''y''\<rparr>"
  let ?s2 = "writer_closes ?s1"
  have "fifo_reachable ?s1"
    using f_writer [OF second_client_reachable w_write [of second_client "CHR ''y''"]] by (simp add: second_client_def)
  from f_writer [OF this w_close] have "fifo_reachable ?s2" by (simp add: second_client_def)
  from f_loop [OF f_loop [OF this l_serve [of _ "CHR ''x''" True]] l_close [of _ None]]
  have "fifo_reachable (fifo_close None (request_served (CHR ''x'') True ?s2))"
    by (simp add: second_client_def fifo_defs)
  then show ?thesis by (intro exI conjI) (assumption, simp_all add: second_client_def fifo_defs)
qed

end
