(* ===== verification/NotifyKqueue.thy ===== *)
theory NotifyKqueue
  imports NotifyInotify OrderedMap
begin

text \<open>
  \<open>src/NotifyKqueue.cc\<close>, the notifier of the BSDs. A thread of its own compares the watched
  directories with what it saw last, appends the differences to a shared vector and writes a byte to
  a pipe; the main thread polls the pipe, takes the vector and empties the pipe.
\<close>

section \<open>std::set and std::set\_difference\<close>

fun os_insert :: "comparator \<Rightarrow> string \<Rightarrow> string list \<Rightarrow> string list" where
  "os_insert lt x [] = [x]"
| "os_insert lt x (y # ys) =
     (if lt x y then x # y # ys else if lt y x then y # os_insert lt x ys else y # ys)"

fun set_difference :: "comparator \<Rightarrow> string list \<Rightarrow> string list \<Rightarrow> string list" where
  "set_difference lt [] ys = []"
| "set_difference lt (x # xs) [] = x # xs"
| "set_difference lt (x # xs) (y # ys) =
     (if lt x y then x # set_difference lt xs (y # ys)
      else if lt y x then set_difference lt (x # xs) ys
      else set_difference lt xs ys)"

context strict_total_order begin

lemma set_os_insert: "set (os_insert lt x ys) = insert x (set ys)"
proof (induction ys)
  case (Cons y ys)
  then show ?case using total [of x y] by auto
qed simp

lemma sorted_os_insert: "sorted_wrt lt ys \<Longrightarrow> sorted_wrt lt (os_insert lt x ys)"
proof (induction ys)
  case (Cons y ys)
  then show ?case using trans [of x y] by (auto simp: set_os_insert)
qed simp

lemma fold_os_insert:
  "set (fold (os_insert lt) xs ys) = set xs \<union> set ys \<and>
     (sorted_wrt lt ys \<longrightarrow> sorted_wrt lt (fold (os_insert lt) xs ys))"
  by (induction xs arbitrary: ys) (auto simp: set_os_insert sorted_os_insert)

lemma sorted_os_erase: "sorted_wrt lt ys \<Longrightarrow> sorted_wrt lt (fst (os_erase lt x ys))"
  by (simp add: os_erase_def sorted_wrt_filter)

lemma set_difference_filter:
  "sorted_wrt lt xs \<Longrightarrow> sorted_wrt lt ys \<Longrightarrow> set_difference lt xs ys = filter (\<lambda>x. x \<notin> set ys) xs"
proof (induction "length xs + length ys" arbitrary: xs ys rule: less_induct)
  case less
  show ?case
  proof (cases xs)
    case xs: (Cons x xs')
    show ?thesis
    proof (cases ys)
      case ys: (Cons y ys')
      have IH: "set_difference lt xs' ys = filter (\<lambda>x. x \<notin> set ys) xs'"
        "set_difference lt xs ys' = filter (\<lambda>x. x \<notin> set ys') xs"
        "set_difference lt xs' ys' = filter (\<lambda>x. x \<notin> set ys') xs'"
        by (rule less.hyps; use less.prems in \<open>simp add: xs ys\<close>)+
      consider "lt x y" | "lt y x" "\<not> lt x y" | "x = y" using total by blast
      then show ?thesis
      proof cases
        case 1
        with less.prems(2) asym [of x y] have "x \<noteq> y" "x \<notin> set ys'" by (auto simp: ys)
        with 1 IH(1) show ?thesis by (simp add: xs ys)
      next
        case 2
        with less.prems(1) have "y \<notin> set xs" by (auto simp: xs)
        moreover from this have "filter (\<lambda>x. x \<notin> set ys) xs = filter (\<lambda>x. x \<notin> set ys') xs"
          by (intro filter_cong) (auto simp: ys)
        ultimately show ?thesis using 2 IH(2) by (simp add: xs ys)
      next
        case 3
        with less.prems(1) have "y \<notin> set xs'" by (auto simp: xs)
        then have "filter (\<lambda>x. x \<notin> set ys) xs' = filter (\<lambda>x. x \<notin> set ys') xs'"
          by (intro filter_cong) (auto simp: ys)
        with 3 IH(3) show ?thesis by (simp add: xs ys)
      qed
    qed (simp add: xs)
  qed simp
qed

lemma sorted_same_set:
  "sorted_wrt lt xs \<Longrightarrow> sorted_wrt lt ys \<Longrightarrow> set xs = set ys \<Longrightarrow> xs = ys"
proof (induction xs arbitrary: ys)
  case (Cons x xs)
  then obtain y zs where ys: "ys = y # zs" by (cases ys) auto
  have "x = y"
  proof (rule ccontr)
    assume "x \<noteq> y"
    with Cons.prems ys have "y \<in> set xs" "x \<in> set zs" by auto
    with Cons.prems ys have "lt x y" "lt y x" by auto
    with asym show False by blast
  qed
  moreover have "x \<notin> set xs" "y \<notin> set zs" using Cons.prems ys by auto
  then have "set xs = set zs" using Cons.prems(3) ys \<open>x = y\<close> by auto
  ultimately show ?case using Cons ys by simp
qed simp

end

section \<open>The watched directories\<close>

record kq_directory =
  kd_rank :: int
  kd_path :: string
  kd_files :: "string list"

definition visible_names :: "(nat \<times> string) list \<Rightarrow> string list" where
  "visible_names es = filter visible (map snd es)"

definition files_of :: "file_system \<Rightarrow> string \<Rightarrow> (nat \<times> string) list \<Rightarrow> string list" where
  "files_of fs path es =
     fold (os_insert less_wrapper) (filter (\<lambda>n. \<not> fs_is_directory fs (path @ n)) (visible_names es)) []"

text \<open>The loop over the stack of one directory of the search path.\<close>

partial_function (option) kq_walk ::
  "file_system \<Rightarrow> string \<Rightarrow> int \<Rightarrow> string list \<Rightarrow> kq_directory list \<Rightarrow>
     (fault + kq_directory list) option" where
  "kq_walk fs base i dirstack directories =
     (case dirstack of
        [] \<Rightarrow> Some (Inr directories)
      | path # dirstack' \<Rightarrow>
          (case fs_readdir fs path of
             None \<Rightarrow> Some (Inl (Exited EXIT_FAILURE))
           | Some es \<Rightarrow>
               kq_walk fs base i
                 (rev (map (\<lambda>n. path @ n @ ''/'')
                    (filter (\<lambda>n. fs_is_directory fs (path @ n)) (visible_names es))) @ dirstack')
                 (directories @
                   [\<lparr>kd_rank = i, kd_path = drop (length base) path, kd_files = files_of fs path es\<rparr>])))"

fun kq_watch_loop ::
  "file_system \<Rightarrow> int \<Rightarrow> string list \<Rightarrow> kq_directory list \<Rightarrow> (fault + kq_directory list) option" where
  "kq_watch_loop fs i [] directories = Some (Inr directories)"
| "kq_watch_loop fs i (base # search_path) directories =
     (case kq_walk fs base i [base] directories of
        None \<Rightarrow> None
      | Some (Inl e) \<Rightarrow> Some (Inl e)
      | Some (Inr directories') \<Rightarrow> kq_watch_loop fs (i + 1) search_path directories')"

definition NotifyKqueue_ctor :: "file_system \<Rightarrow> string list \<Rightarrow> (fault + kq_directory list) option" where
  "NotifyKqueue_ctor fs search_path = kq_watch_loop fs 0 search_path []"

section \<open>One directory with an event\<close>

definition process_directory ::
  "file_system \<Rightarrow> string list \<Rightarrow> kq_directory \<Rightarrow> fault + kq_directory \<times> FileChange list" where
  "process_directory fs search_path d =
     (let path = search_path ! nat (kd_rank d) @ kd_path d in
      case fs_readdir fs path of
        None \<Rightarrow> Inl (Exited EXIT_FAILURE)
      | Some es \<Rightarrow>
          (let files = files_of fs path es;
               missing = set_difference less_wrapper (kd_files d) files;
               remaining = fold (\<lambda>n s. fst (os_erase less_wrapper n s)) missing (kd_files d);
               added = set_difference less_wrapper files remaining;
               change = (\<lambda>status n. \<lparr>fc_rank = kd_rank d, fc_name = kd_path d @ n, fc_status = status\<rparr>)
           in Inr (d\<lparr>kd_files := fold (os_insert less_wrapper) added remaining\<rparr>,
                   map (change deleted) missing @ map (change modified) added)))"

lemma sorted_files_of: "sorted_wrt less_wrapper (files_of fs path es)"
  using less.fold_os_insert by (simp add: files_of_def)

lemma set_files_of:
  "set (files_of fs path es) = {n. visible n \<and> \<not> fs_is_directory fs (path @ n) \<and> n \<in> snd ` set es}"
  using less.fold_os_insert by (auto simp: files_of_def visible_names_def)

lemma fold_erase:
  "fold (\<lambda>n s. fst (os_erase less_wrapper n s)) ms xs = filter (\<lambda>x. x \<notin> set ms) xs"
  by (induction ms arbitrary: xs) (auto simp: os_erase_def intro: filter_cong)

lemma process_directory_spec:
  assumes "sorted_wrt less_wrapper (kd_files d)"
    and "fs_readdir fs (search_path ! nat (kd_rank d) @ kd_path d) = Some es"
  defines "files \<equiv> files_of fs (search_path ! nat (kd_rank d) @ kd_path d) es"
  shows "process_directory fs search_path d =
    Inr (d\<lparr>kd_files := files\<rparr>,
      map (\<lambda>n. \<lparr>fc_rank = kd_rank d, fc_name = kd_path d @ n, fc_status = deleted\<rparr>)
        (filter (\<lambda>n. n \<notin> set files) (kd_files d)) @
      map (\<lambda>n. \<lparr>fc_rank = kd_rank d, fc_name = kd_path d @ n, fc_status = modified\<rparr>)
        (filter (\<lambda>n. n \<notin> set (kd_files d)) files))"
proof -
  have s: "sorted_wrt less_wrapper files" by (simp add: files_def sorted_files_of)
  let ?missing = "filter (\<lambda>n. n \<notin> set files) (kd_files d)"
  let ?remaining = "filter (\<lambda>n. n \<in> set files) (kd_files d)"
  have missing: "set_difference less_wrapper (kd_files d) files = ?missing"
    using assms(1) s by (rule less.set_difference_filter)
  have remaining: "fold (\<lambda>n t. fst (os_erase less_wrapper n t)) ?missing (kd_files d) = ?remaining"
    unfolding fold_erase by (rule filter_cong) auto
  have sr: "sorted_wrt less_wrapper ?remaining" using assms(1) by (simp add: sorted_wrt_filter)
  have added: "set_difference less_wrapper files ?remaining = filter (\<lambda>n. n \<notin> set (kd_files d)) files"
    unfolding less.set_difference_filter [OF s sr] by (rule filter_cong) auto
  have "fold (os_insert less_wrapper) (filter (\<lambda>n. n \<notin> set (kd_files d)) files) ?remaining = files"
    using less.fold_os_insert [of "filter (\<lambda>n. n \<notin> set (kd_files d)) files" ?remaining] sr s
    by (intro less.sorted_same_set) auto
  then show ?thesis
    unfolding process_directory_def Let_def assms(2) option.case files_def [symmetric] missing remaining added
    by simp
qed

section \<open>What the constructor watches\<close>

text \<open>The entry of a directory, given with its slash, below a directory of the search path.\<close>

definition kq_entry :: "file_system \<Rightarrow> string \<Rightarrow> int \<Rightarrow> string \<Rightarrow> kq_directory" where
  "kq_entry fs base i path =
     \<lparr>kd_rank = i, kd_path = drop (length base) path,
      kd_files = files_of fs path (the (fs_readdir fs path))\<rparr>"

definition kq_dirs :: "file_system \<Rightarrow> string \<Rightarrow> string set" where
  "kq_dirs fs d = insert d {p @ ''/'' | p. below fs d p \<and> fs_is_directory fs p}"

lemma kq_dirs_step:
  assumes "fs_readdir fs d = Some es"
  shows "kq_dirs fs d = insert d (\<Union>x \<in> set (subdirs fs d (visible_names es)). kq_dirs fs x)"
  unfolding kq_dirs_def below_iff [OF assms] set_subdirs
  by (auto simp: visible_names_def) force+

lemma kq_dirs_prefix: "p \<in> kq_dirs fs d \<Longrightarrow> prefix d p"
  using below_prefix by (fastforce simp: kq_dirs_def intro: prefix_prefix)

lemma kq_walk_stack:
  assumes "\<And>x rest acc. x \<in> set stack \<Longrightarrow> kq_walk fs base i (x # rest) acc =
    kq_walk fs base i rest (acc @ map (kq_entry fs base i) (g x))"
  shows "kq_walk fs base i (stack @ rest) acc =
    kq_walk fs base i rest (acc @ map (kq_entry fs base i) (concat (map g stack)))"
  using assms by (induction stack arbitrary: acc) simp_all

lemma distinct_dirs:
  assumes "distinct ns" "\<forall>n \<in> set ns. CHR ''/'' \<notin> set n"
    and g: "\<And>x. x \<in> set (subdirs fs d ns) \<Longrightarrow> set (g x) = kq_dirs fs x \<and> distinct (g x)"
  shows "distinct (d # concat (map g (rev (subdirs fs d ns))))"
proof -
  have pre: "prefix x p" if "x \<in> set (subdirs fs d ns)" "p \<in> set (g x)" for x p
    using that g kq_dirs_prefix by blast
  have "distinct (subdirs fs d ns)"
    using assms(1) by (simp add: subdirs_def distinct_map inj_on_def)
  moreover have "x = y" if "x \<in> set (subdirs fs d ns)" "y \<in> set (subdirs fs d ns)"
      "p \<in> set (g x)" "p \<in> set (g y)" for x y p
    using pre [OF that(1,3)] pre [OF that(2,4)] that(1,2) assms(2) slash_split
    by (auto simp: set_subdirs)
  ultimately have "distinct (concat (map g (rev (subdirs fs d ns))))"
    using g by (intro distinct_concat_map) auto
  moreover have "d \<notin> set (g x)" if "x \<in> set (subdirs fs d ns)" for x
  proof
    assume "d \<in> set (g x)"
    from pre [OF that this] have "length x \<le> length d" by (rule prefix_length_le)
    with that show False by (auto simp: set_subdirs)
  qed
  ultimately show ?thesis by auto
qed

lemma kq_walk_tree:
  assumes "finite_tree fs d" "names_ok fs"
  shows "\<exists>ps. set ps = kq_dirs fs d \<and> distinct ps \<and> (\<forall>p \<in> set ps. fs_readdir fs p \<noteq> None) \<and>
    (\<forall>rest acc. kq_walk fs base i (d # rest) acc =
      kq_walk fs base i rest (acc @ map (kq_entry fs base i) ps))"
  using assms
proof (induction rule: finite_tree.induct)
  case (finite_tree d es)
  let ?sub = "subdirs fs d (visible_names es)"
  have names: "distinct (visible_names es)" "\<forall>n \<in> set (visible_names es). CHR ''/'' \<notin> set n"
    using finite_tree.prems finite_tree.hyps(1) by (fastforce simp: names_ok_def visible_names_def)+
  have "\<exists>ps. set ps = kq_dirs fs x \<and> distinct ps \<and> (\<forall>p \<in> set ps. fs_readdir fs p \<noteq> None) \<and>
      (\<forall>rest acc. kq_walk fs base i (x # rest) acc =
        kq_walk fs base i rest (acc @ map (kq_entry fs base i) ps))" if "x \<in> set ?sub" for x
    using that finite_tree.IH finite_tree.prems by (force simp: set_subdirs visible_names_def)
  then obtain g where g: "\<And>x. x \<in> set ?sub \<Longrightarrow> set (g x) = kq_dirs fs x \<and> distinct (g x) \<and>
      (\<forall>p \<in> set (g x). fs_readdir fs p \<noteq> None) \<and>
      (\<forall>rest acc. kq_walk fs base i (x # rest) acc =
        kq_walk fs base i rest (acc @ map (kq_entry fs base i) (g x)))"
    by metis
  let ?ps = "d # concat (map g (rev ?sub))"
  have stack: "kq_walk fs base i (rev ?sub @ rest) acc =
      kq_walk fs base i rest (acc @ map (kq_entry fs base i) (concat (map g (rev ?sub))))" for rest acc
    using g by (intro kq_walk_stack) auto
  have "kq_walk fs base i (d # rest) acc = kq_walk fs base i rest (acc @ map (kq_entry fs base i) ?ps)"
    for rest acc
    using stack [of rest "acc @ [kq_entry fs base i d]"]
    by (subst kq_walk.simps) (simp add: finite_tree.hyps(1) kq_entry_def subdirs_def)
  moreover have "set ?ps = kq_dirs fs d"
    using g kq_dirs_step [OF finite_tree.hyps(1)] by simp
  moreover have "distinct ?ps" using names g by (intro distinct_dirs) auto
  moreover have "\<forall>p \<in> set ?ps. fs_readdir fs p \<noteq> None" using g finite_tree.hyps(1) by auto
  ultimately show ?case by blast
qed

lemma kq_watch_loop_spec:
  assumes "names_ok fs"
  shows "\<forall>d \<in> set search_path. finite_tree fs d \<Longrightarrow>
     \<exists>ds. kq_watch_loop fs i search_path acc = Some (Inr (acc @ ds)) \<and>
       distinct (map (\<lambda>d. (kd_rank d, kd_path d)) ds) \<and>
       (\<forall>d \<in> set ds. \<exists>k p. k < length search_path \<and> p \<in> kq_dirs fs (search_path ! k) \<and>
          fs_readdir fs p \<noteq> None \<and> d = kq_entry fs (search_path ! k) (i + int k) p) \<and>
       set ds = (\<Union>k < length search_path.
         kq_entry fs (search_path ! k) (i + int k) ` kq_dirs fs (search_path ! k))"
proof (induction search_path arbitrary: i acc)
  case (Cons base rest)
  obtain ps where ps: "set ps = kq_dirs fs base" "distinct ps" "\<forall>p \<in> set ps. fs_readdir fs p \<noteq> None"
      "\<And>rest acc. kq_walk fs base i (base # rest) acc =
        kq_walk fs base i rest (acc @ map (kq_entry fs base i) ps)"
    using kq_walk_tree [of fs base base i] Cons.prems assms by (auto simp del: not_None_eq)
  have walk: "kq_walk fs base i [base] acc = Some (Inr (acc @ map (kq_entry fs base i) ps))"
    using ps(4) [of "[]" acc] by (simp add: kq_walk.simps [of fs base i "[]"])
  obtain ds where ds:
    "kq_watch_loop fs (i + 1) rest (acc @ map (kq_entry fs base i) ps) =
      Some (Inr ((acc @ map (kq_entry fs base i) ps) @ ds))"
    "distinct (map (\<lambda>d. (kd_rank d, kd_path d)) ds)"
    "\<And>d. d \<in> set ds \<Longrightarrow> \<exists>k p. k < length rest \<and> p \<in> kq_dirs fs (rest ! k) \<and>
        fs_readdir fs p \<noteq> None \<and> d = kq_entry fs (rest ! k) (i + 1 + int k) p"
    "set ds = (\<Union>k < length rest. kq_entry fs (rest ! k) (i + 1 + int k) ` kq_dirs fs (rest ! k))"
    using Cons.IH [of "i + 1" "acc @ map (kq_entry fs base i) ps"] Cons.prems by auto
  let ?ds = "map (kq_entry fs base i) ps @ ds"
  have "prefix base p" if "p \<in> set ps" for p using that ps(1) kq_dirs_prefix by blast
  then have "base @ drop (length base) p = p" if "p \<in> set ps" for p
    using that by (metis append_eq_conv_conj prefix_def)
  then have "inj_on (\<lambda>p. (i, drop (length base) p)) (set ps)"
    by (intro inj_onI) (metis prod.inject)
  with ps(2) have "distinct (map (\<lambda>d. (kd_rank d, kd_path d)) (map (kq_entry fs base i) ps))"
    by (simp add: distinct_map comp_def kq_entry_def)
  moreover have "kd_rank d > i" if "d \<in> set ds" for d using ds(3) [OF that] by (auto simp: kq_entry_def)
  ultimately have "distinct (map (\<lambda>d. (kd_rank d, kd_path d)) ?ds)"
    using ds(2) by (fastforce simp: kq_entry_def)
  moreover have "\<exists>k p. k < length (base # rest) \<and> p \<in> kq_dirs fs ((base # rest) ! k) \<and>
      fs_readdir fs p \<noteq> None \<and> d = kq_entry fs ((base # rest) ! k) (i + int k) p" if "d \<in> set ?ds" for d
  proof (cases "d \<in> set ds")
    case True
    with ds(3) obtain k p where "k < length rest" "p \<in> kq_dirs fs (rest ! k)"
        "fs_readdir fs p \<noteq> None" "d = kq_entry fs (rest ! k) (i + 1 + int k) p" by blast
    then show ?thesis by (intro exI [of _ "Suc k"] exI [of _ p]) (simp add: add.assoc)
  next
    case False
    with that ps(1,3) show ?thesis by (intro exI [of _ 0]) auto
  qed
  moreover have "kq_watch_loop fs i (base # rest) acc = Some (Inr (acc @ ?ds))"
    using walk ds(1) by simp
  moreover have "set ?ds = (\<Union>k < length (base # rest).
      kq_entry fs ((base # rest) ! k) (i + int k) ` kq_dirs fs ((base # rest) ! k))"
    by (simp add: ps(1) ds(4) lessThan_Suc_eq_insert_0 image_image add.assoc)
  ultimately show ?case by blast
qed simp

section \<open>What the changes amount to\<close>

text \<open>The files a list of directories knows of, as the rank and the name a change gives them.\<close>

definition kd_known :: "kq_directory \<Rightarrow> (int \<times> string) set" where
  "kd_known d = (\<lambda>n. (kd_rank d, kd_path d @ n)) ` set (kd_files d)"

definition known_files :: "kq_directory list \<Rightarrow> (int \<times> string) set" where
  "known_files ds = (\<Union>d \<in> set ds. kd_known d)"

definition apply_change :: "FileChange \<Rightarrow> (int \<times> string) set \<Rightarrow> (int \<times> string) set" where
  "apply_change c S =
     (case fc_status c of
        modified \<Rightarrow> insert (fc_rank c, fc_name c) S
      | deleted \<Rightarrow> S - {(fc_rank c, fc_name c)})"

lemma fold_apply_change:
  "fold apply_change (map (\<lambda>n. \<lparr>fc_rank = r, fc_name = f n, fc_status = deleted\<rparr>) ms) S =
     S - (\<lambda>n. (r, f n)) ` set ms"
  "fold apply_change (map (\<lambda>n. \<lparr>fc_rank = r, fc_name = f n, fc_status = modified\<rparr>) ms) S =
     S \<union> (\<lambda>n. (r, f n)) ` set ms"
  by (induction ms arbitrary: S) (auto simp: apply_change_def)

text \<open>No two directories are the same, a path ends with its slash and a name has none.\<close>

definition kd_ok :: "kq_directory \<Rightarrow> bool" where
  "kd_ok d \<longleftrightarrow> (kd_path d = [] \<or> last (kd_path d) = CHR ''/'') \<and> sorted_wrt less_wrapper (kd_files d) \<and>
     (\<forall>n \<in> set (kd_files d). CHR ''/'' \<notin> set n)"

definition kq_dirs_ok :: "kq_directory list \<Rightarrow> bool" where
  "kq_dirs_ok ds \<longleftrightarrow> distinct (map (\<lambda>d. (kd_rank d, kd_path d)) ds) \<and> (\<forall>d \<in> set ds. kd_ok d)"

lemma path_name_unique:
  assumes "p = [] \<or> last p = CHR ''/''" "q = [] \<or> last q = CHR ''/''"
    and "CHR ''/'' \<notin> set n" "CHR ''/'' \<notin> set m" "p @ n = q @ m"
  shows "p = q \<and> n = m"
proof -
  have "takeWhile (\<lambda>c. c \<noteq> CHR ''/'') (rev (p @ n)) = rev n"
    if "p = [] \<or> last p = CHR ''/''" "CHR ''/'' \<notin> set n" for p n :: string
    using that by (cases p rule: rev_cases) (auto simp: takeWhile_append)
  with assms have "rev n = rev m" by metis
  with assms(5) show ?thesis by simp
qed

lemma known_files_Cons: "known_files (d # ds) = kd_known d \<union> known_files ds"
  by (simp add: known_files_def)

lemma known_apart:
  assumes "kq_dirs_ok (xs @ d # ys)" "CHR ''/'' \<notin> set n"
  shows "(kd_rank d, kd_path d @ n) \<notin> known_files (xs @ ys)"
proof
  assume "(kd_rank d, kd_path d @ n) \<in> known_files (xs @ ys)"
  then have "\<exists>e \<in> set (xs @ ys). \<exists>m \<in> set (kd_files e).
      (kd_rank d, kd_path d @ n) = (kd_rank e, kd_path e @ m)"
    unfolding known_files_def kd_known_def by blast
  then obtain e m where e: "e \<in> set (xs @ ys)" "m \<in> set (kd_files e)"
      "kd_rank d = kd_rank e" "kd_path d @ n = kd_path e @ m"
    by blast
  have "kd_ok d" "kd_ok e" using assms(1) e(1) by (auto simp: kq_dirs_ok_def)
  with path_name_unique [OF _ _ assms(2) _ e(4)] e(2) have "kd_path e = kd_path d"
    by (simp add: kd_ok_def)
  moreover have "(kd_rank d, kd_path d) \<noteq> (kd_rank e, kd_path e)"
    using assms(1) e(1) by (force simp: kq_dirs_ok_def)
  ultimately show False using e(3) by simp
qed

lemma process_directory_known:
  assumes ok: "kq_dirs_ok (xs @ d # ys)"
    and p: "process_directory fs search_path d = Inr (d', cs)" and names: "names_ok fs"
  shows "kq_dirs_ok (xs @ d' # ys) \<and>
    known_files (xs @ d' # ys) = fold apply_change cs (known_files (xs @ d # ys))"
proof -
  obtain es where es: "fs_readdir fs (search_path ! nat (kd_rank d) @ kd_path d) = Some es"
    using p by (auto simp: process_directory_def Let_def split: option.splits)
  let ?files = "files_of fs (search_path ! nat (kd_rank d) @ kd_path d) es"
  have d: "kd_ok d" using ok by (simp add: kq_dirs_ok_def)
  then have "sorted_wrt less_wrapper (kd_files d)" by (simp add: kd_ok_def)
  from process_directory_spec [OF this es] p have d': "d' = d\<lparr>kd_files := ?files\<rparr>" and
    cs: "cs = map (\<lambda>n. \<lparr>fc_rank = kd_rank d, fc_name = kd_path d @ n, fc_status = deleted\<rparr>)
        (filter (\<lambda>n. n \<notin> set ?files) (kd_files d)) @
      map (\<lambda>n. \<lparr>fc_rank = kd_rank d, fc_name = kd_path d @ n, fc_status = modified\<rparr>)
        (filter (\<lambda>n. n \<notin> set (kd_files d)) ?files)"
    by simp_all
  have files: "\<forall>n \<in> set ?files. CHR ''/'' \<notin> set n"
    using names es by (fastforce simp: set_files_of names_ok_def)
  have "kd_ok d'" using d files sorted_files_of by (simp add: d' kd_ok_def)
  then have ok': "kq_dirs_ok (xs @ d' # ys)" using ok by (auto simp: kq_dirs_ok_def d')
  have apart: "(kd_rank d, kd_path d @ n) \<notin> known_files (xs @ ys)" if "n \<in> set (kd_files d)" for n
    using known_apart [OF ok, of n] d that by (simp add: kd_ok_def)
  have split: "known_files (xs @ e # ys) = known_files (xs @ ys) \<union> kd_known e" for e
    by (auto simp: known_files_def)
  have "known_files (xs @ d' # ys) = fold apply_change cs (known_files (xs @ d # ys))"
    unfolding split cs fold_append comp_def fold_apply_change
    using apart by (auto simp: kd_known_def d')
  with ok' show ?thesis by blast
qed

lemma kq_entry_ok:
  assumes "names_ok fs" "p \<in> kq_dirs fs base" "fs_readdir fs p \<noteq> None"
  shows "kd_ok (kq_entry fs base i p)"
proof -
  obtain es where es: "fs_readdir fs p = Some es" using assms(3) by auto
  have "drop (length base) p = [] \<or> last (drop (length base) p) = CHR ''/''"
    using assms(2) below_prefix by (force simp: kq_dirs_def prefix_def)
  moreover have "\<forall>n \<in> set (files_of fs p es). CHR ''/'' \<notin> set n"
    using assms(1) es by (fastforce simp: set_files_of names_ok_def)
  ultimately show ?thesis by (simp add: kd_ok_def kq_entry_def es sorted_files_of)
qed

lemma NotifyKqueue_ctor_spec:
  assumes "names_ok fs" "\<forall>d \<in> set search_path. finite_tree fs d"
  shows "\<exists>ds. NotifyKqueue_ctor fs search_path = Some (Inr ds) \<and> kq_dirs_ok ds \<and>
    set ds = (\<Union>k < length search_path. kq_entry fs (search_path ! k) (int k) ` kq_dirs fs (search_path ! k))"
proof -
  obtain ds where ds: "kq_watch_loop fs 0 search_path [] = Some (Inr ds)"
      "distinct (map (\<lambda>d. (kd_rank d, kd_path d)) ds)"
      "\<And>d. d \<in> set ds \<Longrightarrow> \<exists>k p. k < length search_path \<and> p \<in> kq_dirs fs (search_path ! k) \<and>
         fs_readdir fs p \<noteq> None \<and> d = kq_entry fs (search_path ! k) (int k) p"
      "set ds = (\<Union>k < length search_path. kq_entry fs (search_path ! k) (int k) ` kq_dirs fs (search_path ! k))"
    using kq_watch_loop_spec [OF assms, of 0 "[]"] by (auto simp del: not_None_eq)
  have "kd_ok d" if "d \<in> set ds" for d
    using ds(3) [OF that] kq_entry_ok [OF assms(1)] by blast
  with ds show ?thesis by (simp add: NotifyKqueue_ctor_def kq_dirs_ok_def)
qed

section \<open>The two threads\<close>

text \<open>
  The list of directories belongs to the watching thread. \<open>ks_delivered\<close> records what the main
  thread has got; \<open>ks_notifying\<close> and \<open>ks_draining\<close> say where the threads are: between the change
  of the vector and the write of the byte, and between the copy of the vector and the end of the
  loop that empties the pipe. The lock makes each access to the vector one step. The watching
  thread may turn to any directory next, and find any state of the file system there.
\<close>

record kq_system =
  ks_directories :: "kq_directory list"
  ks_changes :: "FileChange list"
  ks_pipe :: nat
  ks_notifying :: bool
  ks_draining :: bool
  ks_delivered :: "FileChange list"

definition kq_init :: "kq_directory list \<Rightarrow> kq_system" where
  "kq_init ds = \<lparr>ks_directories = ds, ks_changes = [], ks_pipe = 0, ks_notifying = False,
     ks_draining = False, ks_delivered = []\<rparr>"

definition kq_publish :: "kq_directory list \<Rightarrow> FileChange list \<Rightarrow> kq_system \<Rightarrow> kq_system" where
  "kq_publish ds cs s =
     s\<lparr>ks_directories := ds, ks_changes := ks_changes s @ cs, ks_notifying := True\<rparr>"

text \<open>The pipe does not block: a byte that has no room is dropped.\<close>

definition kq_notify :: "nat \<Rightarrow> kq_system \<Rightarrow> kq_system" where
  "kq_notify capacity s =
     s\<lparr>ks_pipe := (if ks_pipe s < capacity then ks_pipe s + 1 else ks_pipe s), ks_notifying := False\<rparr>"

definition kq_take :: "kq_system \<Rightarrow> kq_system" where
  "kq_take s = s\<lparr>ks_delivered := ks_delivered s @ ks_changes s, ks_changes := [], ks_draining := True\<rparr>"

definition kq_read :: "kq_system \<Rightarrow> kq_system" where
  "kq_read s = (if ks_pipe s > 0 then s\<lparr>ks_pipe := ks_pipe s - 1\<rparr> else s\<lparr>ks_draining := False\<rparr>)"

inductive kq_step :: "nat \<Rightarrow> string list \<Rightarrow> kq_system \<Rightarrow> kq_system \<Rightarrow> bool" for capacity search_path where
  watcher_publishes: "\<not> ks_notifying s \<Longrightarrow> ks_directories s = xs @ d # ys \<Longrightarrow> names_ok fs \<Longrightarrow>
    process_directory fs search_path d = Inr (d', cs) \<Longrightarrow>
    kq_step capacity search_path s (kq_publish (xs @ d' # ys) cs s)"
| watcher_notifies: "ks_notifying s \<Longrightarrow> kq_step capacity search_path s (kq_notify capacity s)"
| main_takes: "\<not> ks_draining s \<Longrightarrow> 0 < ks_pipe s \<Longrightarrow> kq_step capacity search_path s (kq_take s)"
| main_reads: "ks_draining s \<Longrightarrow> kq_step capacity search_path s (kq_read s)"

inductive_cases kq_stepE: "kq_step capacity search_path s t"

inductive kq_reachable :: "nat \<Rightarrow> string list \<Rightarrow> kq_directory list \<Rightarrow> kq_system \<Rightarrow> bool"
  for capacity search_path ds where
  kq_start: "kq_reachable capacity search_path ds (kq_init ds)"
| kq_next: "kq_reachable capacity search_path ds s \<Longrightarrow> kq_step capacity search_path s t \<Longrightarrow>
    kq_reachable capacity search_path ds t"

lemmas kq_defs = kq_publish_def kq_notify_def kq_take_def kq_read_def

text \<open>The invariant: the watching thread knows what the changes so far amount to.\<close>

definition kq_inv :: "(int \<times> string) set \<Rightarrow> kq_system \<Rightarrow> bool" where
  "kq_inv start s \<longleftrightarrow> kq_dirs_ok (ks_directories s) \<and>
     known_files (ks_directories s) = fold apply_change (ks_delivered s @ ks_changes s) start"

lemma kq_inv_step: "kq_step capacity search_path s t \<Longrightarrow> kq_inv start s \<Longrightarrow> kq_inv start t"
proof (induction rule: kq_step.induct)
  case (watcher_publishes s xs d ys fs d' cs)
  then show ?case
    using process_directory_known [of xs d ys fs search_path d' cs] by (simp add: kq_inv_def kq_publish_def)
qed (auto simp: kq_inv_def kq_defs)

lemma kq_inv_reachable:
  assumes "kq_reachable capacity search_path ds s" "kq_dirs_ok ds"
  shows "kq_inv (known_files ds) s"
  using assms
proof (induction rule: kq_reachable.induct)
  case kq_start
  then show ?case by (simp add: kq_inv_def kq_init_def)
qed (auto dest: kq_inv_step)

text \<open>C34: whatever the interleaving of the two threads, no change is lost, reported twice or out of
  order: applied in the order in which the main thread has got them and will get them, the changes
  lead from the files that were there at the start to the files the watching thread knows of.\<close>

theorem kqueue_no_change_lost:
  assumes "names_ok fs" "\<forall>d \<in> set search_path. finite_tree fs d"
  shows "\<exists>ds. NotifyKqueue_ctor fs search_path = Some (Inr ds) \<and>
    (\<forall>s. kq_reachable capacity search_path ds s \<longrightarrow>
       known_files (ks_directories s) =
         fold apply_change (ks_delivered s @ ks_changes s) (known_files ds))"
  using NotifyKqueue_ctor_spec [OF assms] kq_inv_reachable by (fastforce simp: kq_inv_def)

section \<open>A missed wakeup\<close>

text \<open>A directory with no desktop file yet, and the same directory later.\<close>

definition kq_sample_change :: FileChange where
  "kq_sample_change = \<lparr>fc_rank = 0, fc_name = ''y.desktop'', fc_status = modified\<rparr>"

definition kq_sample_dir :: "string list \<Rightarrow> kq_directory" where
  "kq_sample_dir files = \<lparr>kd_rank = 0, kd_path = [], kd_files = files\<rparr>"

definition kq_sample_fs :: "string list \<Rightarrow> file_system" where
  "kq_sample_fs names =
     \<lparr>fs_readdir = (\<lambda>d. if d = ''/a/'' then Some (map (\<lambda>n. (1, n)) names) else None),
      fs_is_directory = (\<lambda>p. False)\<rparr>"

lemma kq_sample_ctor:
  "NotifyKqueue_ctor (kq_sample_fs []) [''/a/''] = Some (Inr [kq_sample_dir []])"
proof -
  have "kq_walk (kq_sample_fs []) ''/a/'' 0 [''/a/''] [] = Some (Inr [kq_sample_dir []])"
    by (subst kq_walk.simps, subst kq_walk.simps)
      (simp add: kq_sample_fs_def kq_sample_dir_def visible_names_def files_of_def)
  then show ?thesis by (simp add: NotifyKqueue_ctor_def)
qed

lemma kq_sample_names: "set names \<subseteq> {''y.desktop'', ''.swp''} \<Longrightarrow> distinct names \<Longrightarrow> names_ok (kq_sample_fs names)"
  by (auto simp: names_ok_def kq_sample_fs_def comp_def split: if_splits)

lemma kq_sample_processed:
  "process_directory (kq_sample_fs [''.swp'']) [''/a/''] (kq_sample_dir []) = Inr (kq_sample_dir [], [])"
  "process_directory (kq_sample_fs [''.swp'', ''y.desktop'']) [''/a/''] (kq_sample_dir []) =
     Inr (kq_sample_dir [''y.desktop''], [kq_sample_change])"
  by code_simp+

definition kq_stalled :: kq_system where
  "kq_stalled = \<lparr>ks_directories = [kq_sample_dir [''y.desktop'']], ks_changes = [kq_sample_change],
     ks_pipe = 0, ks_notifying = False, ks_draining = False, ks_delivered = []\<rparr>"

text \<open>
  A hidden file appears in the directory: there is no change, but a byte is written. The desktop file
  appears when the main thread has copied the empty vector and not yet emptied the pipe.
\<close>

lemma kq_stalled_reachable:
  assumes "0 < capacity"
  shows "kq_reachable capacity [''/a/''] [kq_sample_dir []] kq_stalled"
proof -
  let ?r = "kq_reachable capacity [''/a/''] [kq_sample_dir []]"
  let ?s = "\<lambda>files changes. \<lparr>ks_directories = [kq_sample_dir files], ks_changes = changes,
    ks_pipe = 0, ks_notifying = False, ks_draining = False, ks_delivered = []\<rparr>"
  have "?r (?s [] [])" using kq_start [of capacity "[''/a/'']" "[kq_sample_dir []]"] by (simp add: kq_init_def)
  from kq_next [OF this watcher_publishes [OF _ _ _ kq_sample_processed(1), of _ "[]" "[]"]]
  have "?r ((?s [] [])\<lparr>ks_notifying := True\<rparr>)" by (simp add: kq_publish_def kq_sample_names)
  from kq_next [OF this watcher_notifies] assms have "?r ((?s [] [])\<lparr>ks_pipe := 1\<rparr>)"
    by (simp add: kq_notify_def)
  from kq_next [OF this main_takes] have "?r ((?s [] [])\<lparr>ks_pipe := 1, ks_draining := True\<rparr>)"
    by (simp add: kq_take_def)
  from kq_next [OF this watcher_publishes [OF _ _ _ kq_sample_processed(2), of _ "[]" "[]"]]
  have "?r ((?s [''y.desktop''] [kq_sample_change])\<lparr>ks_pipe := 1, ks_draining := True, ks_notifying := True\<rparr>)"
    by (simp add: kq_publish_def kq_sample_names)
  from kq_next [OF this watcher_notifies]
  have "?r ((?s [''y.desktop''] [kq_sample_change])
      \<lparr>ks_pipe := if 1 < capacity then 2 else 1, ks_draining := True\<rparr>)"
    by (cases "1 < capacity") (simp_all add: kq_notify_def numeral_2_eq_2)
  moreover have drain: "?r (x\<lparr>ks_pipe := Suc n, ks_draining := True\<rparr>) \<Longrightarrow> ?r (x\<lparr>ks_draining := True, ks_pipe := n\<rparr>)"
    for x n using kq_next [OF _ main_reads, of capacity "[''/a/'']" "[kq_sample_dir []]" "x\<lparr>ks_pipe := Suc n, ks_draining := True\<rparr>"]
    by (simp add: kq_read_def)
  ultimately have "?r ((?s [''y.desktop''] [kq_sample_change])\<lparr>ks_pipe := 0, ks_draining := True\<rparr>)"
    using drain [where x = "?s [''y.desktop''] [kq_sample_change]" and n = 1]
      drain [where x = "?s [''y.desktop''] [kq_sample_change]" and n = 0]
    by (cases "1 < capacity") (simp_all add: numeral_2_eq_2)
  from kq_next [OF this main_reads] show ?thesis by (simp add: kq_read_def kq_stalled_def)
qed

text \<open>A wakeup can be missed: there is a search path and a run after which a change waits in the
  vector, both threads are idle and the pipe is empty, so that nothing but a further event of a
  watched directory goes on. The main thread copies the vector before it empties the pipe, so it
  also swallows the byte of a change found in between.\<close>

theorem kqueue_missed_wakeup:
  assumes "0 < capacity"
  shows "\<exists>fs search_path ds s. NotifyKqueue_ctor fs search_path = Some (Inr ds) \<and>
    kq_reachable capacity search_path ds s \<and> ks_changes s \<noteq> [] \<and> ks_pipe s = 0 \<and>
    \<not> ks_notifying s \<and> \<not> ks_draining s \<and>
    (\<forall>t. kq_step capacity search_path s t \<longrightarrow> (\<exists>ds cs. t = kq_publish ds cs s))"
proof -
  have "\<exists>ds cs. t = kq_publish ds cs kq_stalled" if "kq_step capacity [''/a/''] kq_stalled t" for t
    using that by (elim kq_stepE) (auto simp: kq_stalled_def)
  then show ?thesis
    using kq_sample_ctor kq_stalled_reachable [OF assms]
    by (intro exI [of _ "kq_sample_fs []"] exI [of _ "[''/a/'']"] exI [of _ "[kq_sample_dir []]"]
        exI [of _ kq_stalled]) (auto simp: kq_stalled_def)
qed

theorem kqueue_no_change_lost_witness:
  "known_files (ks_directories kq_stalled) = {(0, ''y.desktop'')}"
proof -
  have "finite_tree (kq_sample_fs []) ''/a/''"
    by (rule finite_tree.intros [of _ _ "[]"]) (simp_all add: kq_sample_fs_def)
  then obtain ds where "NotifyKqueue_ctor (kq_sample_fs []) [''/a/''] = Some (Inr ds)"
      "\<forall>s. kq_reachable 1 [''/a/''] ds s \<longrightarrow> known_files (ks_directories s) =
         fold apply_change (ks_delivered s @ ks_changes s) (known_files ds)"
    using kqueue_no_change_lost [of "kq_sample_fs []" "[''/a/'']" 1] kq_sample_names [of "[]"] by auto
  moreover from this(1) have "ds = [kq_sample_dir []]" using kq_sample_ctor by simp
  ultimately have "known_files (ks_directories kq_stalled) =
      fold apply_change (ks_delivered kq_stalled @ ks_changes kq_stalled) (known_files [kq_sample_dir []])"
    using kq_stalled_reachable [of 1] by simp
  then show ?thesis
    by (simp add: kq_stalled_def kq_sample_change_def apply_change_def known_files_def kd_known_def kq_sample_dir_def)
qed

theorem kqueue_missed_wakeup_witness:
  "\<exists>search_path ds s. kq_reachable 65536 search_path ds s \<and> ks_changes s \<noteq> [] \<and> ks_pipe s = 0"
  using kqueue_missed_wakeup [of 65536] by auto

end
