(* ===== verification/Notify.thy ===== *)
theory Notify
  imports NotifyKqueue WaitOnFacts
begin

text \<open>
  The interface of the notifiers, \<open>NotifyBase\<close> in \<open>src/NotifyBase.hh\<close>, and what the wait-on loop
  needs of it: \<open>do_wait_on\<close> uses the rank of a change as an index into the search path without a
  check. Both notifiers of the program keep the promise.
\<close>

section \<open>The interface\<close>

locale notifier =
  fixes made :: "string list \<Rightarrow> 'n \<Rightarrow> bool"
    and getchanges :: "'n \<Rightarrow> 'e \<Rightarrow> fault + FileChange list"
  assumes rank_in_range: "made search_path n \<Longrightarrow> getchanges n events = Inr cs \<Longrightarrow> c \<in> set cs \<Longrightarrow>
    0 \<le> fc_rank c \<and> fc_rank c < int (length search_path)"

lemma get_desktop_id_below: "\<exists>ID. get_desktop_id_base (base @ name) base = Inr ID"
  by (simp add: get_desktop_id_base_def)

lemma change_manager_outcome:
  assumes "reachable appm" "int (length search_path) \<le> INT_MAX"
    and "0 \<le> fc_rank c" "fc_rank c < int (length search_path)"
  shows "change_manager env search_path c appm = Inl Aborted \<or>
    (\<exists>appm'. change_manager env search_path c appm = Inr appm' \<and> reachable appm')"
proof -
  let ?base = "search_path ! nat (fc_rank c)"
  obtain ID where ID: "get_desktop_id_base (?base @ fc_name c) ?base = Inr ID"
    using get_desktop_id_below by blast
  note con = reachable_consistent [OF assms(1)]
  have "change_manager env search_path c appm = Inl Aborted \<or>
      (\<exists>appm'. change_manager env search_path c appm = Inr appm')"
  proof (cases "fc_status c")
    case modified
    have "fc_rank c < INT_MAX" using assms(2,4) by simp
    from AppManager_add_spec [OF con ID assms(3) this, of env] modified assms(3,4) show ?thesis
      by (auto simp: change_manager_def Let_def split: if_splits)
  next
    case deleted
    with AppManager_remove_consistent [OF con ID] assms(3,4) show ?thesis
      by (auto simp: change_manager_def Let_def split: if_splits)
  qed
  with change_manager_reachable [OF assms(1) _ assms(2)] show ?thesis by blast
qed

context notifier begin

lemma changes_handled:
  assumes "made (wc_search_path cfg) n" "getchanges n events = Inr changes"
    and "int (length (wc_search_path cfg)) \<le> INT_MAX"
  shows "set cs \<subseteq> set changes \<Longrightarrow> reachable appm \<Longrightarrow> menu_current cl appm \<Longrightarrow>
    handle_changes cfg env cs (appm, cl) = Inl Aborted \<or>
    (\<exists>appm' cl'. handle_changes cfg env cs (appm, cl) = Inr (appm', cl') \<and>
       reachable appm' \<and> menu_current cl' appm')"
proof (induction cs arbitrary: appm cl)
  case (Cons c cs)
  have "0 \<le> fc_rank c" "fc_rank c < int (length (wc_search_path cfg))"
    using rank_in_range [OF assms(1,2)] Cons.prems(1) by auto
  from change_manager_outcome [OF Cons.prems(2) assms(3) this, of env]
  consider "change_manager env (wc_search_path cfg) c appm = Inl Aborted"
    | appm1 where "change_manager env (wc_search_path cfg) c appm = Inr appm1" "reachable appm1"
    by blast
  then show ?case
  proof cases
    case 1
    with Cons show ?thesis by simp
  next
    case 2
    have "exact_names cl" "history_tidy cl" using Cons.prems(3) by (simp_all add: menu_current_def)
    from update_mapping_current [OF 2(2) this] obtain cl1 where
      "update_mapping (wc_history_error cfg) True appm1 cl = Inr cl1" "menu_current cl1 appm1" by blast
    with 2 Cons show ?thesis by simp
  qed
qed simp

end

section \<open>Inotify\<close>

definition inotify_made :: "string list \<Rightarrow> NotifyInotify \<Rightarrow> bool" where
  "inotify_made search_path n \<longleftrightarrow>
     (\<exists>fs add_watch. names_ok fs \<and> (\<forall>d \<in> set search_path. finite_tree fs d) \<and>
        NotifyInotify_ctor fs add_watch search_path = Some (Inr n))"

lemma watch_loop_watched:
  "watch_loop fs add_watch i search_path m = Some (Inr m') \<Longrightarrow> \<forall>d \<in> set search_path. add_watch d \<noteq> -1"
  by (induction fs add_watch i search_path m rule: watch_loop.induct)
    (auto split: if_splits option.splits sum.splits)

lemma inotify_made_ranks:
  assumes "inotify_made search_path n" "um_find (ni_directories n) wd = Some e"
  shows "0 \<le> de_rank e \<and> de_rank e < int (length search_path)"
proof -
  obtain fs add_watch r where c: "names_ok fs" "\<forall>d \<in> set search_path. finite_tree fs d"
      "watch_loop fs add_watch 0 search_path [] = Some r"
      "map_sum id (\<lambda>directories. \<lparr>ni_directories = directories\<rparr>) r = Inr n"
    using assms(1) by (auto simp: inotify_made_def NotifyInotify_ctor_def)
  then have c: "names_ok fs" "\<forall>d \<in> set search_path. finite_tree fs d"
      "watch_loop fs add_watch 0 search_path [] = Some (Inr (ni_directories n))"
    by (cases r; auto)+
  from c(2) watch_loop_watched [OF c(3)]
  have "\<forall>d \<in> set search_path. finite_tree fs d \<and> add_watch d \<noteq> -1" by blast
  from watch_loop_spec [OF c(1) _ this, of search_path "[]" "[]"] c(3)
  have "entries_sound fs add_watch search_path (ni_directories n)"
    by (auto simp: entries_sound_def [of _ _ _ "[]"] um_find_def [of "[]"])
  with assms(2) show ?thesis by (fastforce simp: entries_sound_def watched_def)
qed

lemma getchanges_loop_ranks:
  "getchanges_loop n events result = Inr cs \<Longrightarrow> c \<in> set cs \<Longrightarrow>
     c \<in> set result \<or> (\<exists>wd e. um_find (ni_directories n) wd = Some e \<and> fc_rank c = de_rank e)"
  by (induction events arbitrary: result) (fastforce simp: change_of_def split: option.splits sum.splits)+

interpretation inotify: notifier inotify_made NotifyInotify_getchanges
proof
  fix search_path n events cs c
  assume "inotify_made search_path n" "NotifyInotify_getchanges n events = Inr cs" "c \<in> set cs"
  with getchanges_loop_ranks [of n events "[]" cs c] inotify_made_ranks
  show "0 \<le> fc_rank c \<and> fc_rank c < int (length search_path)"
    by (auto simp: NotifyInotify_getchanges_def)
qed

section \<open>Kqueue\<close>

text \<open>\<open>getchanges\<close> returns the vector; it can be called in any reachable state of the two threads.\<close>

definition kq_made :: "string list \<Rightarrow> kq_system \<Rightarrow> bool" where
  "kq_made search_path s \<longleftrightarrow>
     (\<exists>fs capacity ds. names_ok fs \<and> (\<forall>d \<in> set search_path. finite_tree fs d) \<and>
        NotifyKqueue_ctor fs search_path = Some (Inr ds) \<and> kq_reachable capacity search_path ds s)"

definition kq_getchanges :: "kq_system \<Rightarrow> unit \<Rightarrow> fault + FileChange list" where
  "kq_getchanges s u = Inr (ks_changes s)"

definition kq_ranks :: "nat \<Rightarrow> kq_system \<Rightarrow> bool" where
  "kq_ranks k s \<longleftrightarrow>
     (\<forall>d \<in> set (ks_directories s). 0 \<le> kd_rank d \<and> kd_rank d < int k) \<and>
     (\<forall>c \<in> set (ks_changes s). 0 \<le> fc_rank c \<and> fc_rank c < int k)"

lemma process_directory_rank:
  "process_directory fs search_path d = Inr (d', cs) \<Longrightarrow>
     kd_rank d' = kd_rank d \<and> (\<forall>c \<in> set cs. fc_rank c = kd_rank d)"
  by (auto simp: process_directory_def Let_def split: option.splits)

lemma kq_ranks_step: "kq_step capacity search_path s t \<Longrightarrow> kq_ranks k s \<Longrightarrow> kq_ranks k t"
  by (induction rule: kq_step.induct) (auto simp: kq_ranks_def kq_defs dest: process_directory_rank)

lemma kq_made_ranks:
  assumes "kq_made search_path s"
  shows "kq_ranks (length search_path) s"
proof -
  obtain fs capacity ds where c: "names_ok fs" "\<forall>d \<in> set search_path. finite_tree fs d"
      "NotifyKqueue_ctor fs search_path = Some (Inr ds)" "kq_reachable capacity search_path ds s"
    using assms by (auto simp: kq_made_def)
  from NotifyKqueue_ctor_spec [OF c(1,2)] c(3)
  have "\<forall>d \<in> set ds. 0 \<le> kd_rank d \<and> kd_rank d < int (length search_path)" by (auto simp: kq_entry_def)
  then have start: "kq_ranks (length search_path) (kq_init ds)" by (simp add: kq_ranks_def kq_init_def)
  from c(4) show ?thesis
    by (induction rule: kq_reachable.induct) (auto intro: start kq_ranks_step)
qed

interpretation kqueue: notifier kq_made kq_getchanges
proof
  fix search_path s and u :: unit and cs c
  assume "kq_made search_path s" "kq_getchanges s u = Inr cs" "c \<in> set cs"
  with kq_made_ranks show "0 \<le> fc_rank c \<and> fc_rank c < int (length search_path)"
    by (auto simp: kq_getchanges_def kq_ranks_def)
qed

section \<open>The loop\<close>


text \<open>The sample manager with both notifiers: an event of a subdirectory, and a change that waits.\<close>

lemma kq_stalled_made: "kq_made [''/a/''] kq_stalled"
proof -
  have "finite_tree (kq_sample_fs []) ''/a/''"
    by (rule finite_tree.intros [of _ _ "[]"]) (simp_all add: kq_sample_fs_def)
  with kq_sample_ctor kq_stalled_reachable [of 1] kq_sample_names [of "[]"] show ?thesis
    by (fastforce simp: kq_made_def)
qed


end
