(* ===== verification/InotifyBuffer.thy ===== *)
theory InotifyBuffer
  imports Notify I3ExecFacts
begin

text \<open>
  What \<open>NotifyInotify::getchanges\<close> (\<open>src/NotifyInotify.cc\<close>) does with the bytes that \<open>read\<close> puts into its
  buffer: the walk over the structures \<open>inotify_event\<close>, whose names are C strings. \<open>NotifyInotify\<close> has the
  same operation on events; here it is shown when the bytes give these events, and when not.
\<close>

unbundle bit_operations_syntax

section \<open>The walk over the buffer\<close>

text \<open>The header: descriptor, mask, cookie and length of the name, each of four bytes.\<close>

definition header_field :: "nat \<Rightarrow> string \<Rightarrow> 32 word" where
  "header_field i ptr = of_le32 (drop (4 * i) ptr)"

definition sizeof_inotify_event :: nat where
  "sizeof_inotify_event = 16"

definition IN_MODIFY :: "32 word" where
  "IN_MODIFY = 0x2"

definition IN_MOVED_TO :: "32 word" where
  "IN_MOVED_TO = 0x80"

text \<open>\<open>event->name\<close> goes up to the first NUL after the header, wherever that is.\<close>

definition event_at :: "string \<Rightarrow> inotify_event" where
  "event_at ptr =
     \<lparr>ev_wd = sint (header_field 0 ptr),
      ev_modify = (header_field 1 ptr AND IN_MODIFY \<noteq> 0),
      ev_moved_to = (header_field 1 ptr AND IN_MOVED_TO \<noteq> 0),
      ev_name = cstr (drop sizeof_inotify_event ptr)\<rparr>"

text \<open>
  One event. Behind the bytes that were read the buffer is not initialised: a header or a name that
  goes on there is undefined.
\<close>

definition change_at :: "NotifyInotify \<Rightarrow> string \<Rightarrow> fault + FileChange" where
  "change_at n ptr =
     (if length ptr < sizeof_inotify_event then Inl Undefined
      else
        bind_sum (change_of n (event_at ptr)) (\<lambda>change.
          if NUL \<in> set (drop sizeof_inotify_event ptr) then Inr change else Inl Undefined))"

function walk_buffer :: "NotifyInotify \<Rightarrow> string \<Rightarrow> FileChange list \<Rightarrow> fault + FileChange list" where
  "walk_buffer n ptr result =
     (if ptr = [] then Inr result
      else
        bind_sum (change_at n ptr) (\<lambda>change.
          walk_buffer n (drop (sizeof_inotify_event + unat (header_field 3 ptr)) ptr) (result @ [change])))"
  by pat_completeness auto
termination
  by (relation "measure (\<lambda>(n, ptr, result). length ptr)") (simp_all add: sizeof_inotify_event_def)

declare walk_buffer.simps [simp del]

text \<open>The list has what each \<open>read\<close> gave; it ends when a \<open>read\<close> gives nothing or fails (which is printed).\<close>

fun read_changes :: "NotifyInotify \<Rightarrow> string list \<Rightarrow> FileChange list \<Rightarrow> fault + FileChange list" where
  "read_changes n [] result = Inr result"
| "read_changes n (buffer # buffers) result =
     bind_sum (walk_buffer n buffer result) (\<lambda>result'. read_changes n buffers result')"

definition inotify_getchanges :: "NotifyInotify \<Rightarrow> string list \<Rightarrow> fault + FileChange list" where
  "inotify_getchanges n buffers = read_changes n buffers []"

section \<open>What the kernel writes\<close>

text \<open>\<open>inotify(7)\<close>: the name is followed by one NUL or more; without a name the length is zero.\<close>

record kernel_event =
  ke_wd :: "32 word"
  ke_mask :: "32 word"
  ke_cookie :: "32 word"
  ke_name :: string
  ke_padding :: nat

definition kernel_bytes :: "kernel_event \<Rightarrow> string" where
  "kernel_bytes e =
     le32 (ke_wd e) @ le32 (ke_mask e) @ le32 (ke_cookie e) @
     le32 (word_of_nat (length (ke_name e) + ke_padding e)) @ ke_name e @ replicate (ke_padding e) NUL"

definition named :: "kernel_event \<Rightarrow> bool" where
  "named e \<longleftrightarrow> NUL \<notin> set (ke_name e) \<and> 0 < ke_padding e \<and> length (ke_name e) + ke_padding e < 2 ^ 32"

definition decoded :: "kernel_event \<Rightarrow> inotify_event" where
  "decoded e =
     \<lparr>ev_wd = sint (ke_wd e), ev_modify = bit (ke_mask e) 1, ev_moved_to = bit (ke_mask e) 7,
      ev_name = ke_name e\<rparr>"

definition nameless :: "kernel_event \<Rightarrow> bool" where
  "nameless e \<longleftrightarrow> ke_name e = [] \<and> ke_padding e = 0"

lemma of_le32_le32_append [simp]: "of_le32 (le32 w @ s) = w"
  using of_le32_le32 [of w] by (simp add: of_le32_def)

lemma mask_bits:
  "(m AND IN_MODIFY \<noteq> 0) = bit m 1" "(m AND IN_MOVED_TO \<noteq> 0) = bit m 7"
proof -
  have "IN_MODIFY = push_bit 1 1" "IN_MOVED_TO = push_bit 7 1" by (simp_all add: IN_MODIFY_def IN_MOVED_TO_def)
  then show "(m AND IN_MODIFY \<noteq> 0) = bit m 1" "(m AND IN_MOVED_TO \<noteq> 0) = bit m 7"
    by (auto simp: bit_iff_and_push_bit_not_eq_0)
qed

lemma kernel_header:
  "header_field 0 (kernel_bytes e @ rest) = ke_wd e"
  "header_field 1 (kernel_bytes e @ rest) = ke_mask e"
  "header_field 3 (kernel_bytes e @ rest) = word_of_nat (length (ke_name e) + ke_padding e)"
  "drop sizeof_inotify_event (kernel_bytes e @ rest) = ke_name e @ replicate (ke_padding e) NUL @ rest"
  "length (kernel_bytes e) = sizeof_inotify_event + length (ke_name e) + ke_padding e"
  by (simp_all add: header_field_def kernel_bytes_def sizeof_inotify_event_def)

lemma bind_sum_Inr: "bind_sum m Inr = m"
  by (cases m) simp_all

lemma unat_word_of_nat_32: "k < 2 ^ 32 \<Longrightarrow> unat (word_of_nat k :: 32 word) = k"
  by (simp add: unat_of_nat)

lemma change_at_named:
  assumes "named e"
  shows "change_at n (kernel_bytes e @ rest) = change_of n (decoded e)"
proof -
  obtain k where k: "ke_padding e = Suc k" using assms by (cases "ke_padding e") (auto simp: named_def)
  have "takeWhile (\<lambda>c. c \<noteq> NUL) (ke_name e @ NUL # xs) = ke_name e" for xs
    using assms by (subst takeWhile_append2) (auto simp: named_def)
  then have "event_at (kernel_bytes e @ rest) = decoded e"
    unfolding event_at_def decoded_def kernel_header mask_bits cstr_def k by simp
  moreover have "\<not> length (kernel_bytes e @ rest) < sizeof_inotify_event"
    using kernel_header(5) [of e] by simp
  ultimately show ?thesis
    unfolding change_at_def kernel_header by (simp add: k bind_sum_Inr)
qed

lemma walk_kernel_event:
  assumes "length (ke_name e) + ke_padding e < 2 ^ 32"
  shows "walk_buffer n (kernel_bytes e @ rest) result =
    bind_sum (change_at n (kernel_bytes e @ rest)) (\<lambda>change. walk_buffer n rest (result @ [change]))"
proof -
  let ?ptr = "kernel_bytes e @ rest"
  have "unat (header_field 3 ?ptr) = length (ke_name e) + ke_padding e"
    unfolding kernel_header(3) using assms by (rule unat_word_of_nat_32)
  then have skip: "drop (sizeof_inotify_event + unat (header_field 3 ?ptr)) ?ptr = rest"
    by (simp add: kernel_header(5))
  have "?ptr \<noteq> []" using kernel_header(5) [of e] by (auto simp: sizeof_inotify_event_def)
  then show ?thesis by (subst walk_buffer.simps) (simp only: skip if_False)
qed

lemma walk_named:
  assumes "\<forall>e \<in> set es. named e"
  shows "walk_buffer n (concat (map kernel_bytes es) @ rest) result =
    bind_sum (getchanges_loop n (map decoded es) result) (walk_buffer n rest)"
  using assms
proof (induction es arbitrary: result)
  case (Cons e es)
  then have e: "named e" by simp
  have "walk_buffer n (concat (map kernel_bytes (e # es)) @ rest) result =
      bind_sum (change_of n (decoded e))
        (\<lambda>change. walk_buffer n (concat (map kernel_bytes es) @ rest) (result @ [change]))"
    using walk_kernel_event [of e n "concat (map kernel_bytes es) @ rest" result] e change_at_named [OF e]
    by (simp add: named_def)
  with Cons show ?case by (cases "change_of n (decoded e)") simp_all
qed simp

lemma walk_nothing: "walk_buffer n [] result = Inr result"
  by (simp add: walk_buffer.simps)

lemma getchanges_loop_append:
  "getchanges_loop n (es @ fs) result = bind_sum (getchanges_loop n es result) (getchanges_loop n fs)"
  by (induction es arbitrary: result) (auto split: sum.splits)

lemma walk_nothing_fun: "walk_buffer n [] = Inr"
  by (rule ext) (rule walk_nothing)

lemma read_changes_named:
  assumes "\<forall>es \<in> set reads. \<forall>e \<in> set es. named e"
  shows "read_changes n (map (\<lambda>es. concat (map kernel_bytes es)) reads) result =
    getchanges_loop n (map decoded (concat reads)) result"
  using assms
proof (induction reads arbitrary: result)
  case (Cons es reads)
  have "walk_buffer n (concat (map kernel_bytes es)) result = getchanges_loop n (map decoded es) result"
    using walk_named [of es n "[]" result] Cons.prems by (simp add: walk_nothing_fun bind_sum_Inr)
  with Cons show ?case
    by (cases "getchanges_loop n (map decoded es) result") (simp_all add: getchanges_loop_append)
qed simp

text \<open>C37: when all events the kernel writes have a name, \<open>getchanges\<close> on the bytes, however they are spread
  over the reads, gives what it gives on the events: the name ends at its padding, the bits of the
  mask tell a change from a deletion and the next event starts where the length says.\<close>

theorem inotify_bytes:
  assumes "\<forall>es \<in> set reads. \<forall>e \<in> set es. named e"
  shows "inotify_getchanges n (map (\<lambda>es. concat (map kernel_bytes es)) reads) =
    NotifyInotify_getchanges n (map decoded (concat reads))"
  using read_changes_named [OF assms] by (simp add: inotify_getchanges_def NotifyInotify_getchanges_def)

text \<open>A file is moved into the first directory, one is deleted below the second; two reads.\<close>

definition sample_notify :: NotifyInotify where
  "sample_notify =
     \<lparr>ni_directories = [(1, \<lparr>de_rank = 0, de_path = []\<rparr>), (2, \<lparr>de_rank = 1, de_path = ''kde/''\<rparr>)]\<rparr>"

definition moved_in :: kernel_event where
  "moved_in = \<lparr>ke_wd = 1, ke_mask = 0x80, ke_cookie = 77, ke_name = ''vi.desktop'', ke_padding = 6\<rparr>"

definition deleted_below :: kernel_event where
  "deleted_below = \<lparr>ke_wd = 2, ke_mask = 0x200, ke_cookie = 0, ke_name = ''ed.desktop'', ke_padding = 6\<rparr>"

theorem inotify_bytes_witness:
  "inotify_getchanges sample_notify [kernel_bytes moved_in, kernel_bytes deleted_below] =
     Inr [\<lparr>fc_rank = 0, fc_name = ''vi.desktop'', fc_status = modified\<rparr>,
          \<lparr>fc_rank = 1, fc_name = ''kde/ed.desktop'', fc_status = deleted\<rparr>]"
proof -
  have "named moved_in" "named deleted_below" by (simp_all add: named_def moved_in_def deleted_below_def)
  with inotify_bytes [of "[[moved_in], [deleted_below]]" sample_notify]
  have "inotify_getchanges sample_notify [kernel_bytes moved_in, kernel_bytes deleted_below] =
      NotifyInotify_getchanges sample_notify [decoded moved_in, decoded deleted_below]"
    by simp
  then show ?thesis
    by (simp add: NotifyInotify_getchanges_def change_of_def sample_notify_def um_find_def decoded_def
      moved_in_def deleted_below_def bit_numeral_simps)
qed

section \<open>Events without a name\<close>

text \<open>
  The kernel sends such an event when a watched directory itself goes away (\<open>IN_IGNORED\<close>); its
  descriptor is still in the table.
\<close>

lemma change_at_nameless:
  assumes "nameless e" "um_find (ni_directories n) (sint (ke_wd e)) = Some dir"
  shows "change_at n (kernel_bytes e @ rest) =
    (if NUL \<in> set rest
     then Inr \<lparr>fc_rank = de_rank dir, fc_name = de_path dir @ cstr rest,
                fc_status = (if bit (ke_mask e) 1 \<or> bit (ke_mask e) 7 then modified else deleted)\<rparr>
     else Inl Undefined)"
proof -
  have none: "ke_name e = []" "ke_padding e = 0" using assms(1) by (simp_all add: nameless_def)
  have len: "\<not> length (kernel_bytes e @ rest) < sizeof_inotify_event"
    using kernel_header(5) [of e] by simp
  have "change_of n (event_at (kernel_bytes e @ rest)) =
      Inr \<lparr>fc_rank = de_rank dir, fc_name = de_path dir @ cstr rest,
           fc_status = (if bit (ke_mask e) 1 \<or> bit (ke_mask e) 7 then modified else deleted)\<rparr>"
    unfolding event_at_def kernel_header mask_bits none change_of_def by (simp add: assms(2))
  with len show ?thesis unfolding change_at_def kernel_header none by simp
qed

text \<open>For an event without a name, after events that are known, \<open>getchanges\<close> takes the bytes behind the
  header for the name. When it is the last event of the buffer these were never written; otherwise
  the first bytes of the next event are reported as the name of a file.\<close>

theorem nameless_event:
  assumes "\<forall>e \<in> set es. named e" "NotifyInotify_getchanges n (map decoded es) = Inr cs"
    and "nameless e" "um_find (ni_directories n) (sint (ke_wd e)) = Some dir"
  shows "inotify_getchanges n [concat (map kernel_bytes es) @ kernel_bytes e] = Inl Undefined \<and>
    (named f \<and> inotify_getchanges n [concat (map kernel_bytes es) @ kernel_bytes e @ kernel_bytes f] = Inr ds \<longrightarrow>
       length ds = length cs + 2 \<and> fc_name (ds ! length cs) = de_path dir @ cstr (kernel_bytes f))"
proof (intro conjI impI)
  have walk: "walk_buffer n (concat (map kernel_bytes es) @ kernel_bytes e @ rest) [] =
      bind_sum (change_at n (kernel_bytes e @ rest)) (\<lambda>change. walk_buffer n rest (cs @ [change]))" for rest
  proof -
    have "length (ke_name e) + ke_padding e < 2 ^ 32" using assms(3) by (simp add: nameless_def)
    from walk_kernel_event [OF this] walk_named [OF assms(1), of n "kernel_bytes e @ rest" "[]"] assms(2)
    show ?thesis by (simp add: NotifyInotify_getchanges_def)
  qed
  show "inotify_getchanges n [concat (map kernel_bytes es) @ kernel_bytes e] = Inl Undefined"
    using walk [of "[]"] change_at_nameless [OF assms(3,4), of "[]"] by (simp add: inotify_getchanges_def)
  assume f: "named f \<and>
    inotify_getchanges n [concat (map kernel_bytes es) @ kernel_bytes e @ kernel_bytes f] = Inr ds"
  let ?named = "\<lparr>fc_rank = de_rank dir, fc_name = de_path dir @ cstr (kernel_bytes f),
    fc_status = (if bit (ke_mask e) 1 \<or> bit (ke_mask e) 7 then modified else deleted)\<rparr>"
  have "NUL \<in> set (kernel_bytes f)" using f by (auto simp: named_def kernel_bytes_def)
  with change_at_nameless [OF assms(3,4), of "kernel_bytes f"]
  have "change_at n (kernel_bytes e @ kernel_bytes f) = Inr ?named" by simp
  with f walk [of "kernel_bytes f"] walk_named [of "[f]" n "[]" "cs @ [?named]"]
  have "getchanges_loop n [decoded f] (cs @ [?named]) = Inr ds"
    by (simp add: inotify_getchanges_def walk_nothing_fun bind_sum_Inr)
  then obtain change where "ds = cs @ [?named, change]" by (auto split: sum.splits)
  then show "length ds = length cs + 2" "fc_name (ds ! length cs) = de_path dir @ cstr (kernel_bytes f)"
    by (simp_all add: nth_append)
qed

text \<open>The first directory is removed; only the event that says so is read, or one of the second after it.\<close>

definition watch_gone :: kernel_event where
  "watch_gone = \<lparr>ke_wd = 1, ke_mask = 0x8000, ke_cookie = 0, ke_name = [], ke_padding = 0\<rparr>"

theorem nameless_event_witness:
  "inotify_getchanges sample_notify [kernel_bytes watch_gone] = Inl Undefined"
proof -
  have "NotifyInotify_getchanges sample_notify (map decoded []) = Inr []" "nameless watch_gone"
    "um_find (ni_directories sample_notify) (sint (ke_wd watch_gone)) = Some \<lparr>de_rank = 0, de_path = []\<rparr>"
    by (simp_all add: NotifyInotify_getchanges_def nameless_def watch_gone_def sample_notify_def um_find_def)
  from nameless_event [OF _ this, of moved_in "[]"] show ?thesis by simp
qed

section \<open>The interface\<close>

text \<open>On bytes \<open>getchanges\<close> keeps the promise of \<open>NotifyBase\<close> as well, names or not.\<close>

lemma change_at_rank:
  "change_at n ptr = Inr c \<Longrightarrow> \<exists>wd e. um_find (ni_directories n) wd = Some e \<and> fc_rank c = de_rank e"
  unfolding change_at_def change_of_def by (fastforce split: if_splits option.splits)

lemma walk_buffer_ranks:
  "walk_buffer n ptr result = Inr cs \<Longrightarrow> c \<in> set cs \<Longrightarrow>
     c \<in> set result \<or> (\<exists>wd e. um_find (ni_directories n) wd = Some e \<and> fc_rank c = de_rank e)"
proof (induction n ptr result rule: walk_buffer.induct)
  case (1 n ptr result)
  show ?case
  proof (cases "ptr = []")
    case True
    with "1.prems" show ?thesis by (simp add: walk_nothing)
  next
    case False
    with "1.prems"(1) obtain change where c: "change_at n ptr = Inr change"
        "walk_buffer n (drop (sizeof_inotify_event + unat (header_field 3 ptr)) ptr) (result @ [change]) = Inr cs"
      by (subst (asm) walk_buffer.simps) auto
    from "1.IH" [OF False c(2) "1.prems"(2)] change_at_rank [OF c(1)] show ?thesis by auto
  qed
qed

lemma read_changes_ranks:
  "read_changes n buffers result = Inr cs \<Longrightarrow> c \<in> set cs \<Longrightarrow>
     c \<in> set result \<or> (\<exists>wd e. um_find (ni_directories n) wd = Some e \<and> fc_rank c = de_rank e)"
  by (induction buffers arbitrary: result) (auto dest: walk_buffer_ranks)

interpretation inotify_buffer: notifier inotify_made inotify_getchanges
proof
  fix search_path n buffers cs c
  assume "inotify_made search_path n" "inotify_getchanges n buffers = Inr cs" "c \<in> set cs"
  with read_changes_ranks [of n buffers "[]" cs c] inotify_made_ranks
  show "0 \<le> fc_rank c \<and> fc_rank c < int (length search_path)"
    by (auto simp: inotify_getchanges_def)
qed

end
