(* ===== verification/LineReader.thy ===== *)
theory LineReader
  imports J4Prelude
begin

text \<open>
  \<open>src/LineReader.cc\<close>: the class that owns the buffer of C's \<open>getline\<close>. The model is the heap of the
  buffers that are allocated and the objects that point into it. What \<open>getline\<close> reads is modelled
  where it is parsed (\<open>Application\<close>, \<open>HistoryManager\<close>); here it is only what it does to the buffer.
\<close>

section \<open>Objects and heap\<close>

text \<open>\<open>None\<close> is \<open>NULL\<close> in \<open>lineptr\<close>, and the uninitialised value in \<open>linesz\<close>.\<close>

record LineReader =
  lineptr :: "nat option"
  linesz :: "nat option"

type_synonym buffers = "nat \<rightharpoonup> nat"

definition LineReader_ctor :: LineReader where
  "LineReader_ctor = \<lparr>lineptr = None, linesz = None\<rparr>"

text \<open>The new object and what is left of the other one.\<close>

definition LineReader_move_ctor :: "LineReader \<Rightarrow> LineReader \<times> LineReader" where
  "LineReader_move_ctor other =
     (\<lparr>lineptr = lineptr other, linesz = linesz other\<rparr>, other\<lparr>lineptr := None\<rparr>)"

definition LineReader_assign ::
  "nat \<Rightarrow> nat \<Rightarrow> (nat \<rightharpoonup> LineReader) \<Rightarrow> LineReader \<Rightarrow> LineReader \<Rightarrow> (nat \<rightharpoonup> LineReader)" where
  "LineReader_assign this other readers r_this r_other =
     (if other = this then readers
      else readers(this \<mapsto> r_this\<lparr>lineptr := lineptr r_other, linesz := linesz r_other\<rparr>,
                   other \<mapsto> r_other\<lparr>lineptr := None\<rparr>))"

text \<open>\<open>free\<close> of a pointer that is not allocated is undefined.\<close>

definition free_buffer :: "nat option \<Rightarrow> buffers \<Rightarrow> fault + buffers" where
  "free_buffer p heap =
     (case p of
        None \<Rightarrow> Inr heap
      | Some q \<Rightarrow> if heap q = None then Inl Undefined else Inr (heap(q := None)))"

definition LineReader_dtor :: "LineReader \<Rightarrow> buffers \<Rightarrow> fault + buffers" where
  "LineReader_dtor r heap = free_buffer (lineptr r) heap"

text \<open>
  \<open>block\<close> is the buffer C's \<open>getline\<close> has to allocate or to enlarge, \<open>None\<close> when the line fits or the memory is
  exhausted. It looks at the size only when there is a buffer; a size that is not that of the
  buffer lets it write behind the end.
\<close>

definition LineReader_getline ::
  "(nat \<times> nat) option \<Rightarrow> LineReader \<Rightarrow> buffers \<Rightarrow> fault + LineReader \<times> buffers" where
  "LineReader_getline block r heap =
     (if lineptr r \<noteq> None \<and> (linesz r = None \<or> heap (the (lineptr r)) \<noteq> linesz r) then Inl Undefined
      else
        (case block of
           None \<Rightarrow> Inr (r, heap)
         | Some (p, n) \<Rightarrow>
             bind_sum (free_buffer (lineptr r) heap) (\<lambda>heap'.
               Inr (r\<lparr>lineptr := Some p, linesz := Some n\<rparr>, heap'(p \<mapsto> n)))))"

section \<open>Any use of the objects\<close>

record reader_memory =
  rm_heap :: buffers
  rm_readers :: "nat \<rightharpoonup> LineReader"

datatype reader_op =
    Construct nat
  | Move_construct nat nat
  | Move_assign nat nat
  | Destroy nat
  | Getline nat "(nat \<times> nat) option"

text \<open>An operation on an object that does not exist (or exists already) is none the language allows.\<close>

definition exec_op :: "reader_op \<Rightarrow> reader_memory \<Rightarrow> fault + reader_memory" where
  "exec_op op m =
     (case op of
        Construct x \<Rightarrow> Inr (m\<lparr>rm_readers := (rm_readers m)(x \<mapsto> LineReader_ctor)\<rparr>)
      | Move_construct x y \<Rightarrow>
          (case LineReader_move_ctor (the (rm_readers m y)) of (r, other) \<Rightarrow>
             Inr (m\<lparr>rm_readers := (rm_readers m)(x \<mapsto> r, y \<mapsto> other)\<rparr>))
      | Move_assign x y \<Rightarrow>
          Inr (m\<lparr>rm_readers :=
            LineReader_assign x y (rm_readers m) (the (rm_readers m x)) (the (rm_readers m y))\<rparr>)
      | Destroy x \<Rightarrow>
          bind_sum (LineReader_dtor (the (rm_readers m x)) (rm_heap m)) (\<lambda>heap.
            Inr \<lparr>rm_heap = heap, rm_readers = (rm_readers m)(x := None)\<rparr>)
      | Getline x block \<Rightarrow>
          bind_sum (LineReader_getline block (the (rm_readers m x)) (rm_heap m)) (\<lambda>(r, heap).
            Inr \<lparr>rm_heap = heap, rm_readers = (rm_readers m)(x \<mapsto> r)\<rparr>))"

text \<open>
  What the language and the allocator guarantee: operations are on objects that live, a block is
  new or the old one enlarged in its place. A \<open>careful\<close> program never assigns to an object that has
  a buffer.
\<close>

fun allowed :: "bool \<Rightarrow> reader_memory \<Rightarrow> reader_op \<Rightarrow> bool" where
  "allowed careful m (Construct x) = (x \<notin> dom (rm_readers m))"
| "allowed careful m (Move_construct x y) = (x \<notin> dom (rm_readers m) \<and> y \<in> dom (rm_readers m))"
| "allowed careful m (Move_assign x y) =
     (x \<in> dom (rm_readers m) \<and> y \<in> dom (rm_readers m) \<and>
      (careful \<longrightarrow> x = y \<or> lineptr (the (rm_readers m x)) = None))"
| "allowed careful m (Destroy x) = (x \<in> dom (rm_readers m))"
| "allowed careful m (Getline x block) =
     (x \<in> dom (rm_readers m) \<and>
      (\<forall>p n. block = Some (p, n) \<longrightarrow>
         p \<notin> dom (rm_heap m) \<or> lineptr (the (rm_readers m x)) = Some p))"

inductive reader_run :: "bool \<Rightarrow> reader_memory \<Rightarrow> bool" for careful where
  reader_start: "reader_run careful \<lparr>rm_heap = Map.empty, rm_readers = Map.empty\<rparr>"
| reader_next: "reader_run careful m \<Longrightarrow> allowed careful m op \<Longrightarrow> exec_op op m = Inr m' \<Longrightarrow>
    reader_run careful m'"

lemmas reader_defs = LineReader_ctor_def LineReader_move_ctor_def LineReader_assign_def
  LineReader_dtor_def LineReader_getline_def free_buffer_def exec_op_def

section \<open>Ownership\<close>

text \<open>
  Every buffer an object has is allocated and of the size it remembers, no two objects have the
  same, and for a careful program every allocated buffer belongs to an object.
\<close>

definition held :: "reader_memory \<Rightarrow> nat \<Rightarrow> nat option" where
  "held m x = Option.bind (rm_readers m x) lineptr"

definition sized :: "reader_memory \<Rightarrow> bool" where
  "sized m \<longleftrightarrow> (\<forall>x r p. rm_readers m x = Some r \<longrightarrow> lineptr r = Some p \<longrightarrow>
     linesz r \<noteq> None \<and> rm_heap m p = linesz r)"

definition unshared :: "(nat \<rightharpoonup> nat) \<Rightarrow> bool" where
  "unshared h \<longleftrightarrow> (\<forall>x y p. h x = Some p \<longrightarrow> h y = Some p \<longrightarrow> x = y)"

definition owned :: "bool \<Rightarrow> reader_memory \<Rightarrow> bool" where
  "owned careful m \<longleftrightarrow>
     sized m \<and> unshared (held m) \<and> (careful \<longrightarrow> dom (rm_heap m) \<subseteq> ran (held m))"

lemma unshared_move: "unshared h \<Longrightarrow> unshared (h(x := h y, y := None))"
  unfolding unshared_def by auto

lemma ran_move:
  assumes "h x = None"
  shows "ran (h(x := h y, y := None)) = ran h"
proof (intro subset_antisym subsetI)
  fix p assume "p \<in> ran h"
  then obtain z where "h z = Some p" by (auto simp: ran_def)
  with assms have "(h(x := h y, y := None)) (if z = y then x else z) = Some p" by auto
  then show "p \<in> ran (h(x := h y, y := None))" by (rule ranI)
qed (auto simp: ran_def split: if_splits)

lemma owned_move:
  assumes "owned careful m" "sized m'" "rm_heap m' = rm_heap m" "held m' = (held m)(x := held m y, y := None)"
    and "careful \<longrightarrow> held m x = None"
  shows "owned careful m'"
  using assms unshared_move [of "held m" x y] ran_move [of "held m" x y] by (simp add: owned_def)

lemma sized_held: "sized m \<Longrightarrow> held m x = Some p \<Longrightarrow> p \<in> dom (rm_heap m)"
  by (auto simp: sized_def held_def bind_eq_Some_conv)

lemma unshared_drop: "unshared h \<Longrightarrow> unshared (h(x := None))"
  by (simp add: unshared_def)

lemma ran_drop: "unshared h \<Longrightarrow> h x = Some p \<Longrightarrow> ran (h(x := None)) = ran h - {p}"
  by (force simp: ran_def unshared_def split: if_splits)

text \<open>An object gets a new buffer, which may be the old one enlarged; the old one is freed.\<close>

lemma owned_new:
  assumes "owned careful m" "rm_heap m p = None \<or> held m x = Some p"
    and heap: "rm_heap m' = (case held m x of None \<Rightarrow> rm_heap m | Some q \<Rightarrow> (rm_heap m)(q := None))(p \<mapsto> n)"
    and readers: "rm_readers m' = (rm_readers m)(x \<mapsto> \<lparr>lineptr = Some p, linesz = Some n\<rparr>)"
  shows "owned careful m'"
proof -
  have held: "held m' = (held m)(x \<mapsto> p)" using readers by (auto simp: held_def fun_eq_iff)
  have s: "sized m" and u: "unshared (held m)" using assms(1) by (simp_all add: owned_def)
  have other: "q \<noteq> p \<and> held m x \<noteq> Some q" if "held m z = Some q" "z \<noteq> x" for z q
    using that assms(2) sized_held [OF s that(1)] u by (auto simp: unshared_def)
  have kept: "rm_heap m' q = rm_heap m q" if "q \<noteq> p" "held m x \<noteq> Some q" for q
    using that by (simp add: heap split: option.splits)
  have "sized m'"
    unfolding sized_def
  proof (intro allI impI)
    fix z r q assume z: "rm_readers m' z = Some r" "lineptr r = Some q"
    show "linesz r \<noteq> None \<and> rm_heap m' q = linesz r"
    proof (cases "z = x")
      case True
      with z show ?thesis by (auto simp: readers heap)
    next
      case False
      with z have r: "rm_readers m z = Some r" by (simp add: readers)
      with z(2) have "held m z = Some q" by (simp add: held_def)
      from other [OF this False] kept s r z(2) show ?thesis by (simp add: sized_def)
    qed
  qed
  moreover have "unshared (held m')"
    unfolding held using u unfolding unshared_def by (auto dest: other)
  moreover have "dom (rm_heap m') \<subseteq> ran (held m')" if careful
  proof
    fix q assume q: "q \<in> dom (rm_heap m')"
    show "q \<in> ran (held m')"
    proof (cases "q = p")
      case True
      then show ?thesis by (auto simp: held ran_def)
    next
      case False
      with q have "held m x \<noteq> Some q" by (auto simp: heap)
      with q False kept have "q \<in> dom (rm_heap m)" by auto
      with assms(1) that obtain z where "held m z = Some q" by (auto simp: owned_def ran_def)
      with \<open>held m x \<noteq> Some q\<close> have "held m' z = Some q" by (auto simp: held)
      then show ?thesis by (rule ranI)
    qed
  qed
  ultimately show ?thesis by (simp add: owned_def)
qed

lemma exec_op_safe:
  assumes "owned careful m" "allowed careful m op"
  shows "\<exists>m'. exec_op op m = Inr m'"
proof (cases op)
  case (Destroy x)
  with assms obtain r where r: "rm_readers m x = Some r" by auto
  with assms(1) have "lineptr r = Some p \<Longrightarrow> rm_heap m p \<noteq> None" for p by (auto simp: owned_def sized_def)
  with Destroy r show ?thesis by (auto simp: reader_defs split: option.splits)
next
  case (Getline x block)
  with assms obtain r where r: "rm_readers m x = Some r" by auto
  with assms(1) have "lineptr r = Some p \<Longrightarrow> linesz r \<noteq> None \<and> rm_heap m p = linesz r" for p
    by (auto simp: owned_def sized_def)
  with Getline r show ?thesis by (auto simp: reader_defs split: option.splits)
qed (auto simp: exec_op_def split: prod.splits)

lemma owned_Construct:
  assumes "owned careful m" "allowed careful m (Construct x)" "exec_op (Construct x) m = Inr m'"
  shows "owned careful m'"
proof -
  from assms have m': "m' = m\<lparr>rm_readers := (rm_readers m)(x \<mapsto> LineReader_ctor)\<rparr>" and x: "rm_readers m x = None"
    by (auto simp: exec_op_def)
  have "held m' = held m" by (rule ext) (simp add: m' x held_def LineReader_ctor_def)
  with assms(1) m' show ?thesis by (simp add: owned_def sized_def LineReader_ctor_def)
qed

lemma owned_Move_construct:
  assumes "owned careful m" "allowed careful m (Move_construct x y)" "exec_op (Move_construct x y) m = Inr m'"
  shows "owned careful m'"
proof -
  from assms obtain r where r: "rm_readers m x = None" "rm_readers m y = Some r"
      "m' = m\<lparr>rm_readers := (rm_readers m)(x \<mapsto> \<lparr>lineptr = lineptr r, linesz = linesz r\<rparr>, y \<mapsto> r\<lparr>lineptr := None\<rparr>)\<rparr>"
    by (auto simp: exec_op_def LineReader_move_ctor_def domIff)
  then have "held m' = (held m)(x := held m y, y := None)" "held m x = None" "x \<noteq> y"
    by (auto simp: held_def fun_eq_iff)
  moreover from assms(1) r have "sized m'" by (auto simp: owned_def sized_def)
  ultimately show ?thesis using owned_move [OF assms(1)] r(3) by simp
qed

lemma owned_Move_assign:
  assumes "owned careful m" "allowed careful m (Move_assign x y)" "exec_op (Move_assign x y) m = Inr m'"
  shows "owned careful m'"
proof -
  from assms obtain r s where r: "rm_readers m x = Some r" "rm_readers m y = Some s"
      "careful \<longrightarrow> x = y \<or> lineptr r = None"
    by (auto simp: domIff)
  show ?thesis
  proof (cases "x = y")
    case True
    with True assms show ?thesis by (simp add: exec_op_def LineReader_assign_def)
  next
    case False
    with r assms(3) have m': "m' = m\<lparr>rm_readers := (rm_readers m)
        (x \<mapsto> r\<lparr>lineptr := lineptr s, linesz := linesz s\<rparr>, y \<mapsto> s\<lparr>lineptr := None\<rparr>)\<rparr>"
      by (auto simp: exec_op_def LineReader_assign_def)
    with r False have "held m' = (held m)(x := held m y, y := None)" "careful \<longrightarrow> held m x = None"
      by (auto simp: held_def fun_eq_iff)
    moreover from assms(1) r m' have "sized m'" by (auto simp: owned_def sized_def)
    ultimately show ?thesis using owned_move [OF assms(1)] m' by simp
  qed
qed

lemma owned_Destroy:
  assumes "owned careful m" "allowed careful m (Destroy x)" "exec_op (Destroy x) m = Inr m'"
  shows "owned careful m'"
proof -
  from assms obtain r where r: "rm_readers m x = Some r" by (auto simp: domIff)
  with assms(3) have m': "m' = \<lparr>rm_heap = (case lineptr r of None \<Rightarrow> rm_heap m | Some p \<Rightarrow> (rm_heap m)(p := None)),
      rm_readers = (rm_readers m)(x := None)\<rparr>"
    by (auto simp: exec_op_def LineReader_dtor_def free_buffer_def split: option.splits if_splits)
  have h: "held m x = lineptr r" using r by (simp add: held_def)
  from m' have "held m' = (held m)(x := None)" by (auto simp: held_def fun_eq_iff)
  moreover have "sized m'"
    using assms(1) r m' h by (cases "lineptr r") (auto simp: owned_def sized_def held_def unshared_def)
  ultimately show ?thesis
    using assms(1) m' h unshared_drop ran_drop [of "held m" x]
    by (cases "lineptr r") (auto simp: owned_def fun_upd_idem)
qed

lemma owned_Getline:
  assumes "owned careful m" "allowed careful m (Getline x block)" "exec_op (Getline x block) m = Inr m'"
  shows "owned careful m'"
proof -
  from assms obtain r where r: "rm_readers m x = Some r" by (auto simp: domIff)
  have h: "held m x = lineptr r" using r by (simp add: held_def)
  show ?thesis
  proof (cases block)
    case None
    with r assms(3) have "m' = m"
      by (cases m) (auto simp: exec_op_def LineReader_getline_def map_upd_triv split: if_splits)
    with assms(1) show ?thesis by simp
  next
    case (Some b)
    then obtain p n where b: "block = Some (p, n)" by (cases b) auto
    with r assms(3) have m': "m' = \<lparr>rm_heap =
        (case lineptr r of None \<Rightarrow> rm_heap m | Some q \<Rightarrow> (rm_heap m)(q := None))(p \<mapsto> n),
        rm_readers = (rm_readers m)(x \<mapsto> r\<lparr>lineptr := Some p, linesz := Some n\<rparr>)\<rparr>"
      by (auto simp: exec_op_def LineReader_getline_def free_buffer_def split: option.splits if_splits)
    have p: "rm_heap m p = None \<or> held m x = Some p"
      using assms(2) b r h by (auto simp: domIff)
    show ?thesis
      by (rule owned_new [OF assms(1) p, of m' n]) (cases r; simp add: m' h)+
  qed
qed

lemmas owned_ops = owned_Construct owned_Move_construct owned_Move_assign owned_Destroy owned_Getline

lemma owned_step: "owned careful m \<Longrightarrow> allowed careful m op \<Longrightarrow> exec_op op m = Inr m' \<Longrightarrow> owned careful m'"
  by (cases op) (auto intro: owned_ops simp del: allowed.simps)

lemma reader_run_owned: "reader_run careful m \<Longrightarrow> owned careful m"
proof (induction rule: reader_run.induct)
  case reader_start
  show ?case by (simp add: owned_def sized_def unshared_def held_def)
qed (rule owned_step)

text \<open>C38: however objects of the class are made, moved, assigned, read into and destroyed, no buffer is freed
  twice, used after it was freed or shared, and \<open>getline\<close> is always told the size of the buffer. When
  no assignment overwrites an object that has a buffer, all memory is freed once the objects are
  gone; an assignment to an object with a buffer leaves this buffer allocated for ever.\<close>

theorem line_reader_memory:
  assumes "reader_run careful m"
  shows "(allowed careful m op \<longrightarrow> (\<exists>m'. exec_op op m = Inr m')) \<and>
    (rm_readers m x = Some r \<and> rm_readers m y = Some s \<and> lineptr r = Some p \<and> lineptr s = Some p \<longrightarrow> x = y) \<and>
    (careful \<and> rm_readers m = Map.empty \<longrightarrow> rm_heap m = Map.empty) \<and>
    (rm_readers m x = Some r \<and> lineptr r = Some p \<and> rm_readers m y = Some s \<and> x \<noteq> y \<longrightarrow>
       (\<exists>m'. exec_op (Move_assign x y) m = Inr m' \<and> rm_heap m' p \<noteq> None \<and> (\<forall>z. held m' z \<noteq> Some p)))"
proof (intro conjI impI)
  have owned: "owned careful m" using reader_run_owned [OF assms] .
  show "\<exists>m'. exec_op op m = Inr m'" if "allowed careful m op"
    using exec_op_safe [OF owned that] .
  have held: "z = x" if "held m z = Some p" "rm_readers m x = Some r" "lineptr r = Some p" for x z r
    using owned that by (auto simp: owned_def unshared_def held_def)
  then show "x = y" if "rm_readers m x = Some r \<and> rm_readers m y = Some s \<and> lineptr r = Some p \<and> lineptr s = Some p"
    using that by (auto simp: held_def)
  show "rm_heap m = Map.empty" if "careful \<and> rm_readers m = Map.empty"
    using owned that by (auto simp: owned_def held_def ran_def)
  show "\<exists>m'. exec_op (Move_assign x y) m = Inr m' \<and> rm_heap m' p \<noteq> None \<and> (\<forall>z. held m' z \<noteq> Some p)"
    if a: "rm_readers m x = Some r \<and> lineptr r = Some p \<and> rm_readers m y = Some s \<and> x \<noteq> y"
  proof -
    have "held m x = Some p" using a by (simp add: held_def)
    moreover from this have "rm_heap m p \<noteq> None"
      using owned by (auto simp: owned_def dest: sized_held)
    moreover have "held m z = Some p \<Longrightarrow> z = x" for z using a held by blast
    moreover have "lineptr s \<noteq> Some p" using a held [of y x r] by (auto simp: held_def)
    ultimately show ?thesis
      using a by (auto simp: exec_op_def LineReader_assign_def held_def)
  qed
qed

text \<open>A reader that has read a line is moved into another one, which is assigned over in turn.\<close>

definition two_readers :: reader_memory where
  "two_readers =
     \<lparr>rm_heap = [500 \<mapsto> 120],
      rm_readers = [1 \<mapsto> \<lparr>lineptr = Some 500, linesz = Some 120\<rparr>, 2 \<mapsto> LineReader_ctor]\<rparr>"

lemma two_readers_run: "reader_run True two_readers"
proof -
  let ?m1 = "\<lparr>rm_heap = Map.empty, rm_readers = [1 \<mapsto> LineReader_ctor]\<rparr>"
  let ?m2 = "\<lparr>rm_heap = Map.empty, rm_readers = [1 \<mapsto> LineReader_ctor, 2 \<mapsto> LineReader_ctor]\<rparr>"
  have "reader_run True ?m1"
    by (rule reader_next [OF reader_start, of _ "Construct 1"]) (simp_all add: exec_op_def)
  then have "reader_run True ?m2"
    by (rule reader_next [of _ _ "Construct 2"]) (simp_all add: exec_op_def)
  then show ?thesis
    by (rule reader_next [of _ _ "Getline 1 (Some (500, 120))"])
      (simp_all add: two_readers_def reader_defs fun_upd_twist)
qed

theorem line_reader_memory_witness:
  "(\<exists>m'. exec_op (Destroy 1) two_readers = Inr m') \<and>
   (\<exists>m'. exec_op (Move_assign 1 2) two_readers = Inr m' \<and> rm_heap m' 500 \<noteq> None \<and>
      (\<forall>z. held m' z \<noteq> Some 500))"
  using line_reader_memory [OF two_readers_run, of "Destroy 1" 1 "\<lparr>lineptr = Some 500, linesz = Some 120\<rparr>" 2
    "LineReader_ctor" 500]
  by (simp add: two_readers_def)

end
