(* ===== verification/WellTyped.thy ===== *)
theory WellTyped
  imports AppManagerSteps
begin

text \<open>
  What kind of values the components hand on: the strings the parser (\<open>src/Application.cc\<close>) puts into
  an application are C strings, and the manager (\<open>src/AppManager.cc\<close>) holds nothing else, whatever it
  loads, replaces and removes. The code relies on it where it passes \<open>c_str()\<close> on.
\<close>

section \<open>The parser\<close>

text \<open>\<open>id\<close> is declared and compared, but never set.\<close>

definition app_type :: "Application \<Rightarrow> bool" where
  "app_type app \<longleftrightarrow> app_name app \<noteq> [] \<and> app_no_NUL app \<and> app_id app = []"

definition parse_type :: "string \<Rightarrow> parse_state \<Rightarrow> bool" where
  "parse_type fname st \<longleftrightarrow>
     app_no_NUL (ps_app st) \<and> app_id (ps_app st) = [] \<and> app_location (ps_app st) = fname"

lemma parse_localestring_no_NUL:
  "parse_localestring key n m val field ls = Inr (m', f) \<Longrightarrow> NUL \<notin> set field \<Longrightarrow> NUL \<notin> set f"
  by (auto simp: parse_localestring_def Let_def bind_sum_def dest: expand_no_NUL
      split: if_splits sum.splits)

lemma handle_key_type:
  assumes "handle_key ls envs key val st = Inr st'" "parse_type fname st"
  shows "parse_type fname st'"
proof -
  have name: ?thesis if "prefix ''Name'' key"
    using assms that by (auto simp: handle_key_def Let_def bind_sum_def parse_type_def app_no_NUL_def
        dest: parse_localestring_no_NUL split: sum.splits)
  have generic: ?thesis if "\<not> prefix ''Name'' key" "prefix ''GenericName'' key"
    using assms that by (auto simp: handle_key_def Let_def bind_sum_def parse_type_def app_no_NUL_def
        dest: parse_localestring_no_NUL split: sum.splits)
  have other: ?thesis if "\<not> prefix ''Name'' key" "\<not> prefix ''GenericName'' key"
    using assms that by (auto simp: handle_key_def Let_def bind_sum_def parse_type_def app_no_NUL_def
        dest: expand_no_NUL split: sum.splits if_splits)
  show ?thesis using name generic other by blast
qed

lemma parse_lines_type:
  "parse_lines ls envs raws n kv st = Inr (kv', st') \<Longrightarrow> parse_type fname st \<Longrightarrow> parse_type fname st'"
proof (induction ls envs raws n kv st rule: parse_lines.induct)
  case (2 ls envs raw raws n kv st)
  show ?case
  proof (cases "butlast raw = [] \<or> hd (butlast raw) = CHR ''#''")
    case True
    with 2 show ?thesis by (simp add: Let_def)
  next
    case plain: False
    show ?thesis
    proof (cases "kv \<and> hd (butlast raw) \<noteq> CHR ''[''")
      case True
      with "2.prems" plain obtain key val st1 where
        k: "split_key_value (butlast raw) = Some (key, val)"
          "with_line_number (Suc n) (handle_key ls envs key val st) = Inr st1"
          "parse_lines ls envs raws (Suc n) kv st1 = Inr (kv', st')"
        by (auto simp: Let_def bind_sum_def split: option.splits sum.splits)
      from k(2) have "handle_key ls envs key val st = Inr st1"
        by (auto simp: with_line_number_def split: sum.splits app_error.splits)
      from handle_key_type [OF this "2.prems"(2)] have t: "parse_type fname st1" .
      from True have "kv" "hd (butlast raw) \<noteq> CHR ''[''" by simp_all
      from "2.IH"(2) [OF refl refl plain this k(1) refl k(3) t] show ?thesis .
    next
      case False
      with 2 plain show ?thesis by (auto simp: Let_def split: if_splits)
    qed
  qed
qed simp

lemma Application_ctor_type:
  assumes "Application_ctor files fname ls envs = Inr app"
  shows "app_type app \<and> app_location app = fname"
proof -
  from Application_ctor_Inr [OF assms] obtain f st where
    "parse_lines ls envs (file_lines f) 0 False (init_parse fname) = Inr (True, st)"
    "app = ps_app st" "app_name app \<noteq> []" by blast
  moreover have "parse_type fname (init_parse fname)"
    by (simp add: parse_type_def init_parse_def empty_application_def app_no_NUL_def)
  ultimately show ?thesis
    using parse_lines_type by (fastforce simp: app_type_def parse_type_def)
qed

section \<open>The manager\<close>

text \<open>The location of an application is the file that gave it its desktop ID.\<close>

definition node_type :: "string \<Rightarrow> Managed_application \<Rightarrow> bool" where
  "node_type ID m \<longleftrightarrow>
     0 \<le> ma_rank m \<and> ma_rank m < INT_MAX \<and>
     (\<forall>app. ma_app m = Some app \<longrightarrow>
        app_type app \<and> (\<exists>base. get_desktop_id_base (app_location app) base = Inr ID))"

definition registry_type :: "registry \<Rightarrow> bool" where
  "registry_type A \<longleftrightarrow> (\<forall>ID m. A ID = Some m \<longrightarrow> node_type ID m)"

lemma registry_type_upd:
  "registry_type A \<Longrightarrow> (\<And>m. x = Some m \<Longrightarrow> node_type ID m) \<Longrightarrow> registry_type (A(ID := x))"
  by (simp add: registry_type_def)

lemma load_app_type:
  "load_app env f = Inr app \<Longrightarrow> get_desktop_id_base f base = Inr ID \<Longrightarrow>
     app_type app \<and> (\<exists>base. get_desktop_id_base (app_location app) base = Inr ID)"
  using Application_ctor_type unfolding load_app_def by blast

lemma outcome_type:
  assumes "outcome env f r = Some m" "0 \<le> r" "r < INT_MAX" "get_desktop_id_base f base = Inr ID"
  shows "node_type ID m"
  using assms load_app_type [OF _ assms(4)]
  by (cases env f r rule: outcome_cases) (auto simp: node_type_def)

lemma ctor_outcome_type:
  assumes "ctor_outcome env wine f r = Some m" "0 \<le> r" "r < INT_MAX" "get_desktop_id_base f base = Inr ID"
  shows "node_type ID m"
proof (cases "load_app env f")
  case (Inr app)
  with assms load_app_type [OF Inr assms(4)] show ?thesis
    by (auto simp: ctor_outcome_def node_type_def split: if_splits)
qed (use assms outcome_type in \<open>auto simp: ctor_outcome_def\<close>)

lemma provider_type:
  assumes "\<forall>(r, b, f) \<in> set es. 0 \<le> r \<and> r < INT_MAX"
  shows "registry_type (provider env wine es)"
proof -
  have "node_type ID m" if "provider env wine es ID = Some m" for ID m
    using assms that by (induction env wine es ID rule: provider.induct)
      (auto intro: ctor_outcome_type split: if_splits)
  then show ?thesis by (simp add: registry_type_def)
qed

lemma registry_add_type:
  assumes "registry_type A" "0 \<le> r" "r < INT_MAX" "get_desktop_id_base f base = Inr ID"
  shows "registry_type (registry_add env ID f r A)"
  using assms outcome_type by (auto simp: registry_add_def intro!: registry_type_upd split: option.split)

lemma manager_step_type:
  assumes "manager_step st st'" "consistent {} st" "registry_type (um_find (applications st))"
  shows "registry_type (um_find (applications st'))"
  using assms(1)
proof (cases rule: manager_step.cases)
  case (step_add env filename base rank)
  from get_desktop_id_base_Inr(2) [OF step_add(1)] obtain ID where ID: "get_desktop_id_base filename base = Inr ID" ..
  from AppManager_add_spec [OF assms(2) ID step_add(2,3), of env] step_add(1)
  have "um_find (applications st') = registry_add env ID filename rank (um_find (applications st))"
    by (auto split: if_splits)
  with registry_add_type [OF assms(3) step_add(2,3) ID] show ?thesis by simp
next
  case (step_remove filename base)
  from get_desktop_id_base_Inr(1) [OF step_remove] obtain ID where ID: "get_desktop_id_base filename base = Inr ID" ..
  from AppManager_remove_consistent [OF assms(2) ID] step_remove
  have "um_find (applications st') = (um_find (applications st))(ID := None)" by (auto split: if_splits)
  with assms(3) show ?thesis by (auto intro: registry_type_upd)
next
  case step_rehash
  then have "um_find (applications st') = um_find (applications st)"
    using assms(2) by (auto simp: rehashed_def consistent_def intro: reordered_find)
  with assms(3) show ?thesis by simp
qed

lemma reachable_type: "reachable st \<Longrightarrow> registry_type (um_find (applications st))"
proof (induction rule: reachable.induct)
  case (reachable_ctor files env wine st)
  have "\<forall>(r, b, f) \<in> set (flat_files 0 files). 0 \<le> r \<and> r < INT_MAX"
    using flat_files_valid [OF reachable_ctor(1)] ctor_length [OF reachable_ctor(2)] by fastforce
  with AppManager_ctor_spec [OF reachable_ctor(1) ctor_length [OF reachable_ctor(2)], of env wine] reachable_ctor(2)
  show ?case by (auto intro: provider_type)
next
  case (reachable_step st st')
  with manager_step_type reachable_consistent show ?case by blast
qed



end
