(* ===== verification/MenuAnswer.thy ===== *)
theory MenuAnswer
  imports MenuFacts
begin

text \<open>
  What becomes of any answer of the menu program: the dialogue, the lookup and the history
  (\<open>prompt_user_for_choice\<close> of \<open>src/main.cc\<close>) together.
\<close>

section \<open>The lookup in a menu\<close>

text \<open>What the result of the prompt says of the query.\<close>

definition names_choice ::
  "CommandRetrievalLoop \<Rightarrow> AppManager \<Rightarrow> string \<Rightarrow> command_info \<Rightarrow> bool" where
  "names_choice cl appm query info \<longleftrightarrow>
     (case info of
        CustomCommandInfo c \<Rightarrow> c = query \<and> (\<forall>l \<in> shown_lines cl appm. \<not> prefix l query)
      | DesktopCommandInfo ptr args \<Rightarrow>
          (\<exists>n app g. deref appm ptr = Some app \<and> (n, Some app, g) \<in> set (view_name_app_mapping appm) \<and>
             \<not> (nm_exclude_generic (cl_mapping cl) \<and> g) \<and> query = nm_format (cl_mapping cl) n app @ args \<and>
             (args \<noteq> [] \<longrightarrow> query \<notin> shown_lines cl appm \<and>
                (\<forall>l \<in> shown_lines cl appm. prefix l query \<longrightarrow> length (nm_format (cl_mapping cl) n app) \<le> length l))))"

lemma lookup_names_choice:
  assumes c: "consistent {} appm" and s: "less.sorted_keys m" and m: "set m = entries cl appm"
  shows "case lookup_name less_wrapper query m of
      CommandLookup command \<Rightarrow> names_choice cl appm query (CustomCommandInfo command)
    | ApplicationLookup ptr g args \<Rightarrow>
        names_choice cl appm query (DesktopCommandInfo ptr args) \<and> deref appm ptr \<noteq> None"
proof -
  have lines: "fst ` set m = shown_lines cl appm" using entries_lines [OF c, of cl] m by simp
  have entry: "\<exists>n app g. (n, Some app, g) \<in> set (view_name_app_mapping appm) \<and>
      \<not> (nm_exclude_generic (cl_mapping cl) \<and> g) \<and> l = nm_format (cl_mapping cl) n app \<and>
      deref appm (ra_app res) = Some app" if "(l, res) \<in> set m" for l res
    using that entries_element [OF c, of l res cl] unfolding m by blast
  consider (exact) res where "(query, res) \<in> set m"
      "lookup_name less_wrapper query m = ApplicationLookup (ra_app res) (ra_is_generic res) []"
    | (args) l res rest where "query \<notin> shown_lines cl appm" "query = l @ rest" "shortest_entry m query l res"
      "lookup_name less_wrapper query m = ApplicationLookup (ra_app res) (ra_is_generic res) rest"
    | (custom) "\<forall>l \<in> shown_lines cl appm. \<not> prefix l query" "lookup_name less_wrapper query m = CommandLookup query"
    using lookup_meaning [OF s [unfolded less.sorted_keys_def], of query] unfolding lines
    by (metis (no_types, lifting))
  then show ?thesis
  proof cases
    case exact
    with entry [OF exact(1)] show ?thesis by (auto simp: names_choice_def)
  next
    case args
    then have "(l, res) \<in> set m" by (simp add: shortest_entry_def)
    from entry [OF this] obtain n app g where e: "(n, Some app, g) \<in> set (view_name_app_mapping appm)"
      "\<not> (nm_exclude_generic (cl_mapping cl) \<and> g)" "l = nm_format (cl_mapping cl) n app"
      "deref appm (ra_app res) = Some app" by blast
    moreover have "\<forall>l' \<in> shown_lines cl appm. prefix l' query \<longrightarrow> length l \<le> length l'"
      using args(3) lines by (simp add: shortest_entry_def)
    ultimately have "names_choice cl appm query (DesktopCommandInfo (ra_app res) rest)"
      using args(1,2) unfolding names_choice_def command_info.case by blast
    with args(4) e(4) show ?thesis by simp
  next
    case custom
    then show ?thesis by (simp add: names_choice_def)
  qed
qed

section \<open>The prompt\<close>

lemma prompt_answer:
  assumes c: "consistent {} appm" and e: "exact_names cl" "history_tidy cl"
    and m: "less.sorted_keys (nm_mapping (cl_mapping cl))" "set (nm_mapping (cl_mapping cl)) = entries cl appm"
    and h: "distinct (history_lines cl)" "set (history_lines cl) \<subseteq> fst ` entries cl appm"
    and program: "\<And>menu. program menu = (Wexited 0, answer)"
    and counts: "\<And>fh n. cl_hist cl = Some fh \<Longrightarrow> count_of n (hm_history (fh_hist fh)) < INT_MAX"
  shows "\<exists>info cl'. prompt_user_for_choice err True program appm cl = Inr (info, cl') \<and>
    (case info of None \<Rightarrow> chop_newline answer = []
     | Some i \<Rightarrow> chop_newline answer \<noteq> [] \<and> names_choice cl appm (chop_newline answer) i)"
proof -
  let ?m = "nm_mapping (cl_mapping cl)" and ?q = "chop_newline answer"
  have lt: "DynamicCompare (nm_case_insensitive (cl_mapping cl)) = less_wrapper"
    using e(1) by (simp add: exact_names_def DynamicCompare_def)
  have hl: "(case cl_hist cl of Some fh \<Rightarrow> fh_formatted fh | None \<Rightarrow> []) = history_lines cl"
    by (simp add: history_lines_def)
  have dm: "do_dmenu program less_wrapper ?m (history_lines cl) d = Inr (if ?q = [] then None else Some ?q)" for d
    using less.write_names_spec [OF m(1) h(1), of d] h(2) m(2)
    by (simp add: do_dmenu_def Dmenu_read_choice_def program)
  note p = prompt_user_for_choice_def [of err True program appm cl, unfolded Let_def lt hl dm bind_sum_simps]
  show ?thesis
  proof (cases "?q = []")
    case True
    then show ?thesis unfolding p by simp
  next
    case ne: False
    note lk = lookup_names_choice [OF c m, of ?q]
    show ?thesis
    proof (cases "lookup_name less_wrapper ?q ?m")
      case (CommandLookup command)
      with lk ne show ?thesis unfolding p by simp
    next
      case (ApplicationLookup ptr g args)
      with lk obtain app where app: "deref appm ptr = Some app"
        "names_choice cl appm ?q (DesktopCommandInfo ptr args)" by auto
      have "\<exists>fh'. FormattedHistoryManager_increment err True n fh = Inr fh'" if "cl_hist cl = Some fh" for fh n
        using formatted_increment_total [OF e(2) that counts [OF that]] .
      then show ?thesis
        unfolding p using ApplicationLookup app ne
        by (cases "cl_no_exec cl"; cases "cl_hist cl") (fastforce split: option.splits)+
    qed
  qed
qed

text \<open>C17: whatever the menu program answers, the prompt returns, and what it returns is told by the answer
  alone. Without text there is no choice. An application is one whose shown line the answer is, or
  begins with (then the shortest such line, the rest being the arguments); otherwise the answer is a
  command. In particular an application whose line has a line break, which a \<open>Name\<close> with the escape
  for a newline gives, never answers to one line picked from the menu: its first line is run as a
  command, or starts the application of a shorter name.\<close>

theorem answer_meaning:
  assumes "reachable appm" "exact_names cl" "history_tidy cl" "update_mapping err True appm cl = Inr cl'"
    and "\<And>menu. program menu = (Wexited 0, answer)"
    and "\<And>fh n. cl_hist cl' = Some fh \<Longrightarrow> count_of n (hm_history (fh_hist fh)) < INT_MAX"
  shows "\<exists>info cl''. prompt_user_for_choice err True program appm cl' = Inr (info, cl'') \<and>
    (case info of None \<Rightarrow> chop_newline answer = []
     | Some i \<Rightarrow> chop_newline answer \<noteq> [] \<and> names_choice cl' appm (chop_newline answer) i)"
proof -
  note c = reachable_consistent [OF assms(1)]
  obtain u: "exact_names cl'" "history_tidy cl'" "less.sorted_keys (nm_mapping (cl_mapping cl'))"
    "set (nm_mapping (cl_mapping cl')) = entries cl appm"
    "distinct (history_lines cl')" "set (history_lines cl') \<subseteq> fst ` entries cl appm"
    using update_mapping_spec [OF c assms(2,3), of err] assms(4) by auto
  have "entries cl' appm = entries cl appm"
    using update_mapping_settings [OF assms(4)] entries_cong [of cl' cl] by auto
  with prompt_answer [OF c u(1-3) _ u(5) _ assms(5,6)] u(4,6) show ?thesis by simp
qed

text \<open>An application called \<open>A\<close>, line break, \<open>B\<close>.\<close>

definition broken_manager :: AppManager where
  "broken_manager =
     \<lparr>applications =
        [(''x.desktop'', \<lparr>ma_app = Some (sample_app (''A'' @ NL # ''B'') [] ''x'' ''/a/x.desktop''), ma_rank = 0\<rparr>)],
      name_app_mapping = [(''A'' @ NL # ''B'', name_element_of ''x.desktop'' Name)]\<rparr>"

lemma broken_reachable: "reachable broken_manager"
proof (rule reachable_ctor)
  show "AppManager_ctor \<lparr>env_files = [''/a/x.desktop'' \<mapsto> ''[Desktop Entry]'' @ [NL] @ ''Name=A'' @ BACKSLASH # ''nB'' @
      [NL] @ ''Exec=x'' @ [NL]], env_suffixes = C_locale, env_desktops = []\<rparr> False
      [\<lparr>base_path = ''/a/'', rank_files = [''/a/x.desktop'']\<rparr>] = Inr broken_manager"
    by code_simp
qed simp

definition broken_loop :: CommandRetrievalLoop where
  "broken_loop = sample_loop\<lparr>cl_hist := None\<rparr>"

lemma broken_loop_updated:
  assumes "update_mapping err True broken_manager broken_loop = Inr cl'"
  shows "cl_hist cl' = None" "nm_format (cl_mapping cl') = appformatter_default"
  using assms update_mapping_settings [OF assms]
  by (auto simp: update_mapping_def broken_loop_def sample_loop_def NameToAppMapping_ctor_def
      bind_sum_def split: sum.splits)

text \<open>Its first line, picked from the menu, is run as a command.\<close>

theorem answer_meaning_witness:
  "\<exists>cl' cl''. update_mapping [] True broken_manager broken_loop = Inr cl' \<and>
     prompt_user_for_choice [] True (\<lambda>_. (Wexited 0, ''A'' @ [NL])) broken_manager cl' =
       Inr (Some (CustomCommandInfo ''A''), cl'')"
proof -
  have ok: "exact_names broken_loop" "history_tidy broken_loop"
    using sample_loop_ok by (simp_all add: broken_loop_def exact_names_def history_tidy_def)
  obtain cl' where u: "update_mapping [] True broken_manager broken_loop = Inr cl'"
    using update_mapping_spec [OF reachable_consistent [OF broken_reachable] ok] by blast
  note n = broken_loop_updated [OF u]
  from answer_meaning [OF broken_reachable ok u, of "\<lambda>_. (Wexited 0, ''A'' @ [NL])" "''A'' @ [NL]"] n(1)
  obtain info cl'' where p: "prompt_user_for_choice [] True (\<lambda>_. (Wexited 0, ''A'' @ [NL])) broken_manager cl' =
      Inr (Some info, cl'')" "names_choice cl' broken_manager ''A'' info"
    by (auto simp: chop_newline_def split: option.splits)
  from p(2) have "info = CustomCommandInfo ''A''"
    using n(2) by (auto simp: names_choice_def view_name_app_mapping_def broken_manager_def deref_def
        lookup_by_ID_def um_find_def appformatter_default_def split: command_info.splits)
  with p(1) u(1) show ?thesis by blast
qed

end
