(* ===== verification/I3Socket.thy ===== *)
theory I3Socket
  imports I3ExecFacts
begin

text \<open>
  \<open>exec\<close> of \<open>src/I3Exec.cc\<close> over the socket: \<open>writen\<close> and the four calls of \<open>readn\<close> with what each system
  call under them does. \<open>I3Exec\<close> has the same operation with the reply at once; here it is shown that
  the pieces in which the socket takes and gives the bytes make no difference.
\<close>

section \<open>The calls\<close>

text \<open>The schedules of the system calls, one for each call of \<open>writen\<close> and \<open>readn\<close>.\<close>

record socket_schedule =
  sk_write :: "wr_step list"
  sk_magic :: "rd_step list"
  sk_length :: "rd_step list"
  sk_type :: "rd_step list"
  sk_body :: "rd_step list"

text \<open>
  One \<open>readn\<close> of \<open>exec\<close>: an error ends the program; what is read and the rest of the stream. \<open>None\<close> is a
  call that does not return.
\<close>

definition read_part :: "string \<Rightarrow> rd_step list \<Rightarrow> nat \<Rightarrow> (fault + string \<times> string) option" where
  "read_part stream schedule n =
     (case readn stream schedule n of
        None \<Rightarrow> None
      | Some (r, got, rest, _) \<Rightarrow> Some (if r < 0 then Inl (Exited EXIT_FAILURE) else Inr (got, rest)))"

definition bind_part :: "(fault + 'a) option \<Rightarrow> ('a \<Rightarrow> (fault + 'b) option) \<Rightarrow> (fault + 'b) option" where
  "bind_part m f = (case m of None \<Rightarrow> None | Some (Inl e) \<Rightarrow> Some (Inl e) | Some (Inr x) \<Rightarrow> f x)"

lemma bind_part_simps [simp]:
  "bind_part None f = None" "bind_part (Some (Inl e)) f = Some (Inl e)" "bind_part (Some (Inr x)) f = f x"
  by (simp_all add: bind_part_def)

text \<open>The length must have been read in full; the response keeps zeros where nothing was read.\<close>

definition read_reply_io :: "socket_schedule \<Rightarrow> string \<Rightarrow> (fault + string) option" where
  "read_reply_io sk stream =
     bind_part (read_part stream (sk_magic sk) 6) (\<lambda>(_, s1).
       bind_part (read_part s1 (sk_length sk) 4) (\<lambda>(len, s2).
         bind_part (read_part s2 (sk_type sk) 4) (\<lambda>(_, s3).
           if length len < 4 then Some (Inl Undefined)
           else
             let message_length = unat (of_le32 len)
             in bind_part (read_part s3 (sk_body sk) message_length) (\<lambda>(body, _).
               Some (Inr (body @ replicate (message_length - length body) NUL))))))"

definition send_payload :: "socket_schedule \<Rightarrow> string \<Rightarrow> (fault + string) option" where
  "send_payload sk payload =
     (case writen [] (sk_write sk) payload of
        None \<Rightarrow> None
      | Some (r, sent, _) \<Rightarrow> Some (if r \<le> 0 then Inl (Exited EXIT_FAILURE) else Inr sent))"

definition I3_exec_io ::
  "(string \<Rightarrow> string) \<Rightarrow> bool \<Rightarrow> socket_schedule \<Rightarrow> string \<Rightarrow> string \<Rightarrow> i3_outcome option" where
  "I3_exec_io i3 connected sk command socket_path =
     (if length command > max_message_length then Some (Command_too_long, Inl (Exited EXIT_FAILURE))
      else if length socket_path \<ge> sun_path_size then
        Some (Socket_path_too_long, Inl (Exited EXIT_FAILURE))
      else if \<not> connected then Some (No_connection, Inl (Exited EXIT_FAILURE))
      else
        map_option (\<lambda>r. case r of Inl e \<Rightarrow> (No_report, Inl e) | Inr response \<Rightarrow> handle_reply response)
          (case i3_payload command of
             Inl e \<Rightarrow> Some (Inl e)
           | Inr payload \<Rightarrow> bind_part (send_payload sk payload) (\<lambda>sent. read_reply_io sk (i3 sent))))"

section \<open>Schedules without errors\<close>

text \<open>No system call fails, and there are enough of them that are not interrupted.\<close>

definition reads_well :: "rd_step list \<Rightarrow> nat \<Rightarrow> bool" where
  "reads_well rs n \<longleftrightarrow> Rd_error \<notin> set rs \<and> n \<le> length (filter (\<lambda>r. r \<noteq> Rd_eintr) rs)"

definition writes_well :: "wr_step list \<Rightarrow> nat \<Rightarrow> bool" where
  "writes_well ws n \<longleftrightarrow>
     Wr_error \<notin> set ws \<and> Wr_accept 0 \<notin> set ws \<and> n \<le> length (filter (\<lambda>w. w \<noteq> Wr_eintr) ws)"

definition socket_works :: "socket_schedule \<Rightarrow> nat \<Rightarrow> string \<Rightarrow> bool" where
  "socket_works sk n stream \<longleftrightarrow>
     writes_well (sk_write sk) n \<and> reads_well (sk_magic sk) 6 \<and> reads_well (sk_length sk) 4 \<and>
     reads_well (sk_type sk) 4 \<and> reads_well (sk_body sk) (unat (of_le32 (take 4 (drop 6 stream))))"

lemma read_part_well:
  "reads_well rs n \<Longrightarrow> read_part stream rs n = Some (Inr (take n stream, drop n stream))"
  using readn_complete [of rs n stream] by (auto simp: reads_well_def read_part_def)

lemma writen_loop_well:
  "writes_well ws (length rest) \<Longrightarrow>
     \<exists>ws'. writen_loop rest tot ws out = Some (int (tot + length rest), out @ rest, ws')"
proof (induction rest tot ws out rule: writen_loop.induct)
  case (1 rest tot out)
  then show ?case by (simp add: writes_well_def)
next
  case (2 rest tot w ws out)
  show ?case
  proof (cases "rest = []")
    case ne: False
    show ?thesis
    proof (cases w)
      case (Wr_accept m)
      let ?k = "min m (length rest)"
      have k: "?k \<noteq> 0" using "2.prems" ne Wr_accept by (auto simp: writes_well_def)
      have "writes_well ws (length (drop ?k rest))"
        using "2.prems" Wr_accept k by (auto simp: writes_well_def)
      from "2.IH"(1) [OF ne Wr_accept refl k this] k ne Wr_accept show ?thesis by (auto simp: Let_def)
    next
      case Wr_eintr
      with "2.prems" "2.IH"(2) ne show ?thesis by (simp add: writes_well_def)
    next
      case Wr_error
      with "2.prems" show ?thesis by (simp add: writes_well_def)
    qed
  qed simp
qed

lemma send_payload_well:
  assumes "writes_well (sk_write sk) (length payload)" "payload \<noteq> []"
  shows "send_payload sk payload = Some (Inr payload)"
  using writen_loop_well [OF assms(1), of 0 "[]"] assms(2) by (auto simp: send_payload_def writen_def)

lemma read_reply_io_well:
  assumes "socket_works sk n stream"
  shows "read_reply_io sk stream = Some (read_reply stream)"
proof -
  have "reads_well (sk_magic sk) 6" "reads_well (sk_length sk) 4" "reads_well (sk_type sk) 4"
    "reads_well (sk_body sk) (unat (of_le32 (take 4 (drop 6 stream))))"
    using assms by (simp_all add: socket_works_def)
  then show ?thesis
    by (simp add: read_reply_io_def read_reply_def read_part_well Let_def min_def)
qed

section \<open>Any schedule\<close>

text \<open>A call that does not fail has read all there is up to the number asked for, and sent everything.\<close>

lemma readn_loop_gets:
  "readn_loop n stream rs buf = Some (r, got, rest, rs') \<Longrightarrow> r \<ge> 0 \<Longrightarrow>
     got = buf @ take (n - length buf) stream \<and> rest = drop (n - length buf) stream"
proof (induction n stream rs buf rule: readn_loop.induct)
  case (2 n stream s rs buf)
  show ?case
  proof (cases "length buf < n")
    case lt: True
    show ?thesis
    proof (cases s)
      case (Rd_deliver m)
      define part where "part = take (min (Suc m) (n - length buf)) stream"
      have step: "readn_loop n stream (s # rs) buf =
          (if part = [] then Some (int (length buf), buf, stream, rs)
           else readn_loop n (drop (length part) stream) rs (buf @ part))"
        using lt by (simp only: Rd_deliver readn_loop.simps rd_step.case if_True Let_def part_def)
      show ?thesis
      proof (cases "part = []")
        case True
        then have "stream = []" using lt by (auto simp: part_def)
        with "2.prems" step True show ?thesis by simp
      next
        case False
        have split: "part @ take k (drop (length part) stream) = take (length part + k) stream" for k
          by (metis append_eq_conv_conj append_take_drop_id part_def take_add)
        have "length part + (n - (length buf + length part)) = n - length buf" using lt by (auto simp: part_def)
        have "readn_loop n (drop (length part) stream) rs (buf @ part) = Some (r, got, rest, rs')"
          using "2.prems"(1) False by (simp only: step if_False)
        from "2.IH"(1) [OF lt Rd_deliver part_def False this "2.prems"(2)]
          \<open>length part + (n - (length buf + length part)) = n - length buf\<close>
        show ?thesis by (simp add: split add.commute)
      qed
    next
      case Rd_eintr
      with "2.prems" lt "2.IH"(2) show ?thesis by simp
    next
      case Rd_error
      with "2.prems" lt show ?thesis by auto
    qed
  qed (use "2.prems" in auto)
qed (auto split: if_splits)

lemma read_part_cases:
  "read_part stream rs n \<in>
     {None, Some (Inl (Exited EXIT_FAILURE)), Some (Inr (take n stream, drop n stream))}"
  using readn_loop_gets [of n stream rs "[]"]
  by (auto simp: read_part_def readn_def split: option.splits)

lemma send_payload_cases:
  "send_payload sk payload \<in> {None, Some (Inl (Exited EXIT_FAILURE)), Some (Inr payload)}"
  using writen_all_or_error [of "[]" "sk_write sk" payload]
  by (auto simp: send_payload_def split: option.splits)

text \<open>Running a part that may fail: the outcome is that of the whole, if nothing else happens.\<close>

lemma bind_part_cases:
  assumes "m \<in> {None, Some (Inl e), Some (Inr x)}" "f x \<in> {None, Some (Inl e), v}"
  shows "bind_part m f \<in> {None, Some (Inl e), v}"
  using assms by auto

lemma read_reply_io_cases:
  "read_reply_io sk stream \<in> {None, Some (Inl (Exited EXIT_FAILURE)), Some (read_reply stream)}"
proof -
  let ?s = "drop 6 stream" and ?outcomes = "{None, Some (Inl (Exited EXIT_FAILURE)), Some (read_reply stream)}"
  let ?n = "unat (of_le32 (take 4 ?s))"
  define body_part where "body_part s3 = bind_part (read_part s3 (sk_body sk) ?n) (\<lambda>(body, _).
      Some (Inr (body @ replicate (?n - length body) NUL)))" for s3
  define type_part where "type_part s2 = bind_part (read_part s2 (sk_type sk) 4) (\<lambda>(_, s3).
      if length (take 4 ?s) < 4 then Some (Inl Undefined) else body_part s3)" for s2
  have body: "body_part (drop 8 ?s) \<in> ?outcomes" if "\<not> length ?s < 4"
    unfolding body_part_def
    by (rule bind_part_cases [OF read_part_cases]) (use that in \<open>simp add: read_reply_def Let_def\<close>)
  have type: "type_part (drop 4 ?s) \<in> ?outcomes"
    unfolding type_part_def
  proof (rule bind_part_cases [OF read_part_cases], unfold prod.case, cases "length ?s < 4")
    case True
    then show "(if length (take 4 ?s) < 4 then Some (Inl Undefined) else body_part (drop 4 (drop 4 ?s))) \<in> ?outcomes"
      by (simp add: read_reply_def Let_def)
  next
    case False
    then show "(if length (take 4 ?s) < 4 then Some (Inl Undefined) else body_part (drop 4 (drop 4 ?s))) \<in> ?outcomes"
      using body by (simp add: min_def)
  qed
  have len: "bind_part (read_part ?s (sk_length sk) 4) (\<lambda>(len, s2).
      bind_part (read_part s2 (sk_type sk) 4) (\<lambda>(_, s3).
        if length len < 4 then Some (Inl Undefined)
        else let message_length = unat (of_le32 len)
             in bind_part (read_part s3 (sk_body sk) message_length) (\<lambda>(body, _).
               Some (Inr (body @ replicate (message_length - length body) NUL))))) \<in> ?outcomes"
    by (rule bind_part_cases [OF read_part_cases])
      (use type in \<open>simp only: prod.case Let_def type_part_def body_part_def\<close>)
  show ?thesis
    unfolding read_reply_io_def
    by (rule bind_part_cases [OF read_part_cases]) (use len in \<open>simp only: prod.case\<close>)
qed

section \<open>Refinement\<close>

text \<open>C32: \<open>exec\<close> over the socket. However the socket divides what is written and read, with whatever
  interruptions and failures, \<open>exec\<close> has the outcome of the operation that gets the reply at once, or ends
  with a failure, or waits; and it has that outcome when the calls of the second schedule do not fail and
  suffice for the message and the reply.\<close>

theorem i3_socket_refines:
  assumes "socket_works good (length command + 19) (i3 (i3_message 0 (''exec '' @ command)))"
  shows "I3_exec_io i3 connected sk command socket_path \<in>
       {None, Some (No_report, Inl (Exited EXIT_FAILURE)), Some (I3_exec i3 connected command socket_path)} \<and>
     I3_exec_io i3 connected good command socket_path = Some (I3_exec i3 connected command socket_path)"
proof (cases "length command > max_message_length")
  case False
  define payload where "payload = i3_message 0 (''exec '' @ command)"
  have n: "length payload = length command + 19" by (simp add: payload_def i3_message_def)
  then have ne: "payload \<noteq> []" by auto
  have good: "writes_well (sk_write good) (length payload)" "socket_works good (length payload) (i3 payload)"
    using assms unfolding n by (simp_all add: socket_works_def payload_def)
  have p: "i3_payload command = (if length command + 19 < 2 ^ 32 then Inr payload else Inl Undefined)"
    using i3_payload_cases [of command] False unfolding payload_def by (simp only: not_less)
  have exec: "I3_exec_io i3 connected s command socket_path =
      (if length socket_path \<ge> sun_path_size then Some (Socket_path_too_long, Inl (Exited EXIT_FAILURE))
       else if \<not> connected then Some (No_connection, Inl (Exited EXIT_FAILURE))
       else map_option (\<lambda>r. case r of Inl e \<Rightarrow> (No_report, Inl e) | Inr response \<Rightarrow> handle_reply response)
         (if length command + 19 < 2 ^ 32 then
            bind_part (send_payload s payload) (\<lambda>sent. read_reply_io s (i3 sent))
          else Some (Inl Undefined)))" for s
    using False by (simp only: I3_exec_io_def p if_False split: if_split) simp
  have abstract: "I3_exec i3 connected command socket_path =
      (if length socket_path \<ge> sun_path_size then (Socket_path_too_long, Inl (Exited EXIT_FAILURE))
       else if \<not> connected then (No_connection, Inl (Exited EXIT_FAILURE))
       else (\<lambda>r. case r of Inl e \<Rightarrow> (No_report, Inl e) | Inr response \<Rightarrow> handle_reply response)
         (if length command + 19 < 2 ^ 32 then read_reply (i3 payload) else Inl Undefined))"
    using False by (simp only: I3_exec_def p if_False split: if_split) simp
  show ?thesis
    unfolding exec abstract
    using send_payload_cases [of sk payload] read_reply_io_cases [of sk "i3 payload"]
      send_payload_well [OF good(1) ne] read_reply_io_well [OF good(2)]
    by auto
qed (simp add: I3_exec_io_def I3_exec_def)

text \<open>The payload of six writes, the reply byte by byte, with interruptions.\<close>

theorem i3_socket_refines_witness:
  "I3_exec_io (\<lambda>_. i3_message 0 (print_json [Mark ''[{'', Str ''success'', Mark '':true}]'']))
     True \<lparr>sk_write = replicate 24 (Wr_accept 5) @ [Wr_eintr], sk_magic = Rd_eintr # replicate 6 (Rd_deliver 1),
       sk_length = replicate 4 (Rd_deliver 0), sk_type = replicate 4 (Rd_deliver 0),
       sk_body = replicate 20 (Rd_deliver 0)\<rparr> ''xterm'' ''/run/i3'' =
   Some (I3_exec (\<lambda>_. i3_message 0 (print_json [Mark ''[{'', Str ''success'', Mark '':true}]'']))
     True ''xterm'' ''/run/i3'')"
  by (rule i3_socket_refines [THEN conjunct2])
    (simp add: socket_works_def writes_well_def reads_well_def i3_message_def json_escape_char_def)

end
