(* ===== verification/Descriptors.thy ===== *)
theory Descriptors
  imports J4Prelude
begin

text \<open>
  The file descriptors of the program and of the processes it starts: the pipes of \<open>Dmenu\<close>
  (\<open>src/Dmenu.cc\<close>), of \<open>get_ipc_socket_path\<close> and the socket of \<open>exec\<close> (\<open>src/I3Exec.cc\<close>), and what the
  wait-on mode opens (\<open>src/main.cc\<close>). The kernel gives the lowest number that is free.
\<close>

section \<open>Tables\<close>

datatype open_file = Read_end nat | Write_end nat | File string

text \<open>What a number stands for, with the flag \<open>FD_CLOEXEC\<close>; \<open>None\<close> is a number that is free.\<close>

type_synonym fd_table = "(open_file \<times> bool) option list"

definition fd_at :: "fd_table \<Rightarrow> nat \<Rightarrow> (open_file \<times> bool) option" where
  "fd_at t fd = (if fd < length t then t ! fd else None)"

fun open_fd :: "open_file \<times> bool \<Rightarrow> fd_table \<Rightarrow> nat \<times> fd_table" where
  "open_fd e [] = (0, [Some e])"
| "open_fd e (None # t) = (0, Some e # t)"
| "open_fd e (Some d # t) = (case open_fd e t of (fd, t') \<Rightarrow> (Suc fd, Some d # t'))"

definition set_fd :: "nat \<Rightarrow> (open_file \<times> bool) option \<Rightarrow> fd_table \<Rightarrow> fd_table" where
  "set_fd fd e t =
     (if fd < length t then t[fd := e] else t @ replicate (fd - length t) None @ [e])"

definition close_fd :: "nat \<Rightarrow> fd_table \<Rightarrow> fd_table" where
  "close_fd fd t = set_fd fd None t"

text \<open>The copy is kept by \<open>exec\<close>; nothing happens when the old number is free or both are the same.\<close>

definition dup2_fd :: "nat \<Rightarrow> nat \<Rightarrow> fd_table \<Rightarrow> fd_table" where
  "dup2_fd old new t =
     (case fd_at t old of
        None \<Rightarrow> t
      | Some (f, cloexec) \<Rightarrow> if old = new then t else set_fd new (Some (f, False)) t)"

text \<open>\<open>pipe\<close>, with both ends given the flag (by \<open>fcntl\<close>) or not.\<close>

definition pipe_fds :: "bool \<Rightarrow> nat \<Rightarrow> fd_table \<Rightarrow> (nat \<times> nat) \<times> fd_table" where
  "pipe_fds cloexec i t =
     (case open_fd (Read_end i, cloexec) t of (r, t1) \<Rightarrow>
        case open_fd (Write_end i, cloexec) t1 of (w, t2) \<Rightarrow> ((r, w), t2))"

definition exec_fds :: "fd_table \<Rightarrow> fd_table" where
  "exec_fds t = map (\<lambda>e. case e of Some (f, True) \<Rightarrow> None | _ \<Rightarrow> e) t"

named_theorems fd_simps \<open>what a number stands for after an operation\<close>

lemma fd_at_set [fd_simps]: "fd_at (set_fd fd e t) k = (if k = fd then e else fd_at t k)"
  by (auto simp: fd_at_def set_fd_def nth_append nth_Cons' not_less)

lemma fd_at_close [fd_simps]: "fd_at (close_fd fd t) k = (if k = fd then None else fd_at t k)"
  by (simp add: close_fd_def fd_at_set)

lemma fd_at_exec [fd_simps]:
  "fd_at (exec_fds t) k = (case fd_at t k of Some (f, True) \<Rightarrow> None | e \<Rightarrow> e)"
  by (auto simp: fd_at_def exec_fds_def split: option.splits bool.splits)

lemma fd_at_dup2 [fd_simps]:
  "fd_at (dup2_fd old new t) k =
     (if k = new \<and> old \<noteq> new \<and> fd_at t old \<noteq> None then Some (fst (the (fd_at t old)), False) else fd_at t k)"
  by (auto simp: dup2_fd_def fd_at_set split: option.splits)

lemma fd_at_Cons: "fd_at (e # t) k = (case k of 0 \<Rightarrow> e | Suc j \<Rightarrow> fd_at t j)"
  by (cases k) (simp_all add: fd_at_def)

text \<open>The number is the lowest free one.\<close>

lemma open_fd_spec:
  "open_fd e t = (fd, t') \<Longrightarrow> fd_at t fd = None \<and> (\<forall>k < fd. fd_at t k \<noteq> None) \<and>
     (\<forall>k. fd_at t' k = (if k = fd then Some e else fd_at t k))"
proof (induction e t arbitrary: fd t' rule: open_fd.induct)
  case (3 e d t)
  obtain fd1 t1 where o: "open_fd e t = (fd1, t1)" by (cases "open_fd e t")
  with "3.IH" [OF o] "3.prems" show ?case
    by (auto simp: fd_at_Cons split: nat.splits)
qed (auto simp: fd_at_def nth_Cons split: nat.splits)

lemma pipe_fds_spec:
  assumes "pipe_fds cloexec i t = ((r, w), t')"
  shows "fd_at t r = None" "fd_at t w = None" "r < w" "\<forall>k < w. k \<noteq> r \<longrightarrow> fd_at t k \<noteq> None"
    "fd_at t' k = (if k = r then Some (Read_end i, cloexec) else if k = w then Some (Write_end i, cloexec) else fd_at t k)"
proof -
  obtain t1 where o: "open_fd (Read_end i, cloexec) t = (r, t1)" "open_fd (Write_end i, cloexec) t1 = (w, t')"
    using assms by (auto simp: pipe_fds_def split: prod.splits)
  note s = open_fd_spec [OF o(1)] open_fd_spec [OF o(2)]
  from s show "fd_at t r = None" "fd_at t w = None"
    "fd_at t' k = (if k = r then Some (Read_end i, cloexec) else if k = w then Some (Write_end i, cloexec) else fd_at t k)"
    by (auto split: if_splits)
  from s show "r < w" by (metis linorder_neqE_nat option.distinct(1))
  from s show "\<forall>k < w. k \<noteq> r \<longrightarrow> fd_at t k \<noteq> None" by auto
qed

section \<open>The menu program\<close>

record dmenu_fds =
  df_inpipe :: "nat \<times> nat"
  df_outpipe :: "nat \<times> nat"
  df_table :: fd_table

text \<open>\<open>run\<close> up to \<open>fork\<close>; then its two sides.\<close>

definition Dmenu_pipes :: "nat \<Rightarrow> nat \<Rightarrow> fd_table \<Rightarrow> dmenu_fds" where
  "Dmenu_pipes i j t =
     (case pipe_fds False i t of (inpipe, t1) \<Rightarrow>
        case pipe_fds False j t1 of (outpipe, t2) \<Rightarrow>
          \<lparr>df_inpipe = inpipe, df_outpipe = outpipe, df_table = t2\<rparr>)"

definition Dmenu_child :: "dmenu_fds \<Rightarrow> fd_table" where
  "Dmenu_child d =
     (let t1 = close_fd (snd (df_outpipe d)) (close_fd (fst (df_inpipe d)) (df_table d));
          t2 = dup2_fd (fst (df_outpipe d)) 0 (dup2_fd (snd (df_inpipe d)) 1 t1)
      in exec_fds (close_fd (fst (df_outpipe d)) (close_fd (snd (df_inpipe d)) t2)))"

definition Dmenu_parent :: "dmenu_fds \<Rightarrow> dmenu_fds" where
  "Dmenu_parent d =
     d\<lparr>df_table := close_fd (fst (df_outpipe d)) (close_fd (snd (df_inpipe d)) (df_table d))\<rparr>"

text \<open>\<open>display\<close>, and the end of \<open>read_choice\<close> (the same on each of its returns).\<close>

definition display_fds :: "dmenu_fds \<Rightarrow> dmenu_fds" where
  "display_fds d = d\<lparr>df_table := close_fd (snd (df_outpipe d)) (df_table d)\<rparr>"

definition read_choice_fds :: "dmenu_fds \<Rightarrow> dmenu_fds" where
  "read_choice_fds d = d\<lparr>df_table := close_fd (fst (df_inpipe d)) (df_table d)\<rparr>"

definition dialogue_fds :: "nat \<Rightarrow> nat \<Rightarrow> fd_table \<Rightarrow> fd_table" where
  "dialogue_fds i j t = df_table (read_choice_fds (display_fds (Dmenu_parent (Dmenu_pipes i j t))))"

lemma Dmenu_pipes_ends:
  obtains ri wi ro wo where
    "df_inpipe (Dmenu_pipes i j t) = (ri, wi)" "df_outpipe (Dmenu_pipes i j t) = (ro, wo)"
    "ri < wi" "wi < ro" "ro < wo" "\<forall>k \<in> {ri, wi, ro, wo}. fd_at t k = None"
    "\<forall>k < wi. k \<noteq> ri \<longrightarrow> fd_at t k \<noteq> None"
    "\<And>k. fd_at (df_table (Dmenu_pipes i j t)) k =
       (if k = ri then Some (Read_end i, False) else if k = wi then Some (Write_end i, False)
        else if k = ro then Some (Read_end j, False) else if k = wo then Some (Write_end j, False)
        else fd_at t k)"
proof -
  obtain ri wi t1 where p1: "pipe_fds False i t = ((ri, wi), t1)" by (metis prod.collapse)
  obtain ro wo t2 where p2: "pipe_fds False j t1 = ((ro, wo), t2)" by (metis prod.collapse)
  note s1 = pipe_fds_spec [OF p1] and s2 = pipe_fds_spec [OF p2]
  have d: "df_inpipe (Dmenu_pipes i j t) = (ri, wi)" "df_outpipe (Dmenu_pipes i j t) = (ro, wo)"
    "df_table (Dmenu_pipes i j t) = t2" by (simp_all add: Dmenu_pipes_def p1 p2)
  have ro: "fd_at t ro = None" "ro \<noteq> ri" "ro \<noteq> wi" using s2(1) s1(5) by (auto split: if_splits)
  have "wi < ro" using ro s1(4) by (metis linorder_neqE_nat)
  moreover have "fd_at t wo = None" using s2(2) s1(5) by (auto split: if_splits)
  moreover have "fd_at t2 k =
       (if k = ri then Some (Read_end i, False) else if k = wi then Some (Write_end i, False)
        else if k = ro then Some (Read_end j, False) else if k = wo then Some (Write_end j, False)
        else fd_at t k)" for k
    using s1(3,5) s2(3,5) ro \<open>wi < ro\<close> by auto
  ultimately show thesis using that [OF d(1,2)] s1 s2(3) ro d(3) by auto
qed

text \<open>C36: the descriptors of the dialogue. The menu program reads the lines of the program on its standard
  input and its standard output is what the program reads, exactly when the program was started
  with standard input or standard output open (with both closed the writing end gets the number 1,
  and is closed). Its other descriptors are those the program passes on, without the pipes, so that
  it sees the end of its input; and after the dialogue the program has the descriptors it had before.\<close>

theorem dmenu_descriptors:
  "(fd_at (Dmenu_child (Dmenu_pipes i j t)) 0 = Some (Read_end j, False) \<and>
    fd_at (Dmenu_child (Dmenu_pipes i j t)) 1 = Some (Write_end i, False) \<longleftrightarrow>
      \<not> (fd_at t 0 = None \<and> fd_at t 1 = None)) \<and>
   fd_at (Dmenu_child (Dmenu_pipes i j t)) (k + 2) = fd_at (exec_fds t) (k + 2) \<and>
   fd_at (dialogue_fds i j t) n = fd_at t n"
proof -
  obtain ri wi ro wo where e: "df_inpipe (Dmenu_pipes i j t) = (ri, wi)" "df_outpipe (Dmenu_pipes i j t) = (ro, wo)"
    "ri < wi" "wi < ro" "ro < wo" "\<forall>k \<in> {ri, wi, ro, wo}. fd_at t k = None"
    "\<forall>k < wi. k \<noteq> ri \<longrightarrow> fd_at t k \<noteq> None"
    "\<And>k. fd_at (df_table (Dmenu_pipes i j t)) k =
       (if k = ri then Some (Read_end i, False) else if k = wi then Some (Write_end i, False)
        else if k = ro then Some (Read_end j, False) else if k = wo then Some (Write_end j, False)
        else fd_at t k)"
    by (rule Dmenu_pipes_ends [of i j t]) (rule that)
  have child: "fd_at (Dmenu_child (Dmenu_pipes i j t)) k =
      (if k = wi \<or> k = ro then None else if k = 0 then Some (Read_end j, False)
       else if k = 1 then Some (Write_end i, False) else if k = ri \<or> k = wo then None
       else fd_at (exec_fds t) k)" for k
    using e(3-5) by (auto simp: Dmenu_child_def e(1,2,8) fd_simps Let_def)
  have both: "wi = 1 \<longleftrightarrow> fd_at t 0 = None \<and> fd_at t 1 = None"
  proof
    assume "wi = 1"
    with e(3,6) show "fd_at t 0 = None \<and> fd_at t 1 = None" by auto
  next
    assume free: "fd_at t 0 = None \<and> fd_at t 1 = None"
    with e(7) have "\<not> (0 < wi \<and> 0 \<noteq> ri)" "\<not> (1 < wi \<and> 1 \<noteq> ri)" by blast+
    with e(3) show "wi = 1" by linarith
  qed
  have "fd_at (Dmenu_child (Dmenu_pipes i j t)) 0 = Some (Read_end j, False) \<and>
      fd_at (Dmenu_child (Dmenu_pipes i j t)) 1 = Some (Write_end i, False) \<longleftrightarrow> wi \<noteq> 1"
    using child e(3,4) by auto
  moreover have "fd_at (Dmenu_child (Dmenu_pipes i j t)) (k + 2) = fd_at (exec_fds t) (k + 2)"
    using child [of "k + 2"] e(6) by (auto simp: fd_simps)
  moreover have "fd_at (dialogue_fds i j t) n = fd_at t n"
    using e(3-6) by (auto simp: dialogue_fds_def read_choice_fds_def display_fds_def Dmenu_parent_def e(1,2,8) fd_simps)
  ultimately show ?thesis using both by metis
qed

section \<open>i3\<close>

text \<open>\<open>get_ipc_socket_path\<close>: the child, and the program after it has read the answer.\<close>

definition socket_path_child :: "nat \<Rightarrow> fd_table \<Rightarrow> fd_table" where
  "socket_path_child i t =
     (case pipe_fds False i t of ((r, w), t') \<Rightarrow>
        exec_fds (dup2_fd w 1 (close_fd r (close_fd 0 t'))))"

definition socket_path_parent :: "nat \<Rightarrow> fd_table \<Rightarrow> fd_table" where
  "socket_path_parent i t = (case pipe_fds False i t of ((r, w), t') \<Rightarrow> close_fd w t')"

text \<open>The scope guard \<open>OnExit\<close> (\<open>src/Utilities.hh\<close>): its destructor calls the function unless it was disarmed.\<close>

record 's OnExit =
  oe_func :: "'s \<Rightarrow> 's"
  oe_active :: bool

definition OnExit_ctor :: "('s \<Rightarrow> 's) \<Rightarrow> 's OnExit" where
  "OnExit_ctor f = \<lparr>oe_func = f, oe_active = True\<rparr>"

definition OnExit_disarm :: "'s OnExit \<Rightarrow> 's OnExit" where
  "OnExit_disarm g = g\<lparr>oe_active := False\<rparr>"

definition OnExit_dtor :: "'s OnExit \<Rightarrow> 's \<Rightarrow> 's" where
  "OnExit_dtor g s = (if oe_active g then oe_func g s else s)"

text \<open>\<open>exec\<close> from \<open>socket\<close> to its return.\<close>

definition I3_exec_fds :: "fd_table \<Rightarrow> fd_table" where
  "I3_exec_fds t =
     (case open_fd (File ''socket'', False) t of (sfd, t') \<Rightarrow> OnExit_dtor (OnExit_ctor (close_fd sfd)) t')"

lemma socket_path_parent_leak:
  assumes "pipe_fds False i t = ((r, w), t')"
  shows "fd_at (socket_path_parent i t) k = (if k = r then Some (Read_end i, False) else fd_at t k)"
  using pipe_fds_spec [OF assms] by (auto simp: socket_path_parent_def assms fd_simps)

section \<open>What a started application inherits\<close>

text \<open>
  In wait-on mode, with i3 not in use: the history file (\<open>fopen\<close> sets no flag), inotify, the pipe of
  the signal handler, the FIFO; and the child that becomes the application.
\<close>

definition waiting_fds :: "bool \<Rightarrow> nat \<Rightarrow> fd_table \<Rightarrow> nat \<times> fd_table" where
  "waiting_fds history i t =
     (let t1 = (if history then snd (open_fd (File ''history'', False) t) else t);
          t2 = snd (open_fd (File ''inotify'', True) t1);
          t3 = snd (pipe_fds True i t2)
      in open_fd (File ''fifo'', True) t3)"

definition started_fds :: "bool \<Rightarrow> nat \<Rightarrow> fd_table \<Rightarrow> fd_table" where
  "started_fds history i t = (case waiting_fds history i t of (fifo, t') \<Rightarrow> exec_fds (close_fd fifo t'))"

lemma fd_at_exec_private:
  assumes "\<And>k. fd_at t' k = (if k \<in> K then Some (f k, True) else fd_at t k)" "\<And>k. k \<in> K \<Longrightarrow> fd_at t k = None"
  shows "fd_at (exec_fds t') k = fd_at (exec_fds t) k"
  using assms by (auto simp: fd_simps)

lemma exec_open_private:
  assumes "open_fd (f, True) t = (fd, t')"
  shows "fd_at (exec_fds t') k = fd_at (exec_fds t) k"
  using open_fd_spec [OF assms] by (intro fd_at_exec_private [where K = "{fd}" and f = "\<lambda>_. f"]) auto

lemma exec_pipe_private:
  assumes "pipe_fds True i t = ((r, w), t')"
  shows "fd_at (exec_fds t') k = fd_at (exec_fds t) k"
  using pipe_fds_spec [OF assms]
  by (intro fd_at_exec_private [where K = "{r, w}" and f = "\<lambda>k. if k = r then Read_end i else Write_end i"]) auto

lemma started_without_history:
  assumes "open_fd (File ''inotify'', True) t = (n, t2)" "pipe_fds True i t2 = ((r, w), t3)"
    and "open_fd (File ''fifo'', True) t3 = (fifo, t4)"
  shows "fd_at (exec_fds (close_fd fifo t4)) k = fd_at (exec_fds t) k"
proof -
  have "fd_at (exec_fds (close_fd fifo t4)) k = fd_at (exec_fds t4) k"
    using open_fd_spec [OF assms(3)] by (simp add: fd_simps)
  then show ?thesis using exec_open_private [OF assms(1)] exec_pipe_private [OF assms(2)] exec_open_private [OF assms(3)]
    by simp
qed


end
