(* ===== verification/OptionOutput.thy ===== *)
theory OptionOutput
  imports CommandLine
begin

text \<open>
  What \<open>main\<close> (\<open>src/main.cc\<close>) prints while it reads its options: the usage, the version, the messages
  about arguments it does not accept and the warning about words that are no options. The text of
  \<open>version()\<close>, which the build makes, is a parameter. The messages of \<open>getopt_long\<close> itself, for options
  that are not in the table, are those of the C library and not among them.
\<close>

section \<open>Messages\<close>

datatype stream = Stdout | Stderr

datatype shown_output = Printed stream string | Warned string

text \<open>What one turn of the loop prints before it ends the program.\<close>

definition option_error :: "char \<Rightarrow> string \<Rightarrow> options \<Rightarrow> string option" where
  "option_error c optarg opts =
     (if c = CHR ''T'' then
        (case parse_term_mode optarg of
           None \<Rightarrow> Some ''Invalid term mode supplied to --term-mode!'' | Some _ \<Rightarrow> None)
      else if c = CHR ''o'' then
        (case parse_level optarg of
           None \<Rightarrow> Some ''Invalid loglevel supplied to --log-level!'' | Some _ \<Rightarrow> None)
      else if c = CHR ''V'' then
        (case parse_level optarg of
           None \<Rightarrow> Some ''Invalid loglevel supplied to --log-file-level!'' | Some _ \<Rightarrow> None)
      else if c = CHR ''D'' then
        (if op_parsing_mode opts = STRICT then
           Some ''You may not supply both --strict-parsing and --desktop-file-quirks at the same time!''
         else if optarg = ''wine'' then None
         else Some ''Invalid compatibility mode supplied to --desktop-file-compatibility!'')
      else if c = CHR ''R'' then
        (if op_parsing_mode opts = QUIRKS then
           Some ''You may not supply both --strict-parsing and --desktop-file-quirks at the same time!''
         else None)
      else None)"

definition option_output :: "string \<Rightarrow> string \<Rightarrow> char \<Rightarrow> string \<Rightarrow> options \<Rightarrow> shown_output list" where
  "option_output usage version c optarg opts =
     (if c = CHR ''h'' then [Printed Stderr usage]
      else if c = CHR ''E'' then [Printed Stdout (version @ [NL])]
      else case option_error c optarg opts of
        None \<Rightarrow> [] | Some message \<Rightarrow> [Printed Stderr (message @ [NL])])"

fun options_output :: "string \<Rightarrow> string \<Rightarrow> (char \<times> string) list \<Rightarrow> options \<Rightarrow> shown_output list" where
  "options_output usage version [] opts = []"
| "options_output usage version ((c, optarg) # rest) opts =
     option_output usage version c optarg opts @
     (case handle_option c optarg opts of
        Inl _ \<Rightarrow> [] | Inr opts' \<Rightarrow> options_output usage version rest opts')"

text \<open>The warning passes the logger as the options have set it so far.\<close>

definition positional_warning :: "options \<Rightarrow> string list \<Rightarrow> shown_output list" where
  "positional_warning opts words =
     (if words \<noteq> [] \<and> op_level opts \<le> Warn
      then [Warned (''Positional arguments '' @ SQUOTE # join words SPACE @ SQUOTE # '' are unused!'')] else [])"

definition argv_output :: "string \<Rightarrow> string \<Rightarrow> string list \<Rightarrow> shown_output list" where
  "argv_output usage version argv =
     (case getopt_long argv of (found, words) \<Rightarrow>
        options_output usage version found default_options @
        (case parse_options found default_options of
           Inl _ \<Rightarrow> [] | Inr opts \<Rightarrow> positional_warning opts words))"

section \<open>What is printed and how the program ends\<close>

definition ending_output :: "string \<Rightarrow> string \<Rightarrow> char \<Rightarrow> string \<Rightarrow> options \<Rightarrow> fault \<Rightarrow> shown_output list \<Rightarrow> bool" where
  "ending_output usage version c optarg opts e out \<longleftrightarrow>
     (if c = CHR ''h'' then e = Exited EXIT_SUCCESS \<and> out = [Printed Stderr usage]
      else if c = CHR ''E'' then e = Exited EXIT_SUCCESS \<and> out = [Printed Stdout (version @ [NL])]
      else e = Exited EXIT_FAILURE \<and>
        (case option_error c optarg opts of None \<Rightarrow> out = [] | Some m \<Rightarrow> out = [Printed Stderr (m @ [NL])]))"

lemma option_output_cases:
  "case handle_option c optarg opts of
     Inr opts' \<Rightarrow> option_output usage version c optarg opts = []
   | Inl e \<Rightarrow> ending_output usage version c optarg opts e (option_output usage version c optarg opts)"
proof -
  consider "c = CHR ''h''" | "c = CHR ''E''" | "c \<noteq> CHR ''h''" "c \<noteq> CHR ''E''" by blast
  then show ?thesis
  proof cases
    case 3
    then show ?thesis
      unfolding handle_option_def option_output_def option_error_def ending_output_def
      by (auto split: option.splits simp: EXIT_FAILURE_def)
  qed (simp_all add: handle_option_def option_output_def ending_output_def)
qed

lemma options_output_ok: "parse_options os opts = Inr opts' \<Longrightarrow> options_output usage version os opts = []"
proof (induction os opts rule: parse_options.induct)
  case (2 c optarg rest opts)
  with option_output_cases [of usage version c optarg opts] show ?case
    by (auto simp: bind_sum_def split: sum.splits)
qed simp

lemma options_output_end:
  "parse_options os opts = Inl e \<Longrightarrow>
     \<exists>pre c optarg rest opts'. os = pre @ (c, optarg) # rest \<and> parse_options pre opts = Inr opts' \<and>
       ending_output usage version c optarg opts' e (options_output usage version os opts)"
proof (induction os opts rule: parse_options.induct)
  case (2 c optarg rest opts)
  note o = option_output_cases [of usage version c optarg opts]
  show ?case
  proof (cases "handle_option c optarg opts")
    case (Inl e')
    with "2.prems" o show ?thesis by (intro exI [of _ "[]"]) auto
  next
    case (Inr opts1)
    then have "parse_options rest opts1 = Inl e" using "2.prems" by simp
    from "2.IH" [OF this] obtain pre c' optarg' rest' opts' where
      "rest = pre @ (c', optarg') # rest'" "parse_options pre opts1 = Inr opts'"
      "ending_output usage version c' optarg' opts' e (options_output usage version rest opts1)" by blast
    with Inr o show ?thesis by (intro exI [of _ "(c, optarg) # pre"]) fastforce
  qed
qed simp


end
