(* ===== verification/HistoryFile.thy ===== *)
theory HistoryFile
  imports LineReader HistoryManager
begin

text \<open>
  The file of the history (\<open>src/HistoryManager.cc\<close>): the objects of the class with the \<open>FILE\<close> each of
  them owns through its \<open>unique_ptr\<close>, the moves between them, and what is open. \<open>HistoryManager\<close> has the
  contents of the file; which object holds it does not matter there.
\<close>

section \<open>Objects and files\<close>

record history_object =
  ho_file :: "nat option"
  ho_history :: history_mmap
  ho_filename :: string

lemma history_object_eta [simp]:
  "\<lparr>ho_file = ho_file r, ho_history = ho_history r, ho_filename = ho_filename r\<rparr> = r"
  by (cases r) simp

text \<open>\<open>fclose\<close> of a file that is not open is undefined.\<close>

definition fclose_deleter :: "nat \<Rightarrow> nat set \<Rightarrow> fault + nat set" where
  "fclose_deleter f open = (if f \<in> open then Inr (open - {f}) else Inl Undefined)"

text \<open>\<open>unique_ptr::reset\<close>: the new pointer is stored before the old file is closed.\<close>

definition close_old :: "nat option \<Rightarrow> nat set \<Rightarrow> fault + nat set" where
  "close_old old open = (case old of None \<Rightarrow> Inr open | Some f \<Rightarrow> fclose_deleter f open)"

text \<open>\<open>left\<close> is what moving from a map or a string leaves in it, which the library does not say.\<close>

definition HistoryManager_private_ctor :: "nat option \<Rightarrow> history_mmap \<Rightarrow> string \<Rightarrow> history_object" where
  "HistoryManager_private_ctor f hist filename = \<lparr>ho_file = f, ho_history = hist, ho_filename = filename\<rparr>"

definition HistoryManager_move_ctor :: "history_mmap \<Rightarrow> history_object \<Rightarrow> history_object \<times> history_object" where
  "HistoryManager_move_ctor left other =
     (\<lparr>ho_file = ho_file other, ho_history = ho_history other, ho_filename = ho_filename other\<rparr>,
      other\<lparr>ho_file := None, ho_history := left\<rparr>)"

definition HistoryManager_assign ::
  "history_mmap \<times> string \<Rightarrow> nat \<Rightarrow> nat \<Rightarrow> (nat \<rightharpoonup> history_object) \<Rightarrow> nat set \<Rightarrow>
     fault + (nat \<rightharpoonup> history_object) \<times> nat set" where
  "HistoryManager_assign left this other objects open =
     (if this = other then Inr (objects, open)
      else
        (let r_this = the (objects this); r_other = the (objects other) in
         bind_sum (close_old (ho_file r_this) open) (\<lambda>open'.
           Inr (objects(this \<mapsto> \<lparr>ho_file = ho_file r_other, ho_history = ho_history r_other,
                          ho_filename = ho_filename r_other\<rparr>,
                        other \<mapsto> \<lparr>ho_file = None, ho_history = fst left, ho_filename = snd left\<rparr>), open'))))"

section \<open>Any use of the objects\<close>

record history_files =
  hf_open :: "nat set"
  hf_objects :: "nat \<rightharpoonup> history_object"

datatype history_op =
    Open_history nat nat history_mmap string
  | Move_history nat nat history_mmap
  | Assign_history nat nat "history_mmap \<times> string"
  | Destroy_history nat

definition exec_history_op :: "history_op \<Rightarrow> history_files \<Rightarrow> fault + history_files" where
  "exec_history_op op m =
     (case op of
        Open_history x f hist filename \<Rightarrow>
          Inr \<lparr>hf_open = insert f (hf_open m),
               hf_objects = (hf_objects m)(x \<mapsto> HistoryManager_private_ctor (Some f) hist filename)\<rparr>
      | Move_history x y left \<Rightarrow>
          (case HistoryManager_move_ctor left (the (hf_objects m y)) of (r, other) \<Rightarrow>
             Inr (m\<lparr>hf_objects := (hf_objects m)(x \<mapsto> r, y \<mapsto> other)\<rparr>))
      | Assign_history x y left \<Rightarrow>
          bind_sum (HistoryManager_assign left x y (hf_objects m) (hf_open m)) (\<lambda>(objects, open).
            Inr \<lparr>hf_open = open, hf_objects = objects\<rparr>)
      | Destroy_history x \<Rightarrow>
          bind_sum (close_old (ho_file (the (hf_objects m x))) (hf_open m)) (\<lambda>open.
            Inr \<lparr>hf_open = open, hf_objects = (hf_objects m)(x := None)\<rparr>))"

text \<open>Operations are on objects that live; \<open>fopen\<close> gives a file that is not open yet.\<close>

fun history_op_allowed :: "history_files \<Rightarrow> history_op \<Rightarrow> bool" where
  "history_op_allowed m (Open_history x f hist filename) = (x \<notin> dom (hf_objects m) \<and> f \<notin> hf_open m)"
| "history_op_allowed m (Move_history x y left) = (x \<notin> dom (hf_objects m) \<and> y \<in> dom (hf_objects m))"
| "history_op_allowed m (Assign_history x y left) = (x \<in> dom (hf_objects m) \<and> y \<in> dom (hf_objects m))"
| "history_op_allowed m (Destroy_history x) = (x \<in> dom (hf_objects m))"

inductive history_run :: "history_files \<Rightarrow> bool" where
  history_start: "history_run \<lparr>hf_open = {}, hf_objects = Map.empty\<rparr>"
| history_next: "history_run m \<Longrightarrow> history_op_allowed m op \<Longrightarrow> exec_history_op op m = Inr m' \<Longrightarrow> history_run m'"

section \<open>Ownership\<close>

definition file_of :: "history_files \<Rightarrow> nat \<Rightarrow> nat option" where
  "file_of m x = Option.bind (hf_objects m x) ho_file"

text \<open>The open files are those of the objects, each of one.\<close>

definition files_owned :: "history_files \<Rightarrow> bool" where
  "files_owned m \<longleftrightarrow> unshared (file_of m) \<and> hf_open m = ran (file_of m)"

lemma files_owned_closed:
  assumes "files_owned m" "x \<in> dom (hf_objects m)"
  shows "close_old (ho_file (the (hf_objects m x))) (hf_open m) = Inr (ran ((file_of m)(x := None)))"
proof -
  from assms(2) obtain r where r: "hf_objects m x = Some r" by auto
  then have f: "file_of m x = ho_file r" by (simp add: file_of_def)
  show ?thesis
  proof (cases "ho_file r")
    case None
    with assms(1) r f show ?thesis by (simp add: close_old_def files_owned_def fun_upd_idem)
  next
    case (Some p)
    moreover have "p \<in> hf_open m" using assms(1) Some f by (auto simp: files_owned_def intro: ranI)
    ultimately show ?thesis
      using assms(1) r f ran_drop [of "file_of m" x p]
      by (simp add: close_old_def fclose_deleter_def files_owned_def)
  qed
qed

lemma files_owned_step:
  assumes "files_owned m" "history_op_allowed m op"
  shows "\<exists>m'. exec_history_op op m = Inr m' \<and> files_owned m'"
proof (cases op)
  case (Open_history x f hist filename)
  define m' where "m' = \<lparr>hf_open = insert f (hf_open m),
      hf_objects = (hf_objects m)(x \<mapsto> HistoryManager_private_ctor (Some f) hist filename)\<rparr>"
  with Open_history have m': "exec_history_op op m = Inr m'" "hf_open m' = insert f (hf_open m)"
    "hf_objects m' = (hf_objects m)(x \<mapsto> HistoryManager_private_ctor (Some f) hist filename)"
    by (simp_all add: exec_history_op_def)
  then have "file_of m' = (file_of m)(x \<mapsto> f)"
    by (auto simp: file_of_def fun_eq_iff HistoryManager_private_ctor_def)
  moreover have "file_of m x = None" "f \<notin> ran (file_of m)"
    using assms Open_history by (auto simp: file_of_def files_owned_def domIff)
  ultimately have "files_owned m'"
    using assms(1) m'(2) by (auto simp: files_owned_def unshared_def intro: ranI)
  with m'(1) show ?thesis by blast
next
  case (Move_history x y left)
  with assms(2) obtain r where r: "hf_objects m x = None" "hf_objects m y = Some r" by (auto simp: domIff)
  define m' where "m' = m\<lparr>hf_objects := (hf_objects m)(x \<mapsto> r, y \<mapsto> r\<lparr>ho_file := None, ho_history := left\<rparr>)\<rparr>"
  with Move_history r have m': "exec_history_op op m = Inr m'" "hf_open m' = hf_open m"
    "hf_objects m' = (hf_objects m)(x \<mapsto> r, y \<mapsto> r\<lparr>ho_file := None, ho_history := left\<rparr>)"
    by (simp_all add: exec_history_op_def HistoryManager_move_ctor_def)
  then have f: "file_of m' = (file_of m)(x := file_of m y, y := None)" "file_of m x = None"
    using r by (auto simp: file_of_def fun_eq_iff)
  then have "files_owned m'"
    using assms(1) m'(2) unshared_move [of "file_of m" x y] ran_move [of "file_of m" x y] by (simp add: files_owned_def)
  with m'(1) show ?thesis by blast
next
  case (Assign_history x y left)
  show ?thesis
  proof (cases "x = y")
    case True
    with Assign_history assms(1) show ?thesis
      by (simp add: exec_history_op_def HistoryManager_assign_def files_owned_def file_of_def [abs_def])
  next
    case False
    from assms(2) Assign_history obtain s where s: "hf_objects m y = Some s" "x \<in> dom (hf_objects m)" by auto
    define m' where "m' = \<lparr>hf_open = ran ((file_of m)(x := None)), hf_objects = (hf_objects m)
      (x \<mapsto> s, y \<mapsto> \<lparr>ho_file = None, ho_history = fst left, ho_filename = snd left\<rparr>)\<rparr>"
    with Assign_history False s(1) files_owned_closed [OF assms(1) s(2)] have
      m': "exec_history_op op m = Inr m'" "hf_open m' = ran ((file_of m)(x := None))"
      "hf_objects m' = (hf_objects m)(x \<mapsto> s, y \<mapsto> \<lparr>ho_file = None, ho_history = fst left, ho_filename = snd left\<rparr>)"
      by (simp_all add: exec_history_op_def HistoryManager_assign_def Let_def)
    then have f: "file_of m' = ((file_of m)(x := None))(x := file_of m y, y := None)"
      using s by (auto simp: file_of_def fun_eq_iff)
    have "files_owned m'"
      using assms(1) m'(2) f False unshared_move [of "(file_of m)(x := None)" x y]
        unshared_drop [of "file_of m" x] ran_move [of "(file_of m)(x := None)" x y]
      by (simp add: files_owned_def)
    with m'(1) show ?thesis by blast
  qed
next
  case (Destroy_history x)
  with assms have "x \<in> dom (hf_objects m)" by simp
  define m' where "m' = \<lparr>hf_open = ran ((file_of m)(x := None)), hf_objects = (hf_objects m)(x := None)\<rparr>"
  with files_owned_closed [OF assms(1) \<open>x \<in> dom (hf_objects m)\<close>] Destroy_history have
    m': "exec_history_op op m = Inr m'" "hf_open m' = ran ((file_of m)(x := None))"
    "hf_objects m' = (hf_objects m)(x := None)"
    by (simp_all add: exec_history_op_def)
  then have "file_of m' = (file_of m)(x := None)" by (auto simp: file_of_def fun_eq_iff)
  with m' assms(1) unshared_drop [of "file_of m" x] have "files_owned m'" by (simp add: files_owned_def)
  with m'(1) show ?thesis by blast
qed

lemma history_run_owned: "history_run m \<Longrightarrow> files_owned m"
proof (induction rule: history_run.induct)
  case history_start
  show ?case by (simp add: files_owned_def unshared_def file_of_def ran_def)
next
  case (history_next m op m')
  with files_owned_step show ?case by fastforce
qed

text \<open>However objects of the class are made, moved, assigned and destroyed, no file is closed twice, the
  open files are exactly those of the objects and no two objects have the same; so all are closed once
  the objects are gone. An assignment, unlike that of \<open>LineReader\<close>, closes the file it replaces, and gives the
  file, the history and the name of the other object.\<close>

theorem history_file_owned:
  assumes "history_run m" "history_op_allowed m op"
  shows "\<exists>m'. exec_history_op op m = Inr m' \<and> unshared (file_of m') \<and> hf_open m' = ran (file_of m') \<and>
    (hf_objects m' = Map.empty \<longrightarrow> hf_open m' = {}) \<and>
    (\<forall>x y left. op = Assign_history x y left \<longrightarrow> hf_objects m' x = hf_objects m y)"
proof -
  from files_owned_step [OF history_run_owned [OF assms(1)] assms(2)]
  obtain m' where m': "exec_history_op op m = Inr m'" "files_owned m'" by blast
  have "hf_objects m' x = hf_objects m y" if "op = Assign_history x y left" for x y left
    using m'(1) assms(2) that
    by (cases "x = y") (auto simp: exec_history_op_def HistoryManager_assign_def Let_def bind_sum_def split: sum.splits)
  with m' show ?thesis by (auto simp: files_owned_def file_of_def ran_def)
qed

end
