(* ===== verification/ReapingPass.thy ===== *)
theory ReapingPass
  imports Children WaitOnFacts
begin

text \<open>
  One pass of \<open>do_wait_on\<close> (\<open>src/main.cc\<close>) over the children, as the steps of \<open>Children\<close> and as the function
  \<open>reap_children\<close> of \<open>WaitOn\<close>: the answers that the function takes as an argument are those the steps get,
  while children go on ending and signals go on coming.
\<close>

section \<open>The pass\<close>

definition reaping :: "wait_processes \<Rightarrow> bool" where
  "reaping s \<longleftrightarrow> (\<exists>todo remaining. wp_phase s = Reaping todo remaining)"

definition pass_step :: "nat \<Rightarrow> wait_processes \<Rightarrow> wait_processes \<Rightarrow> bool" where
  "pass_step capacity s t \<longleftrightarrow> (outer_step s t \<or> inner_step capacity s t) \<and> reaping s \<and> reaping t"

lemma reap_append: "reap answer (xs @ ys) r = bind_sum (reap answer xs r) (reap answer ys)"
  by (induction xs arbitrary: r) (auto split: wait_answer.splits)

lemma reap_cong: "(\<And>pid. pid \<in> set pids \<Longrightarrow> f pid = g pid) \<Longrightarrow> reap f pids r = reap g pids r"
  by (induction pids arbitrary: r) (auto split: wait_answer.splits)

text \<open>What can happen in a pass: nothing to the list, or one child is asked for.\<close>

lemma pass_step_cases:
  assumes "pass_step capacity s t" "wp_phase s = Reaping todo remaining"
  obtains (outside) "wp_phase t = wp_phase s"
      "wp_running t \<union> wp_zombies t = wp_running s \<union> wp_zombies s" "wp_zombies s \<subseteq> wp_zombies t"
    | (asked) pid pids where "todo = pid # pids" "t = reap_one pid pids remaining s"
proof -
  from assms(1) consider "outer_step s t" | "inner_step capacity s t" "reaping t"
    by (auto simp: pass_step_def)
  then show thesis
  proof cases
    case 1
    then show thesis using assms(2) outside
      by cases (auto simp: child_ends_def)
  next
    case 2
    from 2(1) show thesis
    proof cases
      case handler
      then show thesis using outside by (auto simp: sigchld_def)
    next
      case (reaps pid pids remaining')
      then show thesis using assms(2) asked by auto
    next
      case (all_asked remaining')
      then show thesis using 2(2) by (auto simp: reaping_def reaped_def)
    qed (use assms(2) in auto)
  qed
qed

text \<open>Where a pass is: who was asked, with which answers, and what has become of them since.\<close>

definition pass_state ::
  "nat list \<Rightarrow> nat set \<Rightarrow> wait_processes \<Rightarrow> (nat \<Rightarrow> wait_answer) \<Rightarrow> nat list \<Rightarrow> nat list \<Rightarrow> nat list \<Rightarrow> bool" where
  "pass_state pids zombies t answer asked todo remaining \<longleftrightarrow>
     wp_inv t \<and> wp_phase t = Reaping todo remaining \<and> pids = asked @ todo \<and> distinct pids \<and>
     reap answer asked [] = Inr remaining \<and>
     (\<forall>pid \<in> set asked. answer pid \<noteq> Wait_error \<and>
        (answer pid = Waited \<longleftrightarrow> pid \<notin> wp_running t \<union> wp_zombies t) \<and>
        (pid \<in> zombies \<longrightarrow> answer pid = Waited)) \<and>
     zombies \<inter> set todo \<subseteq> wp_zombies t"

lemma pass_state_start:
  "wp_inv s \<Longrightarrow> wp_phase s = Reaping pids [] \<Longrightarrow>
     pass_state pids (wp_zombies s) s (\<lambda>_. Waited) [] pids []"
  by (auto simp: pass_state_def wp_inv_def Let_def)

lemma pass_state_asked:
  assumes p: "pass_state pids Z s answer asked (pid # todo) remaining" and t: "wp_inv (reap_one pid todo remaining s)"
  shows "\<exists>remaining'. pass_state pids Z (reap_one pid todo remaining s)
    (answer(pid := waitpid_nohang s pid)) (asked @ [pid]) todo remaining'"
proof -
  let ?t = "reap_one pid todo remaining s" and ?answer = "answer(pid := waitpid_nohang s pid)"
  have new: "pid \<notin> set asked" and inv: "wp_inv s" "wp_phase s = Reaping (pid # todo) remaining"
    using p by (auto simp: pass_state_def)
  then have there: "pid \<in> wp_running s \<union> wp_zombies s" "wp_running s \<inter> wp_zombies s = {}"
    by (auto simp: wp_inv_def Let_def)
  have old: "reap ?answer asked [] = Inr remaining"
    using p new by (subst reap_cong [where g = answer]) (auto simp: pass_state_def)
  show ?thesis
  proof (cases "pid \<in> wp_zombies s")
    case True
    then have "?t = s\<lparr>wp_zombies := wp_zombies s - {pid}, wp_phase := Reaping todo remaining\<rparr>"
      by (simp add: reap_one_def waitpid_nohang_def)
    with True p t old there new show ?thesis
      by (intro exI [of _ remaining]) (auto simp: pass_state_def reap_append waitpid_nohang_def)
  next
    case False
    then have "?t = s\<lparr>wp_phase := Reaping todo (remaining @ [pid])\<rparr>"
      using there by (simp add: reap_one_def waitpid_nohang_def)
    with False p t old there new show ?thesis
      by (intro exI [of _ "remaining @ [pid]"]) (auto simp: pass_state_def reap_append waitpid_nohang_def)
  qed
qed

lemma pass_state_step:
  assumes p: "pass_state pids Z s answer asked todo remaining" and step: "pass_step capacity s t" and "0 < capacity"
  shows "\<exists>answer' asked' todo' remaining'. pass_state pids Z t answer' asked' todo' remaining'"
proof -
  have inv: "wp_inv t"
    using p step wp_inv_outer wp_inv_inner [OF \<open>0 < capacity\<close>] by (auto simp: pass_state_def pass_step_def)
  have "wp_phase s = Reaping todo remaining" using p by (simp add: pass_state_def)
  with step show ?thesis
  proof (cases rule: pass_step_cases)
    case outside
    with p inv have "pass_state pids Z t answer asked todo remaining" by (auto simp: pass_state_def)
    then show ?thesis by blast
  next
    case (asked pid pids')
    with pass_state_asked [of pids Z s answer _ pid pids' remaining] p inv show ?thesis by blast
  qed
qed

lemma pass_state_run:
  assumes "(pass_step capacity)\<^sup>*\<^sup>* s t" "wp_inv s" "wp_phase s = Reaping pids []" "0 < capacity"
  shows "\<exists>answer asked todo remaining. pass_state pids (wp_zombies s) t answer asked todo remaining"
  using assms(1)
proof (induction rule: rtranclp_induct)
  case base
  from pass_state_start [OF assms(2,3)] show ?case by blast
next
  case (step u t)
  with pass_state_step [OF _ step(2) assms(4)] show ?case by blast
qed

text \<open>C8: a pass gives what \<open>reap_children\<close> gives for the answers of \<open>waitpid\<close>. These are never an error; a child
  is taken for ended exactly if it is gone when the pass is over, as every child that had ended
  before it is.\<close>

theorem reaping_pass_refines:
  assumes "wp_reachable capacity s" "0 < capacity" "wp_phase s = Reaping pids []"
    and "(pass_step capacity)\<^sup>*\<^sup>* s t" "wp_phase t = Reaping [] remaining"
  shows "\<exists>answer.
    (\<forall>cfg r st. \<not> wc_is_i3 cfg \<longrightarrow> ws_children st = pids \<longrightarrow>
       reap_children cfg (r\<lparr>wr_sigchld := Some answer\<rparr>) st =
         Inr (st\<lparr>ws_children := processes_to_wait_for (reaped remaining t)\<rparr>)) \<and>
    (\<forall>pid \<in> set pids. answer pid \<noteq> Wait_error \<and>
       (answer pid = Waited \<longleftrightarrow> pid \<notin> wp_running t \<union> wp_zombies t) \<and>
       (pid \<in> wp_zombies s \<longrightarrow> answer pid = Waited))"
proof -
  from pass_state_run [OF assms(4) wp_inv_reachable [OF assms(1,2)] assms(3,2)]
  obtain answer asked todo remaining' where "pass_state pids (wp_zombies s) t answer asked todo remaining'" by blast
  then have "reap answer pids [] = Inr remaining"
    "\<forall>pid \<in> set pids. answer pid \<noteq> Wait_error \<and> (answer pid = Waited \<longleftrightarrow> pid \<notin> wp_running t \<union> wp_zombies t) \<and>
       (pid \<in> wp_zombies s \<longrightarrow> answer pid = Waited)"
    using assms(5) by (auto simp: pass_state_def)
  then show ?thesis
    by (intro exI [of _ answer]) (simp add: reap_children_def reaped_def)
qed

text \<open>A pass over the child 7, which ends before it is asked for.\<close>

definition pass_start :: wait_processes where
  "pass_start =
     \<lparr>wp_running = {7}, wp_zombies = {}, wp_pending = False, wp_pipe = 0, processes_to_wait_for = [7],
      wp_phase = Reaping [7] []\<rparr>"

definition pass_end :: wait_processes where
  "pass_end = pass_start\<lparr>wp_running := {}, wp_pending := True, wp_phase := Reaping [] []\<rparr>"

lemma pass_start_reachable: "wp_reachable 4096 pass_start"
proof -
  let ?signalled = "served_request\<lparr>wp_pending := True\<rparr>"
  note after = wp_inner [where capacity = 4096]
  have "wp_reachable 4096 ?signalled"
    using wp_outer [OF served_request_reachable stray_signal] .
  from after [OF after [OF this handler] wakes]
  have "wp_reachable 4096 (sigchld 4096 ?signalled\<lparr>wp_phase := Draining\<rparr>)"
    by (simp add: served_request_def sigchld_def)
  from after [OF after [OF this drains] drains]
  have "wp_reachable 4096 (drain (drain (sigchld 4096 ?signalled\<lparr>wp_phase := Draining\<rparr>)))"
    by (simp add: served_request_def wp_defs)
  then show ?thesis by (simp add: served_request_def pass_start_def wp_defs)
qed

lemma pass_sample: "(pass_step 4096)\<^sup>*\<^sup>* pass_start pass_end"
proof (rule converse_rtranclp_into_rtranclp)
  show "pass_step 4096 pass_start (child_ends 7 pass_start)"
    using child_exits [of 7 pass_start] by (simp add: pass_step_def reaping_def pass_start_def child_ends_def)
  have "inner_step 4096 (child_ends 7 pass_start) (reap_one 7 [] [] (child_ends 7 pass_start))"
    by (rule reaps) (simp add: pass_start_def child_ends_def)
  moreover have "reap_one 7 [] [] (child_ends 7 pass_start) = pass_end"
    by (simp add: pass_start_def pass_end_def wp_defs)
  ultimately show "(pass_step 4096)\<^sup>*\<^sup>* (child_ends 7 pass_start) pass_end"
    by (intro r_into_rtranclp) (simp add: pass_step_def reaping_def pass_start_def pass_end_def child_ends_def)
qed

definition pass_children :: wait_state where
  "pass_children = \<lparr>ws_appm = sample_manager, ws_loop = sample_loop, ws_children = [7]\<rparr>"

theorem reaping_pass_refines_witness:
  "\<exists>answer. reap_children sample_config ((sample_round [] None)\<lparr>wr_sigchld := Some answer\<rparr>) pass_children =
     Inr (pass_children\<lparr>ws_children := []\<rparr>) \<and> answer 7 = Waited"
proof -
  obtain answer where a: "\<And>cfg r st. \<not> wc_is_i3 cfg \<Longrightarrow> ws_children st = [7] \<Longrightarrow>
      reap_children cfg (r\<lparr>wr_sigchld := Some answer\<rparr>) st =
        Inr (st\<lparr>ws_children := processes_to_wait_for (reaped [] pass_end)\<rparr>)"
    "answer 7 = Waited \<longleftrightarrow> 7 \<notin> wp_running pass_end \<union> wp_zombies pass_end"
    using reaping_pass_refines [OF pass_start_reachable _ _ pass_sample, of "[7]" "[]"]
    by (auto simp: pass_start_def pass_end_def)
  have "reap_children sample_config ((sample_round [] None)\<lparr>wr_sigchld := Some answer\<rparr>) pass_children =
      Inr (pass_children\<lparr>ws_children := processes_to_wait_for (reaped [] pass_end)\<rparr>)"
    by (rule a(1)) (simp_all add: sample_config_def pass_children_def)
  with a(2) show ?thesis by (auto simp: reaped_def pass_start_def pass_end_def)
qed

end
