(* ===== verification/Spec2Isabelle.thy ===== *)
theory Spec2Isabelle
  imports Utilities SearchPath LocaleSuffixes ApplicationFacts CMDLineAssembler FieldCodes Formatters
    AppManagerSteps HistoryManagerFacts MenuFacts CMDLineTermFacts I3ExecFacts ExecuteFacts
    OptionsFacts ProgramFacts DmenuPipe Children Fifo InotifyBuffer LineReader
    WellTyped MenuAnswer I3Socket Descriptors OptionOutput HistoryFile ReapingPass
begin

text \<open>
  j4-dmenu-desktop: a verification development of the program, one theory per component.

  \<^bold>\<open>The program.\<close> j4-dmenu-desktop collects the desktop files below the directories of the XDG
  search path, offers the names of the applications in a menu program (dmenu), and executes the
  application the user picks, in a shell, a terminal emulator, or through i3. In wait-on mode it
  stays resident: a FIFO triggers a dialogue, and a notifier reports desktop files that change.

  \<^bold>\<open>Parts, theories and sources\<close> (all sources are below \<open>src/\<close>):
  \<^item> \<open>J4Prelude\<close>, \<open>UnorderedMap\<close>, \<open>OrderedMap\<close>: faults (one datatype for exceptions, exits, aborts
    and undefined behaviour), strings and their searches, and the containers of the C++ library with
    their contracts as locales (\<open>unordered_map\<close>, \<open>strict_weak_order\<close>, \<open>strict_total_order\<close>), the
    comparators of \<open>DynamicCompare.hh\<close> being instances.
  \<^item> \<open>Utilities\<close> (\<open>Utilities.cc\<close>), \<open>SearchPath\<close> (\<open>SearchPath.cc\<close>), \<open>LocaleSuffixes\<close>
    (\<open>LocaleSuffixes.cc\<close>): the helpers, the directories, the suffixes of a locale.
  \<^item> \<open>LineReader\<close> (\<open>LineReader.cc\<close>): who owns the buffer lines are read into, over a heap of buffers;
    \<open>Application\<close> (\<open>Application.cc\<close>): the parser of desktop files;
    \<open>ApplicationFacts\<close>: round trip, localised names, hidden applications.
  \<^item> \<open>CMDLineAssembler\<close>, \<open>FieldCodes\<close>, \<open>Formatters\<close>: quoting and splitting of command lines, field
    codes, the lines of the menu. Quoting is a locale with the shell's and the Exec key's rules as
    interpretations.
  \<^item> \<open>AppManager\<close> (\<open>AppManager.cc\<close>, \<open>AppManager.hh\<close>): desktop IDs, ranks and the table of names;
    \<open>AppManagerFacts\<close>: its invariant and the refinement of a map from desktop IDs;
    \<open>AppManagerSteps\<close>: what holds in every reachable manager; \<open>WellTyped\<close>: the values it can hold.
  \<^item> \<open>HistoryManager\<close> (\<open>HistoryManager.cc\<close>), \<open>HistoryManagerFacts\<close>: the history file, its old format,
    and that what is stored is what is read; \<open>HistoryFile\<close>: which object owns the open file.
  \<^item> \<open>Dmenu\<close> (\<open>Dmenu.cc\<close>): the menu program as a function from its input to its answer; \<open>DmenuPipe\<close>: the
    same dialogue as two processes over two bounded pipes, with signals; \<open>Menu\<close> (\<open>NameToAppMapping\<close>, \<open>FormattedHistoryManager\<close>, \<open>do_dmenu\<close>,
    \<open>lookup_name\<close> and \<open>CommandRetrievalLoop\<close> of \<open>main.cc\<close>), \<open>MenuFacts\<close>: the menu and the choice,
    \<open>MenuAnswer\<close>: what any answer of the menu program leads to.
  \<^item> \<open>CMDLineTerm\<close> (\<open>CMDLineTerm.cc\<close>), \<open>CMDLineTermFacts\<close>: terminal emulators and the custom terminal;
    \<open>I3Exec\<close> (\<open>I3Exec.cc\<close>), \<open>I3ExecFacts\<close>: the messages to and from i3; \<open>I3Socket\<close>: the
    same over the single reads and writes of the socket.
  \<^item> \<open>Descriptors\<close> (\<open>Dmenu.cc\<close>, \<open>I3Exec.cc\<close>, \<open>do_wait_on\<close>, \<open>OnExit\<close> of \<open>Utilities.hh\<close>): tables of file
    descriptors, who holds which end of a pipe and what is inherited.
  \<^item> \<open>Execute\<close> (\<open>ExecutePhase\<close> of \<open>main.cc\<close>), \<open>ExecuteFacts\<close>: the three executables as the effects
    they have up to \<open>execvp\<close>.
  \<^item> \<open>FileFinder\<close> (\<open>FileFinder.cc\<close> and \<open>collect_files\<close> of \<open>main.cc\<close>): the walk over a directory tree.
  \<^item> \<open>NotifyInotify\<close> (\<open>NotifyInotify.cc\<close>), \<open>NotifyKqueue\<close> (\<open>NotifyKqueue.cc\<close>, with its two threads as
    a step relation), \<open>Notify\<close> (\<open>NotifyBase.hh\<close>: the interface as a locale, both notifiers as its
    interpretations), \<open>InotifyBuffer\<close>: inotify events as the bytes of the buffer they are read into.
  \<^item> \<open>WaitOn\<close> (\<open>do_wait_on\<close> of \<open>main.cc\<close>), \<open>WaitOnFacts\<close>: the resident mode as a run over rounds, each
    with what the system calls answer. \<open>Children\<close> (\<open>sigchld\<close>, \<open>setup_sigchld_signal\<close> and the reaping of
    children) and \<open>Fifo\<close> (the requests) are the same loop as step relations in which these answers
    follow from the processes, from the pipe of the signal handler and from who writes to the FIFO; \<open>ReapingPass\<close> shows that a pass
    over the children is the function of \<open>WaitOn\<close> for the answers the processes give.
  \<^item> \<open>CommandLine\<close> (the table of options, \<open>getopt_long\<close> and \<open>print_usage\<close>), \<open>Options\<close> (the options of \<open>main\<close> and the checks after them), \<open>OptionsFacts\<close>: their meaning,
    \<open>OptionOutput\<close>: what is printed for a command line,
    \<open>Program\<close> (\<open>main\<close> itself: setup, one
    run, resident mode), \<open>ProgramFacts\<close>: the parts put together.

  \<^bold>\<open>State and operations.\<close> A class of the code is a record with the members of the class, a method a
  function from the state to a fault or the new state, in the order of the code's calls; an exception,
  an exit, an abort and undefined behaviour are different values of \<open>fault\<close>. A pointer to an
  application is its desktop ID and is read through the manager, so that a dangling one shows.
  The iteration order of a hash table is the order of a list that may change between any two calls.
  What the operating system answers (files, directories, environment, children, sockets, events) is
  an argument: a function, a schedule or a list.

  \<^bold>\<open>What the lemmas show.\<close> The names offered are distinct, complete and resolved by rank at any time,
  additions and removals refine those of a map from desktop IDs, and the history on disk is the one in
  memory; parsing inverts printing for desktop files, command lines, Exec keys and history files;
  what is picked in the menu is what is executed, word for word, and what \<open>--no-exec\<close> prints and
  i3 is sent are the same words; the notifiers lose no change and never report one outside the search
  path; from the setup on the menu is in step with the desktop files; the resident mode reaps every
  child, serves only bytes it has read and does not spin, whatever the order of events; the command
  lines accepted are those that are a way to write options. Theorems also state where the
  code departs from what it means to do: the abort for an application whose two names are equal,
  names that differ in case alone, an empty command, the 32-bit length of an i3 message, the
  wakeup that the kqueue notifier can miss, a menu whose answer does not fit into a pipe, a signal
  while the menu is open, a request that is lost, events without a name, a buffer that leaks, a name
  with a line break, a menu without standard streams, and a history file that applications inherit.

  \<^bold>\<open>Bounds and termination.\<close> No fuel is used. Recursion that is not structural comes with a measure;
  the step relations (\<open>dp_step\<close>, \<open>inner_step\<close>, \<open>loop_step\<close>) come with a well-founded order in which
  every step of the program goes down, so that no run of them is endless;
  the walks over directories follow symbolic links and need not end, so they are option-valued
  (\<open>find_each\<close>, \<open>kq_walk\<close>) and shown to end on finite trees. Integers are unbounded except where
  the code relies on the width: counts of the history (\<open>INT_MAX\<close>), ranks, the sizes of an i3 message
  (32-bit words).

  \<^bold>\<open>Not modelled.\<close> Log messages and warnings other than those about the command line, the text of \<open>--version\<close> (the
  build makes it; a parameter), calls that fail for want of descriptors or memory, the pause between two scans of the
  kqueue thread, and code that is built for tests and coverage only. Dmenu, i3, the shell that runs a
  script, the kernel and the file system are outside the repository; what they do is a parameter,
  or a step of its own.
\<close>

end
